(* ===== verification/Tcp_Prelude.thy ===== *)
theory Tcp_Prelude
  imports Main "HOL-Library.Word"
begin

text \<open>
  Shared vocabulary of the development: machine integer types of the RP2040 target, a result
  type for C++ code that may hit undefined behaviour, a loop combinator with a total
  correctness rule, and generic facts on words, lists and maps that the components use.
\<close>

section \<open>Machine integers\<close>

text \<open>
  The target is a 32-bit ARM core: \<open>size_t\<close>, \<open>unsigned long\<close> and \<open>int\<close> have 32 bits.
  lwIP's \<open>err_t\<close> is a signed 8-bit integer; words carry their bits and \<open>sint\<close> reads them.
\<close>

type_synonym u8 = "8 word"
type_synonym u16 = "16 word"
type_synonym u32 = "32 word"
type_synonym u64 = "64 word"
type_synonym size_t = "32 word"
type_synonym err_t = "8 word"
type_synonym cint = "32 word"
type_synonym addr = nat

section \<open>Programs: state passing with faults\<close>

text \<open>
  A program takes the state and either stops with a fault (undefined behaviour, a failed
  assertion, a call of an empty \<open>std::function\<close>, a loop that does not return) or returns a
  value and the new state.
\<close>

type_synonym ('s, 'e, 'a) prog = "'s \<Rightarrow> 'e + 'a \<times> 's"

definition ret :: "'a \<Rightarrow> ('s, 'e, 'a) prog" where
  "ret x s = Inr (x, s)"

definition fail :: "'e \<Rightarrow> ('s, 'e, 'a) prog" where
  "fail e s = Inl e"

definition pbind :: "('s, 'e, 'a) prog \<Rightarrow> ('a \<Rightarrow> ('s, 'e, 'b) prog) \<Rightarrow> ('s, 'e, 'b) prog" where
  "pbind m f s = (case m s of Inl e \<Rightarrow> Inl e | Inr (x, s') \<Rightarrow> f x s')"

definition pseq :: "('s, 'e, unit) prog \<Rightarrow> ('s, 'e, 'b) prog \<Rightarrow> ('s, 'e, 'b) prog" where
  "pseq m k = pbind m (\<lambda>_. k)"

definition gets :: "('s \<Rightarrow> 'a) \<Rightarrow> ('s, 'e, 'a) prog" where
  "gets f s = Inr (f s, s)"

definition modify :: "('s \<Rightarrow> 's) \<Rightarrow> ('s, 'e, unit) prog" where
  "modify f s = Inr ((), f s)"

definition require :: "bool \<Rightarrow> 'e \<Rightarrow> ('s, 'e, unit) prog" where
  "require b e = (if b then ret () else fail e)"

definition when_p :: "bool \<Rightarrow> ('s, 'e, unit) prog \<Rightarrow> ('s, 'e, unit) prog" where
  "when_p b m = (if b then m else ret ())"

text \<open>\<open>deref e x\<close> is the use of a pointer that must not be null.\<close>

definition deref :: "'e \<Rightarrow> 'a option \<Rightarrow> ('s, 'e, 'a) prog" where
  "deref e x = (case x of None \<Rightarrow> fail e | Some a \<Rightarrow> ret a)"

definition when_some :: "'a option \<Rightarrow> ('a \<Rightarrow> ('s, 'e, unit) prog) \<Rightarrow> ('s, 'e, unit) prog" where
  "when_some x f = (case x of None \<Rightarrow> ret () | Some a \<Rightarrow> f a)"

named_theorems prog_simps \<open>evaluation of programs\<close>

lemma ret_apply [simp, prog_simps]: "ret x s = Inr (x, s)"
  by (simp add: ret_def)

lemma fail_apply [simp, prog_simps]: "fail e s = Inl e"
  by (simp add: fail_def)

lemma gets_apply [simp, prog_simps]: "gets f s = Inr (f s, s)"
  by (simp add: gets_def)

lemma modify_apply [simp, prog_simps]: "modify f s = Inr ((), f s)"
  by (simp add: modify_def)

lemma require_simps [simp, prog_simps]:
  "require True e = ret ()" "require False e = fail e"
  by (simp_all add: require_def)

lemma when_p_simps [simp, prog_simps]: "when_p True m = m" "when_p False m = ret ()"
  by (simp_all add: when_p_def)

lemma deref_simps [simp, prog_simps]: "deref e None = fail e" "deref e (Some a) = ret a"
  by (simp_all add: deref_def)

lemma when_some_simps [simp, prog_simps]:
  "when_some None f = ret ()" "when_some (Some a) f = f a"
  by (simp_all add: when_some_def)

text \<open>Evaluation of a sequence: the case distinction on the outcome of its first step.\<close>

lemma pbind_apply [prog_simps]:
  "pbind m f s = (case m s of Inl e \<Rightarrow> Inl e | Inr (x, s') \<Rightarrow> f x s')"
  by (rule pbind_def)

lemma pseq_apply [prog_simps]:
  "pseq m k s = (case m s of Inl e \<Rightarrow> Inl e | Inr (x, s') \<Rightarrow> k s')"
  by (simp add: pseq_def pbind_def)

lemma pbind_eq_Inr: "pbind m f s = Inr r \<longleftrightarrow> (\<exists>x s'. m s = Inr (x, s') \<and> f x s' = Inr r)"
  by (auto simp: pbind_def split: sum.splits)

lemma pbind_Inr: "m s = Inr (x, s') \<Longrightarrow> pbind m f s = f x s'"
  by (simp add: pbind_def)

lemma pseq_Inr: "m s = Inr (x, s') \<Longrightarrow> pseq m k s = k s'"
  by (simp add: pseq_def pbind_def)

lemma pseq_eq_Inr: "pseq m k s = Inr r \<longleftrightarrow> (\<exists>s'. m s = Inr ((), s') \<and> k s' = Inr r)"
  by (auto simp: pseq_def pbind_eq_Inr)

section \<open>Loops\<close>

text \<open>
  The body of a loop says, from the loop variables, whether the loop goes round again or leaves
  with a result. \<open>ploop\<close> is the loop; it is \<open>None\<close> when it does not return. \<open>run_loop\<close> turns a
  loop that does not return into a fault of the caller's choice, so that a theorem that the
  code returns excludes it.
\<close>

datatype ('l, 'r) loop = Again 'l | Done 'r

partial_function (option) ploop ::
  "('l \<Rightarrow> ('s, 'e, ('l, 'r) loop) prog) \<Rightarrow> 'l \<Rightarrow> 's \<Rightarrow> ('e + 'r \<times> 's) option" where
  "ploop body l s =
     (case body l s of
        Inl e \<Rightarrow> Some (Inl e)
      | Inr (x, s') \<Rightarrow> (case x of Done r \<Rightarrow> Some (Inr (r, s')) | Again l' \<Rightarrow> ploop body l' s'))"

definition run_loop :: "'e \<Rightarrow> ('l \<Rightarrow> ('s, 'e, ('l, 'r) loop) prog) \<Rightarrow> 'l \<Rightarrow> ('s, 'e, 'r) prog" where
  "run_loop diverges body l s = (case ploop body l s of None \<Rightarrow> Inl diverges | Some r \<Rightarrow> r)"

lemma ploop_Done: "body l s = Inr (Done r, s') \<Longrightarrow> ploop body l s = Some (Inr (r, s'))"
  by (subst ploop.simps) simp

lemma ploop_Again: "body l s = Inr (Again l', s') \<Longrightarrow> ploop body l s = ploop body l' s'"
  by (subst ploop.simps) simp

lemma ploop_fault: "body l s = Inl e \<Longrightarrow> ploop body l s = Some (Inl e)"
  by (subst ploop.simps) simp

lemma run_loop_unfold:
  "run_loop d body l s =
     (case body l s of
        Inl e \<Rightarrow> Inl e
      | Inr (x, s') \<Rightarrow> (case x of Done r \<Rightarrow> Inr (r, s') | Again l' \<Rightarrow> run_loop d body l' s'))"
  by (auto simp: run_loop_def ploop_Done ploop_Again ploop_fault split: sum.splits loop.splits)

text \<open>
  Total correctness: an invariant \<open>I\<close> and a variant \<open>m\<close> that every further round decreases give
  that the loop returns, in a state with the postcondition.
\<close>

lemma run_loop_total:
  fixes m :: "'l \<Rightarrow> 's \<Rightarrow> nat"
  assumes init: "I l s"
    and body: "\<And>l s. I l s \<Longrightarrow> \<exists>x s'. body l s = Inr (x, s') \<and>
      (case x of Again l' \<Rightarrow> I l' s' \<and> m l' s' < m l s | Done r \<Rightarrow> Q r s')"
  shows "\<exists>r s'. run_loop d body l s = Inr (r, s') \<and> Q r s'"
  using init
proof (induction "m l s" arbitrary: l s rule: less_induct)
  case less
  from body [OF less.prems] obtain x s' where
    x: "body l s = Inr (x, s')"
      "case x of Again l' \<Rightarrow> I l' s' \<and> m l' s' < m l s | Done r \<Rightarrow> Q r s'"
    by blast
  show ?case
  proof (cases x)
    case (Again l')
    with x less.hyps [of l' s'] show ?thesis
      by (subst run_loop_unfold) auto
  next
    case (Done r)
    with x show ?thesis by (subst run_loop_unfold) auto
  qed
qed

text \<open>
  Partial form for bodies that may fault: whatever the loop returns satisfies \<open>Q\<close>, and it never
  diverges, since the variant bounds the number of rounds.
\<close>

lemma run_loop_variant:
  fixes m :: "'l \<Rightarrow> nat"
  assumes init: "I l s"
    and body: "\<And>l s x s'. I l s \<Longrightarrow> body l s = Inr (x, s') \<Longrightarrow>
      (case x of Again l' \<Rightarrow> I l' s' \<and> m l' < m l | Done r \<Rightarrow> Q r s')"
  shows "(\<exists>e. ploop body l s = Some (Inl e)) \<or>
         (\<exists>r s'. run_loop d body l s = Inr (r, s') \<and> Q r s')"
  using init
proof (induction "m l" arbitrary: l s rule: less_induct)
  case less
  show ?case
  proof (cases "body l s")
    case (Inl e)
    then show ?thesis by (simp add: ploop_fault)
  next
    case (Inr p)
    then obtain x s' where x: "body l s = Inr (x, s')" by (cases p) auto
    from body [OF less.prems x] show ?thesis
    proof (cases x)
      case (Again l')
      with x body [OF less.prems x] less.hyps [of l' s'] show ?thesis
        by (subst run_loop_unfold) (auto simp: ploop_Again)
    next
      case (Done r)
      with x body [OF less.prems x] show ?thesis by (subst run_loop_unfold) auto
    qed
  qed
qed

section \<open>Words\<close>

lemma unat_min [simp]: "unat (min a b) = min (unat a) (unat (b :: 'a::len word))"
  by (simp add: min_def word_le_nat_alt)

lemma unat_add_no_wrap:
  "unat a + unat b < 2 ^ LENGTH('a) \<Longrightarrow> unat (a + b) = unat a + unat (b :: 'a::len word)"
  by (simp add: unat_word_ariths)

lemma unat_sub_le: "b \<le> a \<Longrightarrow> unat (a - b) = unat a - unat (b :: 'a::len word)"
  by (simp add: unat_sub)

lemma unat_ucast_u16 [simp]: "unat (ucast (x :: u16) :: u32) = unat x"
  by (simp add: unsigned_ucast_eq take_bit_nat_eq_self unsigned_less [THEN less_trans])

lemma unat_lt2p: "unat (x :: 'a::len word) < 2 ^ LENGTH('a)"
  by (rule unsigned_less)

lemma unat_u16_less: "unat (x :: u16) < 65536"
  using unat_lt2p [of x] by simp

lemma unat_ucast_small: "unat (x :: u32) < 2 ^ 16 \<Longrightarrow> unat (ucast x :: u16) = unat x"
  by (simp add: unsigned_ucast_eq take_bit_nat_eq_self)

section \<open>Lists and maps\<close>

lemma restrict_map_UNIV [simp]: "m |` UNIV = m"
  by (simp add: restrict_map_def)

lemma drop_append_ge: "length xs \<le> n \<Longrightarrow> drop n (xs @ ys) = drop (n - length xs) ys"
  by simp

lemma take_append_split: "length xs \<le> n \<Longrightarrow> take n (xs @ ys) = xs @ take (n - length xs) ys"
  by simp

lemma take_drop_add: "take n (drop k xs) @ take m (drop (k + n) xs) = take (n + m) (drop k xs)"
  by (simp add: take_add drop_drop add.commute [of k n])

end
