(* ===== verification/Platform.thy ===== *)
theory Platform
  imports Tcp_Prelude
begin

text \<open>
  What the library calls and does not contain: lwIP (\<open>pbuf\<close> and raw TCP API), the Arduino/Pico
  core and the \<open>async_bridge\<close> library. Their functions and header constants are parameters,
  collected in the record \<open>platform\<close>; the structs whose fields the library reads or writes
  directly are records. The documented behaviour the proofs rely on is stated as the predicates
  of the last section, which appear as hypotheses of the theorems that need them.
\<close>

section \<open>Structs of lwIP the library looks into\<close>

text \<open>
  The fields of \<open>struct pbuf\<close> that the library reads, and the reference count that the pbuf
  functions are documented to manage. \<open>p_payload\<close> is the memory the payload pointer addresses.
\<close>

record pbuf =
  p_next :: "addr option"
  p_payload :: "u8 list"
  p_len :: u16
  p_ref :: nat

text \<open>C functions that the library registers with lwIP.\<close>

datatype lwip_fn =
    Fn_lwip_receive_callback | Fn_lwip_sent_cb | Fn_s_error | Fn_s_poll | Fn_s_connected

text \<open>The value of an \<open>ip_addr_t\<close>; the library only passes it on.\<close>

type_synonym ip_addr = nat

record tcp_pcb =
  pcb_state :: u8
  local_ip :: ip_addr
  remote_ip :: ip_addr
  local_port :: u16
  remote_port :: u16
  so_options :: u8
  keep_idle :: u32
  keep_intvl :: u32
  keep_cnt :: u32
  callback_arg :: "addr option"
  cb_recv :: "lwip_fn option"
  cb_sent :: "lwip_fn option"
  cb_err :: "lwip_fn option"
  cb_poll :: "lwip_fn option"

text \<open>
  The part of the platform's state the library can see: the pbufs that lwIP has handed to it
  (those of lwIP's own send queue are not among them), the live PCBs, and everything else
  (\<open>hidden\<close>, of any type).
\<close>

record 'h net =
  pbufs :: "addr \<rightharpoonup> pbuf"
  pcbs :: "addr \<rightharpoonup> tcp_pcb"
  hidden :: 'h

section \<open>Header constants\<close>

record platform_consts =
  ERR_OK :: err_t
  ERR_MEM :: err_t
  ERR_CONN :: err_t
  ERR_ABRT :: err_t
  ERR_CLSD :: err_t
  PICO_OK :: cint
  PICO_ERROR_GENERIC :: cint
  PICO_ERROR_TIMEOUT :: cint
  PICO_ERROR_NO_DATA :: cint
  PICO_ERROR_INVALID_ARG :: cint
  PICO_ERROR_IO :: cint
  PICO_ERROR_RESOURCE_IN_USE :: cint
  CLOSED :: u8
  CLOSE_WAIT :: u8
  CLOSING :: u8
  TCP_PRIO_MIN :: u8
  TCP_WRITE_FLAG_COPY :: u8
  TCP_WRITE_FLAG_MORE :: u8
  SOF_KEEPALIVE :: u8
  TCP_MSS :: u16
  LWIP_IPV6 :: bool

section \<open>Functions\<close>

text \<open>What a bridge is given before it runs: \<open>workload(void*)\<close> of the library's callers.\<close>

datatype workload = Work_rx "addr option" | Work_err err_t | Work_len u16

record 'h platform = platform_consts +
  pbuf_free :: "addr \<Rightarrow> 'h net \<Rightarrow> 'h net"
  pbuf_ref :: "addr \<Rightarrow> 'h net \<Rightarrow> 'h net"
  pbuf_cat :: "addr \<Rightarrow> addr \<Rightarrow> 'h net \<Rightarrow> 'h net"
  tcp_new :: "'h net \<Rightarrow> addr option \<times> 'h net"
  tcp_setprio :: "addr \<Rightarrow> u8 \<Rightarrow> 'h net \<Rightarrow> 'h net"
  tcp_arg :: "addr \<Rightarrow> addr option \<Rightarrow> 'h net \<Rightarrow> 'h net"
  tcp_recv :: "addr \<Rightarrow> lwip_fn option \<Rightarrow> 'h net \<Rightarrow> 'h net"
  tcp_sent :: "addr \<Rightarrow> lwip_fn option \<Rightarrow> 'h net \<Rightarrow> 'h net"
  tcp_err :: "addr \<Rightarrow> lwip_fn option \<Rightarrow> 'h net \<Rightarrow> 'h net"
  tcp_poll :: "addr \<Rightarrow> lwip_fn option \<Rightarrow> u8 \<Rightarrow> 'h net \<Rightarrow> 'h net"
  tcp_connect :: "addr \<Rightarrow> ip_addr \<Rightarrow> u16 \<Rightarrow> lwip_fn \<Rightarrow> 'h net \<Rightarrow> err_t \<times> 'h net"
  tcp_close :: "addr \<Rightarrow> 'h net \<Rightarrow> err_t \<times> 'h net"
  tcp_abort :: "addr \<Rightarrow> 'h net \<Rightarrow> 'h net"
  tcp_write :: "addr \<Rightarrow> u8 list \<Rightarrow> u8 \<Rightarrow> 'h net \<Rightarrow> err_t \<times> 'h net"
  tcp_output :: "addr \<Rightarrow> 'h net \<Rightarrow> 'h net"
  tcp_sndbuf :: "addr \<Rightarrow> 'h net \<Rightarrow> size_t"
  tcp_recved :: "addr \<Rightarrow> u16 \<Rightarrow> 'h net \<Rightarrow> 'h net"
  tcp_nagle_disable :: "addr \<Rightarrow> 'h net \<Rightarrow> 'h net"
  tcp_nagle_enable :: "addr \<Rightarrow> 'h net \<Rightarrow> 'h net"
  tcp_nagle_disabled :: "addr \<Rightarrow> 'h net \<Rightarrow> bool"
  ip_is_v6 :: "ip_addr \<Rightarrow> bool"
  ip6_lacks_zone :: "ip_addr \<Rightarrow> bool"
  ip6_assign_zone :: "ip_addr \<Rightarrow> 'h net \<Rightarrow> ip_addr"
  ip_zero :: ip_addr
  millis :: "'h net \<Rightarrow> u32"
  hostByName :: "string \<Rightarrow> u32 \<Rightarrow> 'h net \<Rightarrow> ip_addr option \<times> 'h net"
  bridge_workload :: "addr \<Rightarrow> workload \<Rightarrow> 'h net \<Rightarrow> 'h net"
  bridge_run :: "addr \<Rightarrow> 'h net \<Rightarrow> 'h net"
  isCrossCore :: "'h net \<Rightarrow> bool"
  read_ipsr :: "'h net \<Rightarrow> u32"
  ctxLock :: "'h net \<Rightarrow> 'h net"
  ctxUnlock :: "'h net \<Rightarrow> 'h net"

section \<open>Chains of pbufs\<close>

text \<open>\<open>chain h p ps\<close>: following \<open>next\<close> from \<open>p\<close> to the null pointer passes the pbufs \<open>ps\<close>.\<close>

primrec chain :: "(addr \<rightharpoonup> pbuf) \<Rightarrow> addr option \<Rightarrow> addr list \<Rightarrow> bool" where
  "chain h p [] = (p = None)"
| "chain h p (q # qs) = (p = Some q \<and> (case h q of None \<Rightarrow> False | Some b \<Rightarrow> chain h (p_next b) qs))"

lemma chain_None [simp]: "chain h None ps \<longleftrightarrow> ps = []"
  by (cases ps) auto

lemma chain_Some:
  "chain h (Some q) ps \<longleftrightarrow> (\<exists>b qs. ps = q # qs \<and> h q = Some b \<and> chain h (p_next b) qs)"
  by (cases ps) (auto split: option.splits)

lemma chain_ConsI: "h q = Some b \<Longrightarrow> chain h (p_next b) qs \<Longrightarrow> chain h (Some q) (q # qs)"
  by simp

lemma chain_ConsE:
  assumes "chain h p (q # qs)"
  obtains b where "p = Some q" "h q = Some b" "chain h (p_next b) qs"
  using assms by (auto split: option.splits)

lemma chain_mapped: "chain h p ps \<Longrightarrow> q \<in> set ps \<Longrightarrow> \<exists>b. h q = Some b"
  by (induction ps arbitrary: p) (auto split: option.splits)

text \<open>A chain depends on the \<open>next\<close> fields of its own pbufs only.\<close>

lemma chain_cong:
  assumes "\<And>q. q \<in> set ps \<Longrightarrow> map_option p_next (h q) = map_option p_next (h' q)"
  shows "chain h p ps = chain h' p ps"
  using assms
proof (induction ps arbitrary: p)
  case Nil
  then show ?case by simp
next
  case (Cons q qs)
  have IH: "chain h x qs = chain h' x qs" for x
    using Cons.prems by (intro Cons.IH) simp
  have eq: "map_option p_next (h q) = map_option p_next (h' q)"
    using Cons.prems by simp
  show ?case
    by (cases "h q"; cases "h' q") (use eq IH in simp_all)
qed

lemma chain_upd_other [simp]: "q \<notin> set ps \<Longrightarrow> chain (h(q := x)) p ps = chain h p ps"
  by (rule chain_cong) auto

lemma chain_unique: "chain h p ps \<Longrightarrow> chain h p qs \<Longrightarrow> ps = qs"
proof (induction ps arbitrary: p qs)
  case Nil
  then show ?case by simp
next
  case (Cons q rest)
  then show ?case by (auto simp: chain_Some split: option.splits)
qed

lemma chain_append_last:
  assumes "chain h p ps" "ps \<noteq> []" "distinct ps" "h (last ps) = Some b"
    "chain h (Some q) qs" "set ps \<inter> set qs = {}"
  shows "chain (h(last ps \<mapsto> b\<lparr>p_next := Some q\<rparr>)) p (ps @ qs)"
  using assms
proof (induction ps arbitrary: p)
  case Nil
  then show ?case by simp
next
  case (Cons a rest)
  from Cons.prems(1) obtain c where c: "p = Some a" "h a = Some c" "chain h (p_next c) rest"
    by (rule chain_ConsE)
  have notin: "a \<notin> set rest" "a \<notin> set qs" using Cons.prems by auto
  show ?case
  proof (cases "rest = []")
    case True
    have "chain (h(a \<mapsto> b\<lparr>p_next := Some q\<rparr>)) (Some q) qs"
      using Cons.prems(5) notin by (subst chain_upd_other)
    then have "chain (h(a \<mapsto> b\<lparr>p_next := Some q\<rparr>)) (Some a) (a # qs)"
      by (intro chain_ConsI) auto
    with True c show ?thesis by (simp only: last_ConsL append_Cons append_Nil)
  next
    case False
    have "chain (h(last rest \<mapsto> b\<lparr>p_next := Some q\<rparr>)) (p_next c) (rest @ qs)"
      using Cons.prems False c by (intro Cons.IH) auto
    moreover have "last rest \<noteq> a" using False notin by auto
    ultimately have "chain (h(last rest \<mapsto> b\<lparr>p_next := Some q\<rparr>)) (Some a) (a # rest @ qs)"
      using c by (intro chain_ConsI) auto
    with False c show ?thesis by (simp only: last.simps append_Cons if_False)
  qed
qed

section \<open>Documented behaviour of the pbuf functions\<close>

text \<open>
  \<open>pbuf_free\<close> takes one reference from the first pbuf; when it was the last one the pbuf is
  deallocated and the same happens to its successor.
\<close>

inductive pbuf_freed :: "(addr \<rightharpoonup> pbuf) \<Rightarrow> addr \<Rightarrow> (addr \<rightharpoonup> pbuf) \<Rightarrow> bool" where
  shared: "h p = Some b \<Longrightarrow> 1 < p_ref b \<Longrightarrow> pbuf_freed h p (h(p \<mapsto> b\<lparr>p_ref := p_ref b - 1\<rparr>))"
| last_one: "h p = Some b \<Longrightarrow> p_ref b = 1 \<Longrightarrow> p_next b = None \<Longrightarrow> pbuf_freed h p (h(p := None))"
| next_one: "h p = Some b \<Longrightarrow> p_ref b = 1 \<Longrightarrow> p_next b = Some q \<Longrightarrow>
    pbuf_freed (h(p := None)) q h' \<Longrightarrow> pbuf_freed h p h'"

definition pbuf_free_contract :: "'h platform \<Rightarrow> bool" where
  "pbuf_free_contract P \<longleftrightarrow>
     (\<forall>n p h'. pbuf_freed (pbufs n) p h' \<longrightarrow>
        pbufs (pbuf_free P p n) = h' \<and> pcbs (pbuf_free P p n) = pcbs n)"

definition pbuf_ref_contract :: "'h platform \<Rightarrow> bool" where
  "pbuf_ref_contract P \<longleftrightarrow>
     (\<forall>n p b. pbufs n p = Some b \<longrightarrow>
        pbufs (pbuf_ref P p n) = (pbufs n)(p \<mapsto> b\<lparr>p_ref := Suc (p_ref b)\<rparr>) \<and>
        pcbs (pbuf_ref P p n) = pcbs n)"

definition pbuf_cat_contract :: "'h platform \<Rightarrow> bool" where
  "pbuf_cat_contract P \<longleftrightarrow>
     (\<forall>n p ps q b. chain (pbufs n) (Some p) ps \<longrightarrow> pbufs n (last ps) = Some b \<longrightarrow>
        pbufs (pbuf_cat P p q n) = (pbufs n)(last ps \<mapsto> b\<lparr>p_next := Some q\<rparr>) \<and>
        pcbs (pbuf_cat P p q n) = pcbs n)"

definition pbuf_contract :: "'h platform \<Rightarrow> bool" where
  "pbuf_contract P \<longleftrightarrow> pbuf_free_contract P \<and> pbuf_ref_contract P \<and> pbuf_cat_contract P"

lemma pbuf_contractD:
  assumes "pbuf_contract P"
  shows "pbuf_freed (pbufs n) p h' \<Longrightarrow> pbufs (pbuf_free P p n) = h'"
    and "pbuf_freed (pbufs n) p h' \<Longrightarrow> pcbs (pbuf_free P p n) = pcbs n"
    and "pbufs n p = Some b \<Longrightarrow> pbufs (pbuf_ref P p n) = (pbufs n)(p \<mapsto> b\<lparr>p_ref := Suc (p_ref b)\<rparr>)"
    and "pbufs n p = Some b \<Longrightarrow> pcbs (pbuf_ref P p n) = pcbs n"
    and "chain (pbufs n) (Some p) ps \<Longrightarrow> pbufs n (last ps) = Some c \<Longrightarrow>
      pbufs (pbuf_cat P p q n) = (pbufs n)(last ps \<mapsto> c\<lparr>p_next := Some q\<rparr>)"
    and "chain (pbufs n) (Some p) ps \<Longrightarrow> pbufs n (last ps) = Some c \<Longrightarrow>
      pcbs (pbuf_cat P p q n) = pcbs n"
  using assms
  by (simp_all add: pbuf_contract_def pbuf_free_contract_def pbuf_ref_contract_def
      pbuf_cat_contract_def)

text \<open>Freeing a chain all of whose pbufs have one reference removes exactly the chain.\<close>

lemma pbuf_freed_chain:
  "chain h (Some p) ps \<Longrightarrow> distinct ps \<Longrightarrow> (\<And>q b. q \<in> set ps \<Longrightarrow> h q = Some b \<Longrightarrow> p_ref b = 1) \<Longrightarrow>
   pbuf_freed h p (\<lambda>q. if q \<in> set ps then None else h q)"
proof (induction ps arbitrary: h p)
  case Nil
  then show ?case by simp
next
  case (Cons a rest)
  then obtain b where p: "a = p" and b: "h p = Some b" "chain h (p_next b) rest"
    by (auto split: option.splits)
  have ref: "p_ref b = 1" using Cons.prems(3) [of p b] b p by simp
  show ?case
  proof (cases "p_next b")
    case None
    with b have "rest = []" by simp
    moreover have "h(p := None) = (\<lambda>q. if q \<in> set (a # rest) then None else h q)"
      using \<open>rest = []\<close> p by auto
    ultimately show ?thesis using pbuf_freed.last_one [of h p b] b(1) ref None by simp
  next
    case (Some q)
    have "pbuf_freed (h(p := None)) q (\<lambda>x. if x \<in> set rest then None else (h(p := None)) x)"
    proof (rule Cons.IH)
      show "chain (h(p := None)) (Some q) rest"
        using Cons.prems(2) b(2) p Some by (subst chain_upd_other) simp_all
    qed (use Cons.prems p in \<open>auto split: if_splits\<close>)
    moreover have "(\<lambda>x. if x \<in> set rest then None else (h(p := None)) x)
        = (\<lambda>x. if x \<in> set (a # rest) then None else h x)"
      using p by auto
    ultimately show ?thesis using pbuf_freed.next_one [of h p b q] b(1) ref Some by simp
  qed
qed

section \<open>Documented behaviour of the TCP functions\<close>

text \<open>What lwIP has registered for a PCB.\<close>

definition pcb_regs :: "tcp_pcb \<Rightarrow> addr option \<times> lwip_fn option \<times> lwip_fn option \<times> lwip_fn option \<times> lwip_fn option" where
  "pcb_regs c = (callback_arg c, cb_recv c, cb_sent c, cb_err c, cb_poll c)"

text \<open>A call that neither touches received pbufs nor frees a PCB nor changes registrations.\<close>

definition net_frame :: "'h net \<Rightarrow> 'h net \<Rightarrow> bool" where
  "net_frame n n' \<longleftrightarrow> pbufs n' = pbufs n \<and>
     (\<forall>p. map_option pcb_regs (pcbs n' p) = map_option pcb_regs (pcbs n p))"

lemma net_frame_refl [simp]: "net_frame n n"
  by (simp add: net_frame_def)

lemma net_frame_trans [trans]: "net_frame a b \<Longrightarrow> net_frame b c \<Longrightarrow> net_frame a c"
  by (simp add: net_frame_def)

lemma net_frame_live: "net_frame n n' \<Longrightarrow> pcbs n' p = None \<longleftrightarrow> pcbs n p = None"
  by (metis net_frame_def option.map_disc_iff)

lemma net_frame_dom: "net_frame n n' \<Longrightarrow> dom (pcbs n') = dom (pcbs n)"
  using net_frame_live [of n n'] by (auto simp: dom_def)

definition recved_contract :: "'h platform \<Rightarrow> bool" where
  "recved_contract P \<longleftrightarrow> (\<forall>n p k. pcbs n p \<noteq> None \<longrightarrow> net_frame n (tcp_recved P p k n))"

definition send_contract :: "'h platform \<Rightarrow> bool" where
  "send_contract P \<longleftrightarrow>
     (\<forall>n p d f. pcbs n p \<noteq> None \<longrightarrow> net_frame n (snd (tcp_write P p d f n))) \<and>
     (\<forall>n p. pcbs n p \<noteq> None \<longrightarrow> net_frame n (tcp_output P p n))"

definition bridge_contract :: "'h platform \<Rightarrow> bool" where
  "bridge_contract P \<longleftrightarrow>
     (\<forall>n b x. net_frame n (bridge_workload P b x n)) \<and> (\<forall>n b. net_frame n (bridge_run P b n))"

definition reg_contract :: "'h platform \<Rightarrow> bool" where
  "reg_contract P \<longleftrightarrow>
     (\<forall>n p c a. pcbs n p = Some c \<longrightarrow> pbufs (tcp_arg P p a n) = pbufs n \<and>
        pcbs (tcp_arg P p a n) = (pcbs n)(p \<mapsto> c\<lparr>callback_arg := a\<rparr>)) \<and>
     (\<forall>n p c f. pcbs n p = Some c \<longrightarrow> pbufs (tcp_recv P p f n) = pbufs n \<and>
        pcbs (tcp_recv P p f n) = (pcbs n)(p \<mapsto> c\<lparr>cb_recv := f\<rparr>)) \<and>
     (\<forall>n p c f. pcbs n p = Some c \<longrightarrow> pbufs (tcp_sent P p f n) = pbufs n \<and>
        pcbs (tcp_sent P p f n) = (pcbs n)(p \<mapsto> c\<lparr>cb_sent := f\<rparr>)) \<and>
     (\<forall>n p c f. pcbs n p = Some c \<longrightarrow> pbufs (tcp_err P p f n) = pbufs n \<and>
        pcbs (tcp_err P p f n) = (pcbs n)(p \<mapsto> c\<lparr>cb_err := f\<rparr>)) \<and>
     (\<forall>n p c f i. pcbs n p = Some c \<longrightarrow> pbufs (tcp_poll P p f i n) = pbufs n \<and>
        pcbs (tcp_poll P p f i n) = (pcbs n)(p \<mapsto> c\<lparr>cb_poll := f\<rparr>))"

text \<open>
  \<open>tcp_close\<close> frees the PCB when it returns \<open>ERR_OK\<close> and leaves it in place otherwise;
  \<open>tcp_abort\<close> always frees it.
\<close>

definition close_contract :: "'h platform \<Rightarrow> bool" where
  "close_contract P \<longleftrightarrow>
     (\<forall>n p. pcbs n p \<noteq> None \<longrightarrow> pbufs (snd (tcp_close P p n)) = pbufs n \<and>
        pcbs (snd (tcp_close P p n)) =
          (if fst (tcp_close P p n) = ERR_OK P then (pcbs n)(p := None) else pcbs n)) \<and>
     (\<forall>n p. pcbs n p \<noteq> None \<longrightarrow> pbufs (tcp_abort P p n) = pbufs n \<and>
        pcbs (tcp_abort P p n) = (pcbs n)(p := None))"

text \<open>
  \<open>tcp_new\<close> gives a PCB that was not in use, with nothing registered; \<open>tcp_setprio\<close>,
  \<open>tcp_connect\<close> and the Nagle macros keep PCBs and registrations.
\<close>

definition open_contract :: "'h platform \<Rightarrow> bool" where
  "open_contract P \<longleftrightarrow>
     (\<forall>n. pbufs (snd (tcp_new P n)) = pbufs n \<and>
        (case fst (tcp_new P n) of
           None \<Rightarrow> pcbs (snd (tcp_new P n)) = pcbs n
         | Some p \<Rightarrow> pcbs n p = None \<and>
             (\<exists>c. pcbs (snd (tcp_new P n)) = (pcbs n)(p \<mapsto> c) \<and>
                pcb_regs c = (None, None, None, None, None)))) \<and>
     (\<forall>n p k. pcbs n p \<noteq> None \<longrightarrow> net_frame n (tcp_setprio P p k n)) \<and>
     (\<forall>n p a k f. pcbs n p \<noteq> None \<longrightarrow> net_frame n (snd (tcp_connect P p a k f n))) \<and>
     (\<forall>n p. pcbs n p \<noteq> None \<longrightarrow> net_frame n (tcp_nagle_disable P p n)) \<and>
     (\<forall>n p. pcbs n p \<noteq> None \<longrightarrow> net_frame n (tcp_nagle_enable P p n))"

end
