(* ===== verification/World.thy ===== *)
theory World
  imports Platform
begin

text \<open>
  The objects of the library and the state of a program that uses them: one store per class,
  indexed by object address, so that sharing through raw pointers (lwIP's callback argument,
  the \<open>this\<close> captured by a lambda, the PCB pointer held by three objects) and the end of an
  object's life are visible. Every call that leaves the library is logged in \<open>calls\<close>.
\<close>

section \<open>Faults\<close>

datatype fault =
    Null_deref               \<comment> \<open>use of a null pointer\<close>
  | Dangling_object addr     \<comment> \<open>use of an object of this library after its destructor ran\<close>
  | Dangling_pcb addr        \<comment> \<open>use of a PCB that lwIP has freed\<close>
  | Dangling_pbuf addr       \<comment> \<open>use of a freed pbuf\<close>
  | Out_of_bounds            \<comment> \<open>access outside a memory block\<close>
  | Assertion_failed         \<comment> \<open>a failed \<open>assert\<close>\<close>
  | Bad_function_call        \<comment> \<open>call of an empty \<open>std::function\<close>\<close>
  | Bad_shift                \<comment> \<open>a shift by a negative count or by the width or more\<close>
  | Diverges                 \<comment> \<open>a loop that does not return\<close>

section \<open>Function objects\<close>

text \<open>
  The lambdas the library stores in \<open>std::function\<close> members, by holder and signature; the address is the
  captured \<open>this\<close>. An empty \<open>std::function\<close> is \<open>None\<close>.
\<close>

datatype rx_cb =
    Ctx_fin addr          \<comment> \<open>\<open>[this] { _finCb(); }\<close> of \<open>TcpClientContext::initRxBuffer\<close>\<close>
  | Ctx_receive addr      \<comment> \<open>\<open>[this] { _receiveCb(); }\<close> of \<open>TcpClientContext::initRxBuffer\<close>\<close>

datatype void_cb =
    Client_connect addr   \<comment> \<open>\<open>[this] { _onConnectCallback(); }\<close> of \<open>TcpClient::_ts_connect\<close>\<close>
  | Client_fin addr       \<comment> \<open>\<open>[this] { _onFinCallback(); }\<close>\<close>
  | Client_receive addr   \<comment> \<open>\<open>[this] { _onReceiveCallback(); }\<close>\<close>
  | Client_poll addr      \<comment> \<open>\<open>[this] { _onPollCallback(); }\<close>\<close>

datatype err_cb = Client_error addr   \<comment> \<open>\<open>[this](auto &&PH1) { _onErrorCallback(PH1); }\<close>\<close>

datatype ack_cb = Client_ack addr     \<comment> \<open>\<open>[this](pcb, len) { _onAckCallback(pcb, len); }\<close>\<close>

text \<open>Function objects that only an application creates, by number.\<close>

type_synonym user_fn = nat

section \<open>Objects\<close>

record IoRxBuffer =
  rx_pcb :: "addr option"
  rx_head :: "addr option"
  rx_offset :: size_t
  rx_receivedCb :: "rx_cb option"
  rx_finCb :: "rx_cb option"

datatype CompletionMode = Acked | Enqueued

record TcpWriter =
  tx_pcb :: "addr option"
  tx_data :: "u8 list option"
  tx_acked :: size_t
  tx_queued :: size_t
  tx_total_size :: size_t
  tx_write_start_time :: u64
  tx_last_progress_time :: u64
  tx_mode :: CompletionMode
  tx_ack_cb :: "ack_cb option"

record TcpClientContext =
  ctx_pcb :: "addr option"
  ctx_rx :: "addr option"
  ctx_tx :: "addr option"
  ctx_timeout_ms :: u32
  ctx_finCb :: "void_cb option"
  ctx_connectCb :: "void_cb option"
  ctx_errorCb :: "err_cb option"
  ctx_receiveCb :: "void_cb option"
  ctx_ackCb :: "ack_cb option"
  ctx_closeCb :: "user_fn option"
  ctx_writtenCb :: "user_fn option"
  ctx_pollCb :: "void_cb option"
  ctx_client_id :: u8

record TcpClient =
  cl_received_bridge :: "addr option"
  cl_connected_bridge :: "addr option"
  cl_fin_bridge :: "addr option"
  cl_error_bridge :: "addr option"
  cl_poll_bridge :: "addr option"
  cl_ack_bridge :: "addr option"
  cl_ctx :: "addr option"
  cl_sync_accessor :: "addr option"
  cl_client_id :: u8
  cl_timeout :: u32
  cl_write_callback :: "user_fn option"

record TcpClientSyncAccessor =
  acc_io :: addr

section \<open>Calls that leave the library\<close>

datatype ext_call =
    Pbuf_free addr | Pbuf_ref addr | Pbuf_cat addr addr
  | Tcp_new | Tcp_setprio addr u8
  | Tcp_arg addr "addr option" | Tcp_recv addr "lwip_fn option" | Tcp_sent addr "lwip_fn option"
  | Tcp_err addr "lwip_fn option" | Tcp_poll addr "lwip_fn option" u8
  | Tcp_connect addr ip_addr u16 | Tcp_close addr | Tcp_abort addr
  | Tcp_write addr "u8 list" u8 | Tcp_output addr | Tcp_recved addr u16
  | Tcp_nagle_disable addr | Tcp_nagle_enable addr
  | HostByName string | Bridge_workload addr workload | Bridge_run addr
  | Ctx_lock | Ctx_unlock | Bridge_execute

section \<open>The state\<close>

record 'h world =
  net :: "'h net"
  rx_bufs :: "addr \<rightharpoonup> IoRxBuffer"
  writers :: "addr \<rightharpoonup> TcpWriter"
  contexts :: "addr \<rightharpoonup> TcpClientContext"
  clients :: "addr \<rightharpoonup> TcpClient"
  accessors :: "addr \<rightharpoonup> TcpClientSyncAccessor"
  cells_u8 :: "addr \<rightharpoonup> u8"
  cells_int :: "addr \<rightharpoonup> cint"
  cells_ip :: "addr \<rightharpoonup> ip_addr"
  fresh :: addr
  s_localPort :: u16
  s_defaultNoDelay :: bool
  calls :: "ext_call list"

type_synonym ('h, 'a) cprog = "('h world, fault, 'a) prog"

section \<open>Access to objects\<close>

definition lookup_obj :: "('h world \<Rightarrow> addr \<rightharpoonup> 'o) \<Rightarrow> addr \<Rightarrow> ('h, 'o) cprog" where
  "lookup_obj store a w = (case store w a of None \<Rightarrow> Inl (Dangling_object a) | Some x \<Rightarrow> Inr (x, w))"

abbreviation get_rx :: "addr \<Rightarrow> ('h, IoRxBuffer) cprog" where
  "get_rx \<equiv> lookup_obj rx_bufs"

abbreviation get_tx :: "addr \<Rightarrow> ('h, TcpWriter) cprog" where
  "get_tx \<equiv> lookup_obj writers"

abbreviation get_ctx :: "addr \<Rightarrow> ('h, TcpClientContext) cprog" where
  "get_ctx \<equiv> lookup_obj contexts"

abbreviation get_client :: "addr \<Rightarrow> ('h, TcpClient) cprog" where
  "get_client \<equiv> lookup_obj clients"

abbreviation get_accessor :: "addr \<Rightarrow> ('h, TcpClientSyncAccessor) cprog" where
  "get_accessor \<equiv> lookup_obj accessors"

abbreviation put_rx :: "addr \<Rightarrow> IoRxBuffer \<Rightarrow> ('h, unit) cprog" where
  "put_rx r x \<equiv> modify (\<lambda>w. w\<lparr>rx_bufs := (rx_bufs w)(r \<mapsto> x)\<rparr>)"

abbreviation put_tx :: "addr \<Rightarrow> TcpWriter \<Rightarrow> ('h, unit) cprog" where
  "put_tx t x \<equiv> modify (\<lambda>w. w\<lparr>writers := (writers w)(t \<mapsto> x)\<rparr>)"

abbreviation put_ctx :: "addr \<Rightarrow> TcpClientContext \<Rightarrow> ('h, unit) cprog" where
  "put_ctx c x \<equiv> modify (\<lambda>w. w\<lparr>contexts := (contexts w)(c \<mapsto> x)\<rparr>)"

abbreviation put_client :: "addr \<Rightarrow> TcpClient \<Rightarrow> ('h, unit) cprog" where
  "put_client c x \<equiv> modify (\<lambda>w. w\<lparr>clients := (clients w)(c \<mapsto> x)\<rparr>)"

text \<open>\<open>new\<close>: the address was never used before.\<close>

definition new_rx :: "IoRxBuffer \<Rightarrow> ('h, addr) cprog" where
  "new_rx x w = Inr (fresh w, w\<lparr>rx_bufs := (rx_bufs w)(fresh w \<mapsto> x), fresh := Suc (fresh w)\<rparr>)"

definition new_tx :: "TcpWriter \<Rightarrow> ('h, addr) cprog" where
  "new_tx x w = Inr (fresh w, w\<lparr>writers := (writers w)(fresh w \<mapsto> x), fresh := Suc (fresh w)\<rparr>)"

definition new_ctx :: "TcpClientContext \<Rightarrow> ('h, addr) cprog" where
  "new_ctx x w = Inr (fresh w, w\<lparr>contexts := (contexts w)(fresh w \<mapsto> x), fresh := Suc (fresh w)\<rparr>)"

definition new_client :: "TcpClient \<Rightarrow> ('h, addr) cprog" where
  "new_client x w = Inr (fresh w, w\<lparr>clients := (clients w)(fresh w \<mapsto> x), fresh := Suc (fresh w)\<rparr>)"

lemmas new_defs = new_rx_def new_tx_def new_ctx_def new_client_def

section \<open>Access to lwIP structs and calls into the platform\<close>

definition get_pbuf :: "addr \<Rightarrow> ('h, pbuf) cprog" where
  "get_pbuf p w = (case pbufs (net w) p of None \<Rightarrow> Inl (Dangling_pbuf p) | Some b \<Rightarrow> Inr (b, w))"

definition get_pcb :: "addr \<Rightarrow> ('h, tcp_pcb) cprog" where
  "get_pcb p w = (case pcbs (net w) p of None \<Rightarrow> Inl (Dangling_pcb p) | Some c \<Rightarrow> Inr (c, w))"

abbreviation put_pcb :: "addr \<Rightarrow> tcp_pcb \<Rightarrow> ('h, unit) cprog" where
  "put_pcb p x \<equiv> modify (\<lambda>w. w\<lparr>net := (net w)\<lparr>pcbs := (pcbs (net w))(p \<mapsto> x)\<rparr>\<rparr>)"

text \<open>
  A platform function is applied to the platform's state and logged. A call that is given a PCB
  or a pbuf is undefined behaviour unless that PCB or pbuf is live.
\<close>

definition ext :: "ext_call \<Rightarrow> ('h net \<Rightarrow> 'h net) \<Rightarrow> ('h, unit) cprog" where
  "ext c f = modify (\<lambda>w. w\<lparr>net := f (net w), calls := calls w @ [c]\<rparr>)"

definition ext_val :: "ext_call \<Rightarrow> ('h net \<Rightarrow> 'a \<times> 'h net) \<Rightarrow> ('h, 'a) cprog" where
  "ext_val c f w = Inr (fst (f (net w)), w\<lparr>net := snd (f (net w)), calls := calls w @ [c]\<rparr>)"

definition on_pcb :: "addr \<Rightarrow> ('h, 'a) cprog \<Rightarrow> ('h, 'a) cprog" where
  "on_pcb p m = pbind (get_pcb p) (\<lambda>_. m)"

definition on_pbuf :: "addr \<Rightarrow> ('h, 'a) cprog \<Rightarrow> ('h, 'a) cprog" where
  "on_pbuf p m = pbind (get_pbuf p) (\<lambda>_. m)"

declare lookup_obj_def [prog_simps] get_pbuf_def [prog_simps] get_pcb_def [prog_simps]
  on_pcb_def [prog_simps] on_pbuf_def [prog_simps]

lemma ext_apply [simp, prog_simps]:
  "ext c f w = Inr ((), w\<lparr>net := f (net w), calls := calls w @ [c]\<rparr>)"
  by (simp add: ext_def)

lemma ext_val_apply [simp, prog_simps]:
  "ext_val c f w = Inr (fst (f (net w)), w\<lparr>net := snd (f (net w)), calls := calls w @ [c]\<rparr>)"
  by (simp add: ext_val_def)

section \<open>Reading the log\<close>

text \<open>The number of bytes acknowledged to lwIP for a PCB, the chunks written.\<close>

fun acked :: "ext_call list \<Rightarrow> addr \<Rightarrow> nat" where
  "acked [] q = 0"
| "acked (Tcp_recved p k # cs) q = (if p = q then unat k else 0) + acked cs q"
| "acked (_ # cs) q = acked cs q"

fun writes_of :: "ext_call list \<Rightarrow> (u8 list \<times> u8) list" where
  "writes_of [] = []"
| "writes_of (Tcp_write p d f # cs) = (d, f) # writes_of cs"
| "writes_of (_ # cs) = writes_of cs"

lemma acked_append [simp]: "acked (xs @ ys) = (\<lambda>q. acked xs q + acked ys q)"
proof
  show "acked (xs @ ys) q = acked xs q + acked ys q" for q by (induction xs q rule: acked.induct) simp_all
qed

lemma acked_recved [simp]: "acked (map (Tcp_recved p) ks) q = (if p = q then sum_list (map unat ks) else 0)"
  by (induction ks) simp_all

lemma writes_of_append [simp]: "writes_of (xs @ ys) = writes_of xs @ writes_of ys"
  by (induction xs rule: writes_of.induct) auto

end
