(* ===== verification/Sample_Platform.thy ===== *)
theory Sample_Platform
  imports World
begin

text \<open>
  A concrete platform that meets the documented behaviour of the parameters. It serves the
  closed examples that show that the hypotheses of the theorems hold together; no theorem about
  the library depends on it. Its hidden state is the free space of a send buffer.
\<close>

section \<open>pbuf functions\<close>

partial_function (option) sample_free :: "(addr \<rightharpoonup> pbuf) \<Rightarrow> addr \<Rightarrow> (addr \<rightharpoonup> pbuf) option" where
  "sample_free h p =
     (case h p of
        None \<Rightarrow> Some h
      | Some b \<Rightarrow>
          if 1 < p_ref b then Some (h(p \<mapsto> b\<lparr>p_ref := p_ref b - 1\<rparr>))
          else case p_next b of
            None \<Rightarrow> Some (h(p := None))
          | Some q \<Rightarrow> sample_free (h(p := None)) q)"

lemma sample_free_freed: "pbuf_freed h p h' \<Longrightarrow> sample_free h p = Some h'"
proof (induction rule: pbuf_freed.induct)
  case (shared h p b)
  then show ?case by (subst sample_free.simps) simp
next
  case (last_one h p b)
  then show ?case by (subst sample_free.simps) simp
next
  case (next_one h p b q h')
  have "sample_free h p = sample_free (h(p := None)) q"
    by (subst sample_free.simps) (use next_one.hyps in \<open>simp del: fun_upd_apply\<close>)
  with next_one.IH show ?case by (simp only:)
qed

partial_function (option) sample_last :: "(addr \<rightharpoonup> pbuf) \<Rightarrow> addr \<Rightarrow> addr option" where
  "sample_last h p =
     (case h p of
        None \<Rightarrow> Some p
      | Some b \<Rightarrow> (case p_next b of None \<Rightarrow> Some p | Some q \<Rightarrow> sample_last h q))"

lemma sample_last_chain: "chain h (Some p) ps \<Longrightarrow> sample_last h p = Some (last ps)"
proof (induction ps arbitrary: p)
  case (Cons a rest)
  then obtain b where b: "a = p" "h p = Some b" "chain h (p_next b) rest"
    by (auto split: option.splits)
  show ?case
  proof (cases "p_next b")
    case None
    with b show ?thesis by (subst sample_last.simps) simp
  next
    case (Some q)
    with b have "rest \<noteq> []" by (cases rest) auto
    with b Some Cons.IH [of q] show ?thesis by (subst sample_last.simps) simp
  qed
qed simp

definition sample_cat :: "addr \<Rightarrow> addr \<Rightarrow> 'h net \<Rightarrow> 'h net" where
  "sample_cat p q n =
     (case sample_last (pbufs n) p of
        None \<Rightarrow> n
      | Some l \<Rightarrow> (case pbufs n l of None \<Rightarrow> n | Some b \<Rightarrow>
          n\<lparr>pbufs := (pbufs n)(l \<mapsto> b\<lparr>p_next := Some q\<rparr>)\<rparr>))"

definition upd_pcb :: "addr \<Rightarrow> (tcp_pcb \<Rightarrow> tcp_pcb) \<Rightarrow> 'h net \<Rightarrow> 'h net" where
  "upd_pcb p f n = n\<lparr>pcbs := (pcbs n)(p := map_option f (pcbs n p))\<rparr>"

section \<open>The platform\<close>

definition blank_pcb :: tcp_pcb where
  "blank_pcb = \<lparr>pcb_state = 0, local_ip = 0, remote_ip = 0, local_port = 0, remote_port = 0,
     so_options = 0, keep_idle = 0, keep_intvl = 0, keep_cnt = 0, callback_arg = None,
     cb_recv = None, cb_sent = None, cb_err = None, cb_poll = None\<rparr>"

text \<open>New PCBs get address 7; there is one at a time.\<close>

definition sample :: "size_t platform" where
  "sample = \<lparr>
     ERR_OK = 0, ERR_MEM = -1, ERR_CONN = -11, ERR_ABRT = -13, ERR_CLSD = -15,
     PICO_OK = 0, PICO_ERROR_GENERIC = -1, PICO_ERROR_TIMEOUT = -2, PICO_ERROR_NO_DATA = -3,
     PICO_ERROR_INVALID_ARG = -5, PICO_ERROR_IO = -6, PICO_ERROR_RESOURCE_IN_USE = -21,
     CLOSED = 0, CLOSE_WAIT = 7, CLOSING = 8, TCP_PRIO_MIN = 1,
     TCP_WRITE_FLAG_COPY = 1, TCP_WRITE_FLAG_MORE = 2, SOF_KEEPALIVE = 8, TCP_MSS = 1460,
     LWIP_IPV6 = False,
     pbuf_free = (\<lambda>p n. case sample_free (pbufs n) p of None \<Rightarrow> n | Some h \<Rightarrow> n\<lparr>pbufs := h\<rparr>),
     pbuf_ref = (\<lambda>p n. n\<lparr>pbufs := (pbufs n)(p := map_option (\<lambda>b. b\<lparr>p_ref := Suc (p_ref b)\<rparr>) (pbufs n p))\<rparr>),
     pbuf_cat = sample_cat,
     tcp_new = (\<lambda>n. if pcbs n 7 = None then (Some 7, n\<lparr>pcbs := (pcbs n)(7 \<mapsto> blank_pcb)\<rparr>) else (None, n)),
     tcp_setprio = (\<lambda>p k n. n),
     tcp_arg = (\<lambda>p a. upd_pcb p (\<lambda>c. c\<lparr>callback_arg := a\<rparr>)),
     tcp_recv = (\<lambda>p f. upd_pcb p (\<lambda>c. c\<lparr>cb_recv := f\<rparr>)),
     tcp_sent = (\<lambda>p f. upd_pcb p (\<lambda>c. c\<lparr>cb_sent := f\<rparr>)),
     tcp_err = (\<lambda>p f. upd_pcb p (\<lambda>c. c\<lparr>cb_err := f\<rparr>)),
     tcp_poll = (\<lambda>p f i. upd_pcb p (\<lambda>c. c\<lparr>cb_poll := f\<rparr>)),
     tcp_connect = (\<lambda>p a k f n. (0, upd_pcb p (\<lambda>c. c\<lparr>pcb_state := 2, remote_ip := a, remote_port := k\<rparr>) n)),
     tcp_close = (\<lambda>p n. (0, n\<lparr>pcbs := (pcbs n)(p := None)\<rparr>)),
     tcp_abort = (\<lambda>p n. n\<lparr>pcbs := (pcbs n)(p := None)\<rparr>),
     tcp_write = (\<lambda>p d f n. if length d \<le> unat (hidden n)
        then (0, n\<lparr>hidden := hidden n - of_nat (length d)\<rparr>) else (-1, n)),
     tcp_output = (\<lambda>p n. n),
     tcp_sndbuf = (\<lambda>p n. hidden n),
     tcp_recved = (\<lambda>p k n. n),
     tcp_nagle_disable = (\<lambda>p n. n), tcp_nagle_enable = (\<lambda>p n. n), tcp_nagle_disabled = (\<lambda>p n. True),
     ip_is_v6 = (\<lambda>a. False), ip6_lacks_zone = (\<lambda>a. False), ip6_assign_zone = (\<lambda>a n. a), ip_zero = 0,
     millis = (\<lambda>n. 0), hostByName = (\<lambda>h t n. (Some 1, n)),
     bridge_workload = (\<lambda>b x n. n), bridge_run = (\<lambda>b n. n),
     isCrossCore = (\<lambda>n. False), read_ipsr = (\<lambda>n. 0), ctxLock = (\<lambda>n. n), ctxUnlock = (\<lambda>n. n)\<rparr>"

lemma sample_pbuf_contract: "pbuf_contract sample"
  unfolding pbuf_contract_def pbuf_free_contract_def pbuf_ref_contract_def pbuf_cat_contract_def
  by (auto simp: sample_def sample_cat_def dest: sample_free_freed sample_last_chain)

lemma upd_pcb_simps:
  "pcbs n p = Some c \<Longrightarrow> pcbs (upd_pcb p f n) = (pcbs n)(p \<mapsto> f c)"
  "pbufs (upd_pcb p f n) = pbufs n"
  by (simp_all add: upd_pcb_def)

lemma upd_pcb_frame: "(\<And>c. pcb_regs (f c) = pcb_regs c) \<Longrightarrow> net_frame n (upd_pcb p f n)"
  by (auto simp: net_frame_def upd_pcb_def option.map_comp comp_def)

lemma sample_recved_contract: "recved_contract sample"
  by (simp add: recved_contract_def sample_def)

lemma sample_send_contract: "send_contract sample"
  by (auto simp: send_contract_def sample_def net_frame_def)

lemma sample_bridge_contract: "bridge_contract sample"
  by (simp add: bridge_contract_def sample_def)

lemma sample_reg_contract: "reg_contract sample"
  by (auto simp: reg_contract_def sample_def upd_pcb_simps)

lemma sample_close_contract: "close_contract sample"
  by (simp add: close_contract_def sample_def)

lemma sample_open_contract: "open_contract sample"
  by (auto simp: open_contract_def sample_def blank_pcb_def pcb_regs_def upd_pcb_frame)

lemmas sample_contracts =
  sample_pbuf_contract sample_recved_contract sample_send_contract sample_bridge_contract
  sample_reg_contract sample_close_contract sample_open_contract

section \<open>Sample states\<close>

definition sample_net :: "(addr \<rightharpoonup> pbuf) \<Rightarrow> (addr \<rightharpoonup> tcp_pcb) \<Rightarrow> size_t \<Rightarrow> size_t net" where
  "sample_net h c s = \<lparr>pbufs = h, pcbs = c, hidden = s\<rparr>"

definition sample_world :: "size_t net \<Rightarrow> size_t world" where
  "sample_world n = \<lparr>net = n, rx_bufs = Map.empty, writers = Map.empty, contexts = Map.empty,
     clients = Map.empty, accessors = Map.empty, cells_u8 = Map.empty, cells_int = Map.empty,
     cells_ip = Map.empty, fresh = 100, s_localPort = 0, s_defaultNoDelay = True, calls = []\<rparr>"

end
