(* ===== verification/Byte_Queue.thy ===== *)
theory Byte_Queue
  imports Tcp_Prelude
begin

text \<open>
  The interface a receive buffer offers to the code that reads from it: a queue of bytes that can
  be inspected at its front, consumed from its front, and discarded. The reader's lemmas are
  proved once from the laws; the theory of the receive buffer discharges the laws.
\<close>

section \<open>A reader\<close>

text \<open>
  The loop by which a handler drains a buffer: as long as bytes are available it takes the next
  one.
\<close>

definition read_all ::
  "'e \<Rightarrow> ('s, 'e, size_t) prog \<Rightarrow> ('s, 'e, u8) prog \<Rightarrow> (size_t \<Rightarrow> ('s, 'e, unit) prog) \<Rightarrow> ('s, 'e, u8 list) prog" where
  "read_all diverges available peek consume =
     run_loop diverges (\<lambda>acc.
       pbind available (\<lambda>k.
       if k = 0 then ret (Done acc)
       else pbind peek (\<lambda>b. pseq (consume 1) (ret (Again (acc @ [b])))))) []"

section \<open>Laws and their consequences\<close>

locale byte_queue =
  fixes rep :: "u8 list \<Rightarrow> 's \<Rightarrow> bool"
    and peek :: "('s, 'e, u8) prog"
    and available :: "('s, 'e, size_t) prog"
    and consume :: "size_t \<Rightarrow> ('s, 'e, unit) prog"
    and discard :: "('s, 'e, unit) prog"
  assumes peek_law: "rep bs s \<Longrightarrow> peek s = Inr (if bs = [] then 0 else hd bs, s)"
    and available_law: "rep bs s \<Longrightarrow> \<exists>k. available s = Inr (k, s) \<and> unat k \<le> length bs \<and> (k = 0 \<longleftrightarrow> bs = [])"
    and consume_law: "rep bs s \<Longrightarrow> \<exists>s'. consume n s = Inr ((), s') \<and> rep (drop (unat n) bs) s'"
    and discard_law: "rep bs s \<Longrightarrow> \<exists>s'. discard s = Inr ((), s') \<and> rep [] s'"
begin

lemma consume_consume:
  assumes "rep bs s"
  shows "\<exists>s'. pseq (consume m) (consume n) s = Inr ((), s') \<and> rep (drop (unat m + unat n) bs) s'"
proof -
  from consume_law [OF assms, of m] obtain s1 where
    s1: "consume m s = Inr ((), s1)" "rep (drop (unat m) bs) s1" by blast
  from consume_law [OF s1(2), of n] obtain s2 where
    "consume n s1 = Inr ((), s2)" "rep (drop (unat n) (drop (unat m) bs)) s2" by blast
  with s1 show ?thesis by (simp add: prog_simps add.commute)
qed

lemma peek_nth:
  assumes "rep bs s" "unat n < length bs"
  shows "\<exists>s'. pbind (pseq (consume n) peek) ret s = Inr (bs ! unat n, s') \<and> rep (drop (unat n) bs) s'"
proof -
  from consume_law [OF assms(1), of n] obtain s1 where
    s1: "consume n s = Inr ((), s1)" "rep (drop (unat n) bs) s1" by blast
  with peek_law [OF s1(2)] assms(2) show ?thesis by (simp add: prog_simps hd_drop_conv_nth)
qed

lemma read_all_returns:
  assumes rep: "rep bs s"
  shows "\<exists>s'. read_all d available peek consume s = Inr (bs, s') \<and> rep [] s'"
proof -
  have "\<exists>r s'. read_all d available peek consume s = Inr (r, s') \<and> r = bs \<and> rep [] s'"
    unfolding read_all_def
  proof (rule run_loop_total [where I = "\<lambda>acc s. \<exists>rest. rep rest s \<and> bs = acc @ rest"
        and m = "\<lambda>acc s. length bs - length acc"])
    show "\<exists>rest. rep rest s \<and> bs = [] @ rest" using rep by simp
  next
    fix acc s
    assume "\<exists>rest. rep rest s \<and> bs = acc @ rest"
    then obtain rest where rest: "rep rest s" "bs = acc @ rest" by blast
    from available_law [OF rest(1)] obtain k where
      k: "available s = Inr (k, s)" "k = 0 \<longleftrightarrow> rest = []" by blast
    from consume_law [OF rest(1), of 1] obtain s1 where
      "consume 1 s = Inr ((), s1)" "rep (drop 1 rest) s1" by auto
    with k rest peek_law [OF rest(1)] show "\<exists>x s'.
        pbind available (\<lambda>k. if k = 0 then ret (Done acc)
          else pbind peek (\<lambda>b. pseq (consume 1) (ret (Again (acc @ [b]))))) s = Inr (x, s') \<and>
        (case x of
           Again acc' \<Rightarrow> (\<exists>rest. rep rest s' \<and> bs = acc' @ rest) \<and> length bs - length acc' < length bs - length acc
         | Done r \<Rightarrow> r = bs \<and> rep [] s')"
      by (cases rest) (auto simp: prog_simps)
  qed
  then show ?thesis by blast
qed

end

end
