(* ===== verification/Io_Rx_Buffer.thy ===== *)
theory Io_Rx_Buffer
  imports Sample_Platform Byte_Queue
begin

text \<open>
  The receive buffer of a connection (\<open>src/IoRxBuffer.cpp\<close>, \<open>include/IoRxBuffer.hpp\<close>): a cursor
  into a chain of pbufs handed over by lwIP. This theory has its operations, the abstraction of
  a buffer to the sequence of its unread bytes, and the theorems that the operations implement
  a byte queue, free every pbuf they consume and acknowledge exactly what they consume. The lwIP
  entry point \<open>lwip_receive_callback\<close>, which runs callbacks of other objects, is modelled in
  the theory of the callbacks.
\<close>

section \<open>Operations\<close>

text \<open>\<open>IoRxBuffer(pbuf *chain)\<close>.\<close>

definition IoRxBuffer_new :: "addr option \<Rightarrow> ('h, addr) cprog" where
  "IoRxBuffer_new ch =
     new_rx \<lparr>rx_pcb = None, rx_head = ch, rx_offset = 0, rx_receivedCb = None, rx_finCb = None\<rparr>"

definition IoRxBuffer_free :: "'h platform \<Rightarrow> addr \<Rightarrow> ('h, unit) cprog" where
  "IoRxBuffer_free P r =
     pbind (get_rx r) (\<lambda>x.
     pbind (deref Null_deref (rx_head x)) (\<lambda>old.
     pbind (get_pbuf old) (\<lambda>b.
     pseq (put_rx r (x\<lparr>rx_head := p_next b, rx_offset := 0\<rparr>))
    (pseq (when_some (p_next b) (\<lambda>q. on_pbuf q (ext (Pbuf_ref q) (pbuf_ref P q))))
          (on_pbuf old (ext (Pbuf_free old) (pbuf_free P old)))))))"

definition IoRxBuffer_fastPath :: "'h platform \<Rightarrow> addr \<Rightarrow> size_t \<Rightarrow> ('h, size_t) cprog" where
  "IoRxBuffer_fastPath P r remaining =
     pbind (get_rx r) (\<lambda>x.
     let off = rx_offset x + remaining; consumed = remaining in
     pseq (put_rx r (x\<lparr>rx_offset := off\<rparr>))
    (pbind (deref Null_deref (rx_head x)) (\<lambda>h0.
     pbind (get_pbuf h0) (\<lambda>b.
     pseq (when_p (off = ucast (p_len b)) (IoRxBuffer_free P r))
          (ret consumed)))))"

text \<open>
  The \<open>while\<close> loop of \<open>_slowPath\<close>: its variables are \<open>remaining\<close> and \<open>consumed\<close>; leaving the loop
  and the \<open>return\<close> inside it both give \<open>consumed\<close>.
\<close>

definition IoRxBuffer_slowStep ::
  "'h platform \<Rightarrow> addr \<Rightarrow> size_t \<times> size_t \<Rightarrow> ('h, (size_t \<times> size_t, size_t) loop) cprog" where
  "IoRxBuffer_slowStep P r = (\<lambda>(remaining, consumed).
     pbind (get_rx r) (\<lambda>x.
     case rx_head x of
       None \<Rightarrow> ret (Done consumed)
     | Some h0 \<Rightarrow>
         if \<not> (remaining > 0) then ret (Done consumed)
         else
           pbind (get_pbuf h0) (\<lambda>b.
           let available = ucast (p_len b) - rx_offset x in
           if remaining < available then
             pseq (put_rx r (x\<lparr>rx_offset := rx_offset x + remaining\<rparr>))
                  (ret (Done (consumed + remaining)))
           else
             pseq (IoRxBuffer_free P r)
                  (ret (Again (remaining - available, consumed + available))))))"

definition IoRxBuffer_slowPath :: "'h platform \<Rightarrow> addr \<Rightarrow> size_t \<Rightarrow> ('h, size_t) cprog" where
  "IoRxBuffer_slowPath P r remaining = run_loop Diverges (IoRxBuffer_slowStep P r) (remaining, 0)"

definition IoRxBuffer_toAckStep ::
  "'h platform \<Rightarrow> addr \<Rightarrow> size_t \<Rightarrow> ('h, (size_t, unit) loop) cprog" where
  "IoRxBuffer_toAckStep P r to_ack =
     (if to_ack = 0 then ret (Done ())
      else
        let chunk = (ucast (min to_ack 0xFFFF) :: u16) in
        pbind (get_rx r) (\<lambda>x.
        pbind (deref Null_deref (rx_pcb x)) (\<lambda>p.
        pseq (on_pcb p (ext (Tcp_recved p chunk) (tcp_recved P p chunk)))
             (ret (Again (to_ack - ucast chunk))))))"

definition IoRxBuffer_toAck :: "'h platform \<Rightarrow> addr \<Rightarrow> size_t \<Rightarrow> ('h, unit) cprog" where
  "IoRxBuffer_toAck P r consumed = run_loop Diverges (IoRxBuffer_toAckStep P r) consumed"

definition IoRxBuffer_reset :: "'h platform \<Rightarrow> addr \<Rightarrow> ('h, unit) cprog" where
  "IoRxBuffer_reset P r =
     pbind (get_rx r) (\<lambda>x.
     when_some (rx_head x) (\<lambda>h0.
       pseq (on_pbuf h0 (ext (Pbuf_free h0) (pbuf_free P h0)))
            (put_rx r (x\<lparr>rx_head := None, rx_offset := 0, rx_pcb := None\<rparr>))))"

text \<open>The destructor: \<open>reset()\<close>, after which the object does not exist.\<close>

definition IoRxBuffer_delete :: "'h platform \<Rightarrow> addr \<Rightarrow> ('h, unit) cprog" where
  "IoRxBuffer_delete P r =
     pseq (IoRxBuffer_reset P r) (modify (\<lambda>w. w\<lparr>rx_bufs := (rx_bufs w)(r := None)\<rparr>))"

definition IoRxBuffer_size :: size_t where
  "IoRxBuffer_size = 0"

definition IoRxBuffer_peek :: "addr \<Rightarrow> ('h, u8) cprog" where
  "IoRxBuffer_peek r =
     pbind (get_rx r) (\<lambda>x.
     case rx_head x of
       None \<Rightarrow> ret 0
     | Some h0 \<Rightarrow>
         pbind (get_pbuf h0) (\<lambda>b.
         if unat (rx_offset x) < length (p_payload b)
         then ret (p_payload b ! unat (rx_offset x)) else fail Out_of_bounds))"

definition IoRxBuffer_peekAvailable :: "addr \<Rightarrow> ('h, size_t) cprog" where
  "IoRxBuffer_peekAvailable r =
     pbind (get_rx r) (\<lambda>x.
     case rx_head x of
       None \<Rightarrow> ret 0
     | Some h0 \<Rightarrow> pbind (get_pbuf h0) (\<lambda>b. ret (ucast (p_len b) - rx_offset x)))"

text \<open>The pointer \<open>payload + offset\<close> is the pbuf and the offset into its payload.\<close>

definition IoRxBuffer_peekBuffer :: "addr \<Rightarrow> ('h, (addr \<times> size_t) option) cprog" where
  "IoRxBuffer_peekBuffer r =
     pbind (get_rx r) (\<lambda>x.
     case rx_head x of
       None \<Rightarrow> ret None
     | Some h0 \<Rightarrow> pbind (get_pbuf h0) (\<lambda>b. ret (Some (h0, rx_offset x))))"

text \<open>What an application reads through such a pointer.\<close>

definition read_ptr :: "addr \<times> size_t \<Rightarrow> nat \<Rightarrow> ('h, u8) cprog" where
  "read_ptr q i =
     pbind (get_pbuf (fst q)) (\<lambda>b.
     if unat (snd q) + i < length (p_payload b)
     then ret (p_payload b ! (unat (snd q) + i)) else fail Out_of_bounds)"

definition IoRxBuffer_peekConsume :: "'h platform \<Rightarrow> addr \<Rightarrow> size_t \<Rightarrow> ('h, unit) cprog" where
  "IoRxBuffer_peekConsume P r n =
     pbind (get_rx r) (\<lambda>x.
     if n = 0 \<or> rx_head x = None then ret ()
     else
       pbind (deref Null_deref (rx_head x)) (\<lambda>h0.
       pbind (get_pbuf h0) (\<lambda>b.
       let available = ucast (p_len b) - rx_offset x; remaining = n in
       pbind (if remaining \<le> available then IoRxBuffer_fastPath P r remaining
              else IoRxBuffer_slowPath P r remaining) (\<lambda>consumed.
       pbind (get_rx r) (\<lambda>y.
       when_p (rx_pcb y \<noteq> None \<and> consumed > 0) (IoRxBuffer_toAck P r consumed))))))"

definition IoRxBuffer_setOnFinCallback :: "addr \<Rightarrow> rx_cb option \<Rightarrow> ('h, unit) cprog" where
  "IoRxBuffer_setOnFinCallback r cb = pbind (get_rx r) (\<lambda>x. put_rx r (x\<lparr>rx_finCb := cb\<rparr>))"

definition IoRxBuffer_setOnReceivedCallback :: "addr \<Rightarrow> rx_cb option \<Rightarrow> ('h, unit) cprog" where
  "IoRxBuffer_setOnReceivedCallback r cb = pbind (get_rx r) (\<lambda>x. put_rx r (x\<lparr>rx_receivedCb := cb\<rparr>))"

section \<open>Abstraction to a sequence of bytes\<close>

text \<open>
  A pbuf the buffer owns: one reference and a payload as long as \<open>len\<close> says. It may be empty: lwIP sets \<open>len\<close>
  to 0 in the leading pbufs of a segment whose beginning has been received before.
\<close>

definition pbuf_good :: "pbuf \<Rightarrow> bool" where
  "pbuf_good b \<longleftrightarrow> p_ref b = 1 \<and> length (p_payload b) = unat (p_len b)"

definition payload_at :: "(addr \<rightharpoonup> pbuf) \<Rightarrow> addr \<Rightarrow> u8 list" where
  "payload_at h p = (case h p of None \<Rightarrow> [] | Some b \<Rightarrow> p_payload b)"

text \<open>\<open>rx_owns r x ps w\<close>: the buffer at \<open>r\<close> is \<open>x\<close> and its chain consists of the good pbufs \<open>ps\<close>.\<close>

definition rx_owns :: "addr \<Rightarrow> IoRxBuffer \<Rightarrow> addr list \<Rightarrow> 'h world \<Rightarrow> bool" where
  "rx_owns r x ps w \<longleftrightarrow> rx_bufs w r = Some x \<and> chain (pbufs (net w)) (rx_head x) ps \<and> distinct ps \<and>
     (\<forall>p \<in> set ps. case pbufs (net w) p of None \<Rightarrow> False | Some b \<Rightarrow> pbuf_good b)"

text \<open>The cursor is at 0 or inside the first pbuf.\<close>

definition cursor_ok :: "size_t \<Rightarrow> addr list \<Rightarrow> (addr \<rightharpoonup> pbuf) \<Rightarrow> bool" where
  "cursor_ok off ps h = (case ps of [] \<Rightarrow> off = 0 | p # _ \<Rightarrow> off = 0 \<or> unat off < length (payload_at h p))"

definition unread :: "size_t \<Rightarrow> addr list \<Rightarrow> (addr \<rightharpoonup> pbuf) \<Rightarrow> u8 list" where
  "unread off ps h = drop (unat off) (concat (map (payload_at h) ps))"

text \<open>\<open>rx_rep r ps bs w\<close>: the buffer at \<open>r\<close> holds the pbufs \<open>ps\<close> and its unread bytes are \<open>bs\<close>.\<close>

definition rx_rep :: "addr \<Rightarrow> addr list \<Rightarrow> u8 list \<Rightarrow> 'h world \<Rightarrow> bool" where
  "rx_rep r ps bs w = (case rx_bufs w r of None \<Rightarrow> False | Some x \<Rightarrow>
     rx_owns r x ps w \<and> cursor_ok (rx_offset x) ps (pbufs (net w)) \<and>
     bs = unread (rx_offset x) ps (pbufs (net w)))"

lemma rx_repE:
  assumes "rx_rep r ps bs w"
  obtains x where "rx_owns r x ps w" "cursor_ok (rx_offset x) ps (pbufs (net w))"
    "bs = unread (rx_offset x) ps (pbufs (net w))"
  using assms by (auto simp: rx_rep_def split: option.splits)

lemma rx_repI:
  "rx_owns r x ps w \<Longrightarrow> cursor_ok (rx_offset x) ps (pbufs (net w)) \<Longrightarrow>
   bs = unread (rx_offset x) ps (pbufs (net w)) \<Longrightarrow> rx_rep r ps bs w"
  by (simp add: rx_rep_def rx_owns_def)

lemma rx_owns_head: "rx_owns r x ps w \<Longrightarrow> rx_head x = (case ps of [] \<Rightarrow> None | p # _ \<Rightarrow> Some p)"
  by (cases ps) (auto simp: rx_owns_def)

lemma rx_owns_good:
  assumes "rx_owns r x ps w" "p \<in> set ps"
  obtains b where "pbufs (net w) p = Some b" "pbuf_good b" "p_payload b = payload_at (pbufs (net w)) p"
  using assms by (auto simp: rx_owns_def payload_at_def split: option.splits)

lemma rx_owns_first:
  assumes "rx_owns r x (p # ps) w"
  obtains b where "rx_bufs w r = Some x" "rx_head x = Some p" "pbufs (net w) p = Some b"
    "pbuf_good b" "p_payload b = payload_at (pbufs (net w)) p"
    "chain (pbufs (net w)) (p_next b) ps" "p \<notin> set ps" "distinct ps"
proof -
  have "p \<in> set (p # ps)" by simp
  with assms obtain b where b: "pbufs (net w) p = Some b" "pbuf_good b"
    "p_payload b = payload_at (pbufs (net w)) p"
    by (rule rx_owns_good)
  with assms show ?thesis by (intro that) (auto simp: rx_owns_def)
qed

lemma payload_at_upd_other [simp]: "p \<noteq> q \<Longrightarrow> payload_at (h(q := x)) p = payload_at h p"
  by (simp add: payload_at_def)

lemma unread_upd_other [simp]: "q \<notin> set ps \<Longrightarrow> unread off ps (h(q := x)) = unread off ps h"
proof -
  assume "q \<notin> set ps"
  then have "map (payload_at (h(q := x))) ps = map (payload_at h) ps"
    by (intro map_cong refl payload_at_upd_other) auto
  then show ?thesis by (simp only: unread_def)
qed

lemma unread_add: "unat (off + k) = unat off + unat k \<Longrightarrow> unread (off + k) ps h = drop (unat k) (unread off ps h)"
  by (simp add: unread_def add.commute)

lemma unread_next:
  assumes "unat off \<le> length (payload_at h p)"
  shows "drop (length (payload_at h p) - unat off) (unread off (p # ps) h) = unread 0 ps h"
  using assms by (simp add: unread_def)

lemma unread_length_first:
  "length (payload_at h p) - unat off \<le> length (unread off (p # ps) h)"
  by (simp add: unread_def)

lemma cursor_ok_0 [simp]: "cursor_ok 0 ps h"
  by (cases ps) (simp_all add: cursor_ok_def)

text \<open>The abstraction depends on the buffer object and on the pbufs of its chain only.\<close>

lemma rx_rep_cong:
  assumes rx: "rx_bufs w' r = rx_bufs w r"
    and pb: "\<And>p. p \<in> set ps \<Longrightarrow> pbufs (net w') p = pbufs (net w) p"
  shows "rx_rep r ps bs w' = rx_rep r ps bs w"
proof -
  have ch: "chain (pbufs (net w')) h ps = chain (pbufs (net w)) h ps" for h
    by (rule chain_cong) (simp add: pb)
  have pay: "map (payload_at (pbufs (net w'))) ps = map (payload_at (pbufs (net w))) ps"
    by (rule map_cong) (simp_all add: pb payload_at_def)
  then have "unread off ps (pbufs (net w')) = unread off ps (pbufs (net w))" for off
    by (simp only: unread_def)
  moreover have "cursor_ok off ps (pbufs (net w')) = cursor_ok off ps (pbufs (net w))" for off
    using pay by (cases ps) (auto simp: cursor_ok_def)
  moreover have "rx_owns r x ps w' = rx_owns r x ps w" for x
    using ch pb rx by (auto simp: rx_owns_def)
  ultimately show ?thesis by (simp only: rx_rep_def rx)
qed

section \<open>Advancing to the next pbuf\<close>

text \<open>
  What an operation on one receive buffer leaves alone: every other object, every other buffer,
  the PCBs, and the callbacks and the PCB pointer of the buffer itself.
\<close>

definition rx_frame :: "addr \<Rightarrow> 'h world \<Rightarrow> 'h world \<Rightarrow> bool" where
  "rx_frame r w w' \<longleftrightarrow> (\<exists>N x h off cs. rx_bufs w r = Some x \<and>
     w' = w\<lparr>net := N, rx_bufs := (rx_bufs w)(r \<mapsto> x\<lparr>rx_head := h, rx_offset := off\<rparr>),
            calls := calls w @ cs\<rparr> \<and> pcbs N = pcbs (net w))"

lemma rx_frame_refl: "rx_bufs w r = Some x \<Longrightarrow> rx_frame r w w"
  unfolding rx_frame_def
  by (intro exI [of _ "net w"] exI [of _ x] exI [of _ "rx_head x"] exI [of _ "rx_offset x"]
      exI [of _ "[]"]) (simp add: fun_upd_idem)

lemma rx_frame_trans: "rx_frame r w1 w2 \<Longrightarrow> rx_frame r w2 w3 \<Longrightarrow> rx_frame r w1 w3"
  unfolding rx_frame_def by (clarsimp simp: fun_upd_upd) blast

text \<open>
  \<open>_free\<close> removes the first pbuf and nothing else: the extra reference taken on the successor
  makes \<open>pbuf_free\<close> stop there.
\<close>

lemma pbuf_freed_ref_next:
  assumes "h p = Some b" "p_ref b = 1" "p_next b = Some q" "q \<noteq> p" "h q = Some c" "p_ref c = 1"
  shows "pbuf_freed (h(q \<mapsto> c\<lparr>p_ref := Suc (p_ref c)\<rparr>)) p (h(p := None))"
proof -
  let ?h = "h(q \<mapsto> c\<lparr>p_ref := Suc (p_ref c)\<rparr>)"
  have "pbuf_freed (?h(p := None)) q ((?h(p := None))(q \<mapsto> c\<lparr>p_ref := Suc (p_ref c), p_ref := Suc (p_ref c) - 1\<rparr>))"
    using pbuf_freed.shared [of "?h(p := None)" q "c\<lparr>p_ref := Suc (p_ref c)\<rparr>"] assms by simp
  moreover have "c\<lparr>p_ref := 1\<rparr> = c" using assms by simp
  then have "(?h(p := None))(q \<mapsto> c\<lparr>p_ref := Suc (p_ref c), p_ref := Suc (p_ref c) - 1\<rparr>) = h(p := None)"
    using assms by (auto simp: fun_eq_iff)
  ultimately show ?thesis
    using pbuf_freed.next_one [of ?h p b q] assms by simp
qed

lemma IoRxBuffer_free_run:
  assumes P: "pbuf_contract P" and own: "rx_owns r x (p # ps) w"
  obtains N cs where
    "IoRxBuffer_free P r w = Inr ((), w\<lparr>net := N,
       rx_bufs := (rx_bufs w)(r \<mapsto> x\<lparr>rx_head := (case ps of [] \<Rightarrow> None | q # _ \<Rightarrow> Some q), rx_offset := 0\<rparr>),
       calls := calls w @ cs\<rparr>)"
    "pbufs N = (pbufs (net w))(p := None)" "pcbs N = pcbs (net w)" "acked cs = (\<lambda>_. 0)"
proof -
  let ?h = "pbufs (net w)"
  from own obtain b where x: "rx_bufs w r = Some x" and head: "rx_head x = Some p"
    and b: "?h p = Some b" "pbuf_good b" and ch: "chain ?h (p_next b) ps" and dist: "p \<notin> set ps"
    by (rule rx_owns_first)
  from ch have nxt: "p_next b = (case ps of [] \<Rightarrow> None | q # _ \<Rightarrow> Some q)"
    by (cases ps) auto
  show ?thesis
  proof (cases ps)
    case Nil
    have "pbuf_freed ?h p (?h(p := None))"
      using pbuf_freed.last_one [of ?h p b] b nxt Nil by (simp add: pbuf_good_def)
    with P have "pbufs (pbuf_free P p (net w)) = ?h(p := None)"
      "pcbs (pbuf_free P p (net w)) = pcbs (net w)"
      by (auto dest: pbuf_contractD)
    with Nil x head b nxt show ?thesis
      by (intro that [where N = "pbuf_free P p (net w)" and cs = "[Pbuf_free p]"])
        (simp_all add: IoRxBuffer_free_def prog_simps fun_eq_iff)
  next
    case (Cons q qs)
    from own Cons obtain c where c: "?h q = Some c" "pbuf_good c"
      using rx_owns_good [of r x "p # ps" w q] by auto
    let ?n1 = "pbuf_ref P q (net w)" and ?n2 = "pbuf_free P p (pbuf_ref P q (net w))"
    have n1: "pbufs ?n1 = ?h(q \<mapsto> c\<lparr>p_ref := Suc (p_ref c)\<rparr>)" "pcbs ?n1 = pcbs (net w)"
      using pbuf_contractD(3,4) [OF P c(1)] by auto
    have freed: "pbuf_freed (pbufs ?n1) p (?h(p := None))"
      unfolding n1 using b c nxt Cons dist
      by (intro pbuf_freed_ref_next) (auto simp: pbuf_good_def)
    have "pbufs ?n2 = ?h(p := None)" "pcbs ?n2 = pcbs (net w)"
      using pbuf_contractD(1,2) [OF P freed] n1 by auto
    moreover have "pbufs ?n1 p = Some b" using n1 b Cons dist by auto
    ultimately show ?thesis using Cons x head b c nxt
      by (intro that [where N = ?n2 and cs = "[Pbuf_ref q, Pbuf_free p]"])
        (simp_all add: IoRxBuffer_free_def prog_simps fun_eq_iff)
  qed
qed

text \<open>After \<open>_free\<close> the buffer holds the rest of the chain with the cursor at its start.\<close>

lemma IoRxBuffer_free_step:
  assumes P: "pbuf_contract P" and own: "rx_owns r x (p # ps) w"
  obtains w' where "IoRxBuffer_free P r w = Inr ((), w')"
    "rx_rep r ps (unread 0 ps (pbufs (net w))) w'" "rx_frame r w w'"
    "pbufs (net w') = (pbufs (net w))(p := None)" "acked (calls w') = acked (calls w)"
proof -
  from P own obtain N cs where run: "IoRxBuffer_free P r w = Inr ((), w\<lparr>net := N,
       rx_bufs := (rx_bufs w)(r \<mapsto> x\<lparr>rx_head := (case ps of [] \<Rightarrow> None | q # _ \<Rightarrow> Some q), rx_offset := 0\<rparr>),
       calls := calls w @ cs\<rparr>)"
    (is "_ = Inr ((), ?w')")
    and N: "pbufs N = (pbufs (net w))(p := None)" "pcbs N = pcbs (net w)" "acked cs = (\<lambda>_. 0)"
    by (rule IoRxBuffer_free_run)
  from own obtain b :: pbuf where ch: "chain (pbufs (net w)) (p_next b) ps"
    and dist: "p \<notin> set ps" "distinct ps"
    by (rule rx_owns_first)
  moreover from ch have "p_next b = (case ps of [] \<Rightarrow> None | q # _ \<Rightarrow> Some q)"
    by (cases ps) auto
  ultimately have "chain (pbufs N) (case ps of [] \<Rightarrow> None | q # _ \<Rightarrow> Some q) ps"
    using dist N by (simp only: chain_upd_other)
  then have own': "rx_owns r (x\<lparr>rx_head := (case ps of [] \<Rightarrow> None | q # _ \<Rightarrow> Some q), rx_offset := 0\<rparr>) ps ?w'"
    using own dist N by (auto simp: rx_owns_def)
  have "unread 0 ps (pbufs N) = unread 0 ps (pbufs (net w))"
    unfolding N by (rule unread_upd_other [OF dist(1)])
  with own' have "rx_rep r ps (unread 0 ps (pbufs (net w))) ?w'"
    by (auto intro!: rx_repI)
  moreover have "rx_frame r w ?w'"
    using own N unfolding rx_frame_def rx_owns_def by auto
  ultimately show ?thesis using run N by (intro that [of ?w']) auto
qed

section \<open>Consumption\<close>

text \<open>\<open>rx_moved r ps1 w w'\<close>: on the way from \<open>w\<close> to \<open>w'\<close> exactly the pbufs \<open>ps1\<close> were freed.\<close>

definition rx_moved :: "addr \<Rightarrow> addr list \<Rightarrow> 'h world \<Rightarrow> 'h world \<Rightarrow> bool" where
  "rx_moved r ps1 w w' \<longleftrightarrow> rx_frame r w w' \<and> pbufs (net w') = pbufs (net w) |` (- set ps1) \<and>
     acked (calls w') = acked (calls w)"

lemma rx_moved_trans: "rx_moved r ps1 w1 w2 \<Longrightarrow> rx_moved r ps2 w2 w3 \<Longrightarrow> rx_moved r (ps1 @ ps2) w1 w3"
  unfolding rx_moved_def by (auto intro: rx_frame_trans simp: Int_commute)

lemma rx_moved_refl: "rx_rep r ps bs w \<Longrightarrow> rx_moved r [] w w"
  unfolding rx_moved_def by (auto simp: rx_rep_def rx_owns_def intro: rx_frame_refl split: option.splits)

text \<open>Moving the cursor inside the first pbuf.\<close>

lemma rx_advance:
  assumes own: "rx_owns r x (p # ps) w"
    and lt: "unat (rx_offset x) + unat k < length (payload_at (pbufs (net w)) p)"
  defines "w' \<equiv> w\<lparr>rx_bufs := (rx_bufs w)(r \<mapsto> x\<lparr>rx_offset := rx_offset x + k\<rparr>)\<rparr>"
  shows "rx_rep r (p # ps) (drop (unat k) (unread (rx_offset x) (p # ps) (pbufs (net w)))) w'"
    and "rx_moved r [] w w'"
proof -
  from own obtain b where b: "rx_bufs w r = Some x" "pbufs (net w) p = Some b" "pbuf_good b"
    "p_payload b = payload_at (pbufs (net w)) p"
    by (rule rx_owns_first)
  have "length (payload_at (pbufs (net w)) p) < 2 ^ 16"
    using b unat_u16_less [of "p_len b"] by (simp add: pbuf_good_def)
  with lt have add: "unat (rx_offset x + k) = unat (rx_offset x) + unat k"
    by (intro unat_add_no_wrap) simp
  show "rx_rep r (p # ps) (drop (unat k) (unread (rx_offset x) (p # ps) (pbufs (net w)))) w'"
  proof (rule rx_repI)
    show "rx_owns r (x\<lparr>rx_offset := rx_offset x + k\<rparr>) (p # ps) w'"
      using own by (simp add: w'_def rx_owns_def)
  qed (use add lt in \<open>simp_all add: w'_def cursor_ok_def unread_add\<close>)
  show "rx_moved r [] w w'"
    unfolding rx_moved_def rx_frame_def w'_def using b(1)
    by (auto intro!: exI [of _ "net w"] exI [of _ x] exI [of _ "rx_head x"] exI [of _ "[]"])
qed

text \<open>Dropping the first pbuf.\<close>

lemma rx_drop_first:
  assumes P: "pbuf_contract P" and own: "rx_owns r x (p # ps) w"
    and le: "unat (rx_offset x) \<le> length (payload_at (pbufs (net w)) p)"
  obtains w' where "IoRxBuffer_free P r w = Inr ((), w')" "rx_moved r [p] w w'"
    "rx_rep r ps (drop (length (payload_at (pbufs (net w)) p) - unat (rx_offset x))
       (unread (rx_offset x) (p # ps) (pbufs (net w)))) w'"
proof -
  from P own obtain w' where w': "IoRxBuffer_free P r w = Inr ((), w')"
    "rx_rep r ps (unread 0 ps (pbufs (net w))) w'" "rx_frame r w w'"
    "pbufs (net w') = (pbufs (net w))(p := None)" "acked (calls w') = acked (calls w)"
    by (rule IoRxBuffer_free_step)
  have "(pbufs (net w))(p := None) = pbufs (net w) |` (- set [p])"
    by (auto simp: restrict_map_def fun_eq_iff)
  with w' have "rx_moved r [p] w w'" by (simp only: rx_moved_def simp_thms)
  with w' show ?thesis using that unread_next [OF le] by simp
qed

text \<open>The first pbuf and what is left of it, as the code computes it.\<close>

lemma rx_rep_first:
  assumes "rx_rep r (p # ps) bs w"
  obtains x b where "rx_owns r x (p # ps) w" "bs = unread (rx_offset x) (p # ps) (pbufs (net w))"
    "rx_bufs w r = Some x" "rx_head x = Some p" "pbufs (net w) p = Some b"
    "unat (p_len b) = length (payload_at (pbufs (net w)) p)"
    "unat (rx_offset x) \<le> length (payload_at (pbufs (net w)) p)"
    "unat ((ucast (p_len b) :: size_t) - rx_offset x) =
       length (payload_at (pbufs (net w)) p) - unat (rx_offset x)"
proof -
  from assms obtain x where x: "rx_owns r x (p # ps) w"
    "cursor_ok (rx_offset x) (p # ps) (pbufs (net w))"
    "bs = unread (rx_offset x) (p # ps) (pbufs (net w))"
    by (rule rx_repE)
  from x(1) obtain b where b: "rx_bufs w r = Some x" "rx_head x = Some p"
    "pbufs (net w) p = Some b" "pbuf_good b" "p_payload b = payload_at (pbufs (net w)) p"
    by (rule rx_owns_first)
  have len: "unat (p_len b) = length (payload_at (pbufs (net w)) p)"
    using b by (simp add: pbuf_good_def)
  have le: "unat (rx_offset x) \<le> length (payload_at (pbufs (net w)) p)"
    using x(2) by (auto simp: cursor_ok_def)
  have "rx_offset x \<le> (ucast (p_len b) :: size_t)"
    using le len by (simp add: word_le_nat_alt)
  then have "unat ((ucast (p_len b) :: size_t) - rx_offset x) = unat (p_len b) - unat (rx_offset x)"
    by (simp add: unat_sub_le)
  with that [OF x(1) x(3) b(1) b(2) b(3) len le] len show ?thesis by simp
qed

text \<open>\<open>_fastPath\<close>: all of the request lies in the first pbuf.\<close>

lemma rx_drop_advanced:
  assumes P: "pbuf_contract P" and own: "rx_owns r x (p # ps) w"
    and add: "unat (rx_offset x + n) = unat (rx_offset x) + unat n"
    and sum: "unat (rx_offset x) + unat n = length (payload_at (pbufs (net w)) p)"
  obtains w' where "IoRxBuffer_free P r (w\<lparr>rx_bufs := (rx_bufs w)(r \<mapsto> x\<lparr>rx_offset := rx_offset x + n\<rparr>)\<rparr>) = Inr ((), w')"
    "rx_moved r [p] w w'" "rx_rep r ps (drop (unat n) (unread (rx_offset x) (p # ps) (pbufs (net w)))) w'"
proof -
  let ?x1 = "x\<lparr>rx_offset := rx_offset x + n\<rparr>" and ?w1 = "w\<lparr>rx_bufs := (rx_bufs w)(r \<mapsto> x\<lparr>rx_offset := rx_offset x + n\<rparr>)\<rparr>"
  have own1: "rx_owns r ?x1 (p # ps) ?w1" using own by (simp add: rx_owns_def)
  from P own1 obtain w' where w': "IoRxBuffer_free P r ?w1 = Inr ((), w')" "rx_moved r [p] ?w1 w'"
    "rx_rep r ps (drop (length (payload_at (pbufs (net ?w1)) p) - unat (rx_offset ?x1))
       (unread (rx_offset ?x1) (p # ps) (pbufs (net ?w1)))) w'"
    by (rule rx_drop_first) (use add sum in auto)
  have "rx_bufs w r = Some x" using own by (simp add: rx_owns_def)
  then have "rx_moved r [] w ?w1"
    unfolding rx_moved_def rx_frame_def
    by (auto intro!: exI [of _ "net w"] exI [of _ x] exI [of _ "rx_head x"] exI [of _ "[]"])
  then have "rx_moved r [p] w w'" using w'(2) rx_moved_trans by fastforce
  then show ?thesis using w'(1,3) add sum by (intro that) (simp_all add: unread_add)
qed

lemma IoRxBuffer_fastPath_run:
  assumes P: "pbuf_contract P" and rep: "rx_rep r (p # ps) bs w"
    and x: "rx_bufs w r = Some x" and b: "pbufs (net w) p = Some b"
    and le: "n \<le> ucast (p_len b) - rx_offset x"
  shows "\<exists>w' ps1 ps2. IoRxBuffer_fastPath P r n w = Inr (n, w') \<and> p # ps = ps1 @ ps2 \<and>
    rx_moved r ps1 w w' \<and> rx_rep r ps2 (drop (unat n) bs) w' \<and> unat n \<le> length bs"
proof -
  let ?h = "pbufs (net w)" and ?off = "rx_offset x + n"
  from rep x b have own: "rx_owns r x (p # ps) w" and bs: "bs = unread (rx_offset x) (p # ps) ?h"
    and head: "rx_head x = Some p" and len: "unat (p_len b) = length (payload_at ?h p)"
    and off: "unat (rx_offset x) \<le> length (payload_at ?h p)"
    and av: "unat ((ucast (p_len b) :: size_t) - rx_offset x) = length (payload_at ?h p) - unat (rx_offset x)"
    by (auto elim: rx_rep_first)
  have n: "unat (rx_offset x) + unat n \<le> length (payload_at ?h p)"
    using le av off by (simp add: word_le_nat_alt)
  have small: "length (payload_at ?h p) < 2 ^ 16"
    using len unat_u16_less [of "p_len b"] by simp
  have add: "unat ?off = unat (rx_offset x) + unat n"
    using n small by (intro unat_add_no_wrap) simp
  have len_bs: "unat n \<le> length bs" using n unread_length_first [of ?h p "rx_offset x" ps] bs by simp
  let ?w1 = "w\<lparr>rx_bufs := (rx_bufs w)(r \<mapsto> x\<lparr>rx_offset := ?off\<rparr>)\<rparr>"
  have eq: "(?off = ucast (p_len b)) \<longleftrightarrow> unat (rx_offset x) + unat n = length (payload_at ?h p)"
    using add len by (simp add: word_unat_eq_iff)
  show ?thesis
  proof (cases "?off = ucast (p_len b)")
    case False
    then have lt: "unat (rx_offset x) + unat n < length (payload_at ?h p)" using n eq by simp
    have "IoRxBuffer_fastPath P r n w = Inr (n, ?w1)"
      using x head b False by (simp add: IoRxBuffer_fastPath_def prog_simps Let_def)
    with rx_advance [OF own lt] bs len_bs show ?thesis
      by (intro exI [of _ ?w1] exI [of _ "[]"] exI [of _ "p # ps"]) simp
  next
    case True
    from rx_drop_advanced [OF P own add] True eq obtain w' where w': "IoRxBuffer_free P r ?w1 = Inr ((), w')"
      "rx_moved r [p] w w'" "rx_rep r ps (drop (unat n) (unread (rx_offset x) (p # ps) ?h)) w'" by blast
    have "IoRxBuffer_fastPath P r n w = Inr (n, w')"
      using x head b True w'(1) by (simp add: IoRxBuffer_fastPath_def prog_simps Let_def)
    with w' bs len_bs show ?thesis by (intro exI [of _ w'] exI [of _ "[p]"] exI [of _ ps]) simp
  qed
qed

text \<open>
  One round of \<open>_slowPath\<close>: it either ends inside the first pbuf, or drops that pbuf and goes on
  with the rest of the request.
\<close>

lemma IoRxBuffer_slowStep_partial:
  assumes rep: "rx_rep r (p # ps) bs w" and rem: "0 < remaining"
    and x: "rx_bufs w r = Some x" and b: "pbufs (net w) p = Some b"
    and lt: "remaining < ucast (p_len b) - rx_offset x"
  shows "\<exists>w'. IoRxBuffer_slowStep P r (remaining, consumed) w = Inr (Done (consumed + remaining), w') \<and>
    rx_moved r [] w w' \<and> rx_rep r (p # ps) (drop (unat remaining) bs) w' \<and> unat remaining < length bs"
proof -
  let ?h = "pbufs (net w)"
  from rep x b have own: "rx_owns r x (p # ps) w" and bs: "bs = unread (rx_offset x) (p # ps) ?h"
    and head: "rx_head x = Some p"
    and av: "unat ((ucast (p_len b) :: size_t) - rx_offset x) = length (payload_at ?h p) - unat (rx_offset x)"
    by (auto elim: rx_rep_first)
  have n: "unat (rx_offset x) + unat remaining < length (payload_at ?h p)"
    using lt av by (simp add: word_less_nat_alt)
  have "unat remaining < length bs" using n unread_length_first [of ?h p "rx_offset x" ps] bs by simp
  moreover have "IoRxBuffer_slowStep P r (remaining, consumed) w = Inr (Done (consumed + remaining),
      w\<lparr>rx_bufs := (rx_bufs w)(r \<mapsto> x\<lparr>rx_offset := rx_offset x + remaining\<rparr>)\<rparr>)"
    using x head b lt rem by (simp add: IoRxBuffer_slowStep_def prog_simps Let_def)
  ultimately show ?thesis using rx_advance [OF own n] bs by blast
qed

lemma IoRxBuffer_slowStep_whole:
  assumes P: "pbuf_contract P" and rep: "rx_rep r (p # ps) bs w" and rem: "0 < remaining"
    and x: "rx_bufs w r = Some x" and b: "pbufs (net w) p = Some b"
    and ge: "\<not> remaining < ucast (p_len b) - rx_offset x"
  defines "available \<equiv> ucast (p_len b) - rx_offset x"
  shows "\<exists>w'. IoRxBuffer_slowStep P r (remaining, consumed) w =
      Inr (Again (remaining - available, consumed + available), w') \<and>
    rx_moved r [p] w w' \<and> rx_rep r ps (drop (unat available) bs) w' \<and>
    unat available \<le> unat remaining \<and> unat available \<le> length bs"
proof -
  let ?h = "pbufs (net w)"
  from rep x b have own: "rx_owns r x (p # ps) w" and bs: "bs = unread (rx_offset x) (p # ps) ?h"
    and head: "rx_head x = Some p" and off: "unat (rx_offset x) \<le> length (payload_at ?h p)"
    and av: "unat available = length (payload_at ?h p) - unat (rx_offset x)"
    by (auto elim: rx_rep_first simp: available_def)
  from P own obtain w' where w': "IoRxBuffer_free P r w = Inr ((), w')" "rx_moved r [p] w w'"
    "rx_rep r ps (drop (length (payload_at ?h p) - unat (rx_offset x)) (unread (rx_offset x) (p # ps) ?h)) w'"
    by (rule rx_drop_first) (use off in simp)
  have "IoRxBuffer_slowStep P r (remaining, consumed) w =
      Inr (Again (remaining - available, consumed + available), w')"
    using x head b ge rem w'(1) by (simp add: IoRxBuffer_slowStep_def prog_simps Let_def available_def)
  moreover have "unat available \<le> length bs"
    using unread_length_first [of ?h p "rx_offset x" ps] bs av by simp
  ultimately show ?thesis using w' av off ge bs
    by (auto simp: available_def word_less_nat_alt not_less)
qed

text \<open>
  The invariant of the loop: with \<open>con\<close> bytes consumed, \<open>rem\<close> of the request are left and the
  buffer holds the bytes after the first \<open>con\<close>; and what holds when the loop is left.
\<close>

definition slow_inv :: "addr \<Rightarrow> addr list \<Rightarrow> u8 list \<Rightarrow> size_t \<Rightarrow> 'h world \<Rightarrow> size_t \<times> size_t \<Rightarrow> 'h world \<Rightarrow> bool" where
  "slow_inv r ps bs n w = (\<lambda>(rem, con) s. \<exists>ps1 ps2. ps = ps1 @ ps2 \<and> rx_moved r ps1 w s \<and>
     rx_rep r ps2 (drop (unat con) bs) s \<and> unat rem + unat con = unat n \<and> unat con \<le> length bs)"

definition consumed_post :: "addr \<Rightarrow> addr list \<Rightarrow> u8 list \<Rightarrow> size_t \<Rightarrow> 'h world \<Rightarrow> size_t \<Rightarrow> 'h world \<Rightarrow> bool" where
  "consumed_post r ps bs n w c s \<longleftrightarrow> (\<exists>ps1 ps2. ps = ps1 @ ps2 \<and> rx_moved r ps1 w s \<and>
     rx_rep r ps2 (drop (unat n) bs) s) \<and> unat c = min (unat n) (length bs)"

text \<open>The pbufs of the chain that are left: a round that goes on frees one, be it empty.\<close>

definition rx_left :: "addr list \<Rightarrow> 'h world \<Rightarrow> nat" where
  "rx_left ps s = card (set ps \<inter> dom (pbufs (net s)))"

lemma rx_left_moved:
  assumes "rx_moved r [p] s s'" "p \<in> set ps" "pbufs (net s) p = Some b"
  shows "rx_left ps s' < rx_left ps s"
  unfolding rx_left_def using assms by (intro psubset_card_mono) (auto simp: rx_moved_def)

abbreviation slow_outcome :: "addr \<Rightarrow> addr list \<Rightarrow> u8 list \<Rightarrow> size_t \<Rightarrow> 'h world \<Rightarrow> 'h world \<Rightarrow> (size_t \<times> size_t, size_t) loop \<Rightarrow> 'h world \<Rightarrow> bool" where
  "slow_outcome r ps bs n w s res s' \<equiv>
     (case res of Again l' \<Rightarrow> slow_inv r ps bs n w l' s' \<and> rx_left ps s' < rx_left ps s
      | Done c \<Rightarrow> consumed_post r ps bs n w c s')"

lemma slow_invI:
  "ps = ps1 @ ps2 \<Longrightarrow> rx_moved r ps1 w s \<Longrightarrow> rx_rep r ps2 (drop (unat con) bs) s \<Longrightarrow>
   unat rem + unat con = unat n \<Longrightarrow> unat con \<le> length bs \<Longrightarrow> slow_inv r ps bs n w (rem, con) s"
  by (auto simp: slow_inv_def)

lemma slow_round_whole:
  assumes P: "pbuf_contract P" and ps: "ps = ps1 @ p # qs" and mv: "rx_moved r ps1 w s"
    and rp: "rx_rep r (p # qs) (drop (unat con) bs) s" and sum: "unat rem + unat con = unat n"
    and le: "unat con \<le> length bs" and pos: "0 < rem"
    and x: "rx_bufs s r = Some x" and b: "pbufs (net s) p = Some b"
    and ge: "\<not> rem < ucast (p_len b) - rx_offset x"
  shows "\<exists>res s'. IoRxBuffer_slowStep P r (rem, con) s = Inr (res, s') \<and>
    slow_outcome r ps bs n w s res s'"
proof -
  define av where "av = (ucast (p_len b) :: size_t) - rx_offset x"
  from IoRxBuffer_slowStep_whole [OF P rp pos x b ge, of con] obtain s' where
    s': "IoRxBuffer_slowStep P r (rem, con) s = Inr (Again (rem - av, con + av), s')"
      "rx_moved r [p] s s'" "rx_rep r qs (drop (unat av) (drop (unat con) bs)) s'"
    and av: "unat av \<le> unat rem" "unat av \<le> length (drop (unat con) bs)"
    unfolding av_def by blast
  have "unat (con + av) = unat con + unat av"
    using sum av(1) unat_lt2p [of n] by (intro unat_add_no_wrap) simp
  moreover have "unat (rem - av) = unat rem - unat av"
    using av(1) by (intro unat_sub_le) (simp add: word_le_nat_alt)
  moreover have "rx_moved r (ps1 @ [p]) w s'" using rx_moved_trans [OF mv s'(2)] .
  ultimately have "slow_inv r ps bs n w (rem - av, con + av) s'"
    using ps s'(3) av sum le
    by (auto simp: add.commute intro!: slow_invI [where ?ps1.0 = "ps1 @ [p]" and ?ps2.0 = qs])
  with s'(1) rx_left_moved [OF s'(2) _ b] ps show ?thesis by auto
qed

lemma slow_round_partial:
  assumes ps: "ps = ps1 @ p # qs" and mv: "rx_moved r ps1 w s"
    and rp: "rx_rep r (p # qs) (drop (unat con) bs) s" and sum: "unat rem + unat con = unat n"
    and pos: "0 < rem" and x: "rx_bufs s r = Some x" and b: "pbufs (net s) p = Some b"
    and lt: "rem < ucast (p_len b) - rx_offset x"
  shows "\<exists>res s'. IoRxBuffer_slowStep P r (rem, con) s = Inr (res, s') \<and>
    slow_outcome r ps bs n w s res s'"
proof -
  from IoRxBuffer_slowStep_partial [OF rp pos x b lt, of P con] obtain s' where
    s': "IoRxBuffer_slowStep P r (rem, con) s = Inr (Done (con + rem), s')" "rx_moved r [] s s'"
      "rx_rep r (p # qs) (drop (unat rem) (drop (unat con) bs)) s'"
      "unat rem < length (drop (unat con) bs)"
    by blast
  have "unat (con + rem) = unat con + unat rem"
    using sum unat_lt2p [of n] by (intro unat_add_no_wrap) simp
  moreover have "rx_moved r ps1 w s'" using rx_moved_trans [OF mv s'(2)] by simp
  moreover have "rx_rep r (p # qs) (drop (unat n) bs) s'" using s'(3) sum by simp
  ultimately have "consumed_post r ps bs n w (con + rem) s'"
    using ps sum s'(4) unfolding consumed_post_def by auto
  with s'(1) show ?thesis by auto
qed

lemma slow_round:
  assumes P: "pbuf_contract P" and inv: "slow_inv r ps bs n w (rem, con) s"
  shows "\<exists>res s'. IoRxBuffer_slowStep P r (rem, con) s = Inr (res, s') \<and>
    slow_outcome r ps bs n w s res s'"
proof -
  from inv obtain ps1 ps2 where ps: "ps = ps1 @ ps2" and mv: "rx_moved r ps1 w s"
    and rp: "rx_rep r ps2 (drop (unat con) bs) s"
    and sum: "unat rem + unat con = unat n" and le: "unat con \<le> length bs"
    by (auto simp: slow_inv_def)
  show ?thesis
  proof (cases ps2)
    case Nil
    with rp have "IoRxBuffer_slowStep P r (rem, con) s = Inr (Done con, s)"
      and "drop (unat con) bs = []"
      by (auto simp: IoRxBuffer_slowStep_def prog_simps rx_rep_def rx_owns_def unread_def
          split: option.splits)
    with Nil ps mv rp sum le show ?thesis by (auto simp: consumed_post_def)
  next
    case (Cons p qs)
    with rp obtain x b where xb: "rx_bufs s r = Some x" "pbufs (net s) p = Some b" "rx_head x = Some p"
      by (auto elim: rx_rep_first)
    show ?thesis
    proof (cases "rem = 0")
      case True
      with xb have "IoRxBuffer_slowStep P r (rem, con) s = Inr (Done con, s)"
        by (simp add: IoRxBuffer_slowStep_def prog_simps)
      with True ps mv rp sum le show ?thesis by (auto simp: consumed_post_def)
    next
      case False
      then have "0 < rem" by (simp add: word_neq_0_conv)
      with ps Cons show ?thesis
        using slow_round_whole [OF P _ mv rp [unfolded Cons] sum le _ xb(1,2)]
          slow_round_partial [OF _ mv rp [unfolded Cons] sum _ xb(1,2)]
        by (cases "rem < ucast (p_len b) - rx_offset x") blast+
    qed
  qed
qed

text \<open>
  \<open>_slowPath\<close> returns: every round that goes on frees a pbuf, so the loop ends, having consumed the request or the whole chain.
\<close>

lemma IoRxBuffer_slowPath_run:
  assumes P: "pbuf_contract P" and rep: "rx_rep r ps bs w"
  shows "\<exists>c w'. IoRxBuffer_slowPath P r n w = Inr (c, w') \<and> consumed_post r ps bs n w c w'"
  unfolding IoRxBuffer_slowPath_def
proof (rule run_loop_total [where I = "slow_inv r ps bs n w" and m = "\<lambda>l s. rx_left ps s"])
  show "slow_inv r ps bs n w (n, 0) w"
    using rep rx_moved_refl [OF rep] by (intro slow_invI [where ?ps1.0 = "[]" and ?ps2.0 = ps]) auto
next
  fix l s
  assume "slow_inv r ps bs n w l s"
  then show "\<exists>x s'. IoRxBuffer_slowStep P r l s = Inr (x, s') \<and>
      (case x of Again l' \<Rightarrow> slow_inv r ps bs n w l' s' \<and> rx_left ps s' < rx_left ps s
       | Done c \<Rightarrow> consumed_post r ps bs n w c s')"
    using slow_round [OF P, of r ps bs n w "fst l" "snd l" s] by simp
qed

section \<open>Acknowledgement\<close>

text \<open>
  \<open>_toAck\<close> calls \<open>tcp_recved\<close> on the buffer's PCB, with nonzero amounts of at most 65535 that
  add up to the number of bytes consumed.
\<close>

definition acked_post :: "addr \<Rightarrow> addr \<Rightarrow> nat \<Rightarrow> 'h world \<Rightarrow> 'h world \<Rightarrow> bool" where
  "acked_post r p k w s \<longleftrightarrow> (\<exists>N ks. s = w\<lparr>net := N, calls := calls w @ map (Tcp_recved p) ks\<rparr> \<and>
     sum_list (map unat ks) = k \<and> 0 \<notin> set ks \<and> net_frame (net w) N)"

lemma toAck_round:
  assumes R: "recved_contract P" and x: "rx_bufs w r = Some x" "rx_pcb x = Some p"
    and live: "pcbs (net w) p \<noteq> None"
    and inv: "acked_post r p k w s" and l: "l \<noteq> 0"
  shows "\<exists>s' c. IoRxBuffer_toAckStep P r l s = Inr (Again (l - c), s') \<and>
    acked_post r p (k + unat c) w s' \<and> 0 < unat c \<and> unat c \<le> unat l"
proof -
  from inv obtain N ks where s: "s = w\<lparr>net := N, calls := calls w @ map (Tcp_recved p) ks\<rparr>"
    and ks: "sum_list (map unat ks) = k" "0 \<notin> set ks" and fr: "net_frame (net w) N"
    by (auto simp: acked_post_def)
  define c where "c = (ucast (min l 0xFFFF) :: u16)"
  have c: "unat c = min (unat l) 65535"
    unfolding c_def by (subst unat_ucast_small) simp_all
  have pos: "0 < unat l" using l by (simp add: unat_gt_0)
  then have "c \<noteq> 0" using c by (metis min_def not_less0 unat_0 zero_neq_numeral)
  have livN: "pcbs N p \<noteq> None" using live net_frame_live [OF fr] by simp
  then obtain pc where pc: "pcbs N p = Some pc" by blast
  let ?N = "tcp_recved P p c N"
  have "net_frame (net w) ?N" using fr R livN net_frame_trans by (fastforce simp: recved_contract_def)
  then have "acked_post r p (k + unat c) w (s\<lparr>net := ?N, calls := calls s @ [Tcp_recved p c]\<rparr>)"
    unfolding acked_post_def s using ks \<open>c \<noteq> 0\<close>
    by (intro exI [of _ ?N] exI [of _ "ks @ [c]"]) auto
  moreover have "IoRxBuffer_toAckStep P r l s = Inr (Again (l - ucast c),
      s\<lparr>net := ?N, calls := calls s @ [Tcp_recved p c]\<rparr>)"
    using s x pc l by (simp add: IoRxBuffer_toAckStep_def prog_simps Let_def c_def)
  ultimately show ?thesis using c pos
    by (intro exI [of _ "s\<lparr>net := ?N, calls := calls s @ [Tcp_recved p c]\<rparr>"] exI [of _ "ucast c"]) auto
qed

lemma IoRxBuffer_toAck_run:
  assumes R: "recved_contract P" and x: "rx_bufs w r = Some x" "rx_pcb x = Some p"
    and live: "pcbs (net w) p \<noteq> None"
  shows "\<exists>w'. IoRxBuffer_toAck P r n w = Inr ((), w') \<and> acked_post r p (unat n) w w'"
proof -
  have "\<exists>u w'. run_loop Diverges (IoRxBuffer_toAckStep P r) n w = Inr (u, w') \<and>
      acked_post r p (unat n) w w'"
  proof (rule run_loop_total [where I = "\<lambda>l s. unat l \<le> unat n \<and> acked_post r p (unat n - unat l) w s"
        and m = "\<lambda>l s. unat l"])
    have "acked_post r p 0 w w"
      unfolding acked_post_def by (intro exI [of _ "net w"] exI [of _ "[]"]) simp
    then show "unat n \<le> unat n \<and> acked_post r p (unat n - unat n) w w" by simp
  next
    fix l :: size_t and s
    assume I: "unat l \<le> unat n \<and> acked_post r p (unat n - unat l) w s"
    show "\<exists>u s'. IoRxBuffer_toAckStep P r l s = Inr (u, s') \<and>
      (case u of Again l' \<Rightarrow> (unat l' \<le> unat n \<and> acked_post r p (unat n - unat l') w s') \<and> unat l' < unat l
       | Done _ \<Rightarrow> acked_post r p (unat n) w s')"
    proof (cases "l = 0")
      case True
      with I show ?thesis by (simp add: IoRxBuffer_toAckStep_def)
    next
      case False
      with toAck_round [OF R x live conjunct2 [OF I]] obtain s' c where
        "IoRxBuffer_toAckStep P r l s = Inr (Again (l - c), s')"
        "acked_post r p (unat n - unat l + unat c) w s'" "0 < unat c" "unat c \<le> unat l"
        by blast
      moreover from this have "unat (l - c) = unat l - unat c"
        by (intro unat_sub_le) (simp add: word_le_nat_alt)
      ultimately show ?thesis using I by (auto simp: diff_diff_right)
    qed
  qed
  then show ?thesis by (simp add: IoRxBuffer_toAck_def)
qed

section \<open>The operations as a byte queue\<close>

text \<open>The buffer's PCB, and that it is live if there is one.\<close>

definition rx_pcb_of :: "addr \<Rightarrow> 'h world \<Rightarrow> addr option" where
  "rx_pcb_of r w = Option.bind (rx_bufs w r) rx_pcb"

definition rx_pcb_live :: "addr \<Rightarrow> 'h world \<Rightarrow> bool" where
  "rx_pcb_live r w = (case rx_pcb_of r w of None \<Rightarrow> True | Some p \<Rightarrow> pcbs (net w) p \<noteq> None)"

lemma rx_pcb_of_Some [simp]: "rx_bufs w r = Some x \<Longrightarrow> rx_pcb_of r w = rx_pcb x"
  by (simp add: rx_pcb_of_def)

lemma rx_frame_live:
  assumes "rx_frame r w w'"
  shows "rx_pcb_of r w' = rx_pcb_of r w" "rx_pcb_live r w' = rx_pcb_live r w"
  using assms by (auto simp: rx_frame_def rx_pcb_of_def rx_pcb_live_def split: option.splits)

lemma acked_post_keeps:
  assumes "acked_post r p k w w'"
  shows "rx_rep r ps bs w' = rx_rep r ps bs w" "rx_pcb_live r w' = rx_pcb_live r w"
    "pbufs (net w') = pbufs (net w)" "rx_pcb_of r w' = rx_pcb_of r w"
    "acked (calls w') q = acked (calls w) q + (if p = q then k else 0)"
proof -
  from assms obtain N ks where w': "w' = w\<lparr>net := N, calls := calls w @ map (Tcp_recved p) ks\<rparr>"
    and ks: "sum_list (map unat ks) = k" and fr: "net_frame (net w) N"
    by (auto simp: acked_post_def)
  have pb: "pbufs N = pbufs (net w)" using fr by (simp add: net_frame_def)
  show "acked (calls w') q = acked (calls w) q + (if p = q then k else 0)" using w' ks by simp
  show "rx_rep r ps bs w' = rx_rep r ps bs w"
    by (rule rx_rep_cong) (simp_all add: pb w')
  show pcb: "rx_pcb_of r w' = rx_pcb_of r w" and "pbufs (net w') = pbufs (net w)"
    using w' pb by (simp_all add: rx_pcb_of_def)
  show "rx_pcb_live r w' = rx_pcb_live r w"
    using w' pcb net_frame_live [OF fr] by (simp add: rx_pcb_live_def split: option.splits)
qed

text \<open>
  What an operation that also acknowledges leaves alone: as \<open>rx_frame\<close>, with the PCBs kept up to what
  \<open>tcp_recved\<close> changes in them.
\<close>

definition rx_touched :: "addr \<Rightarrow> 'h world \<Rightarrow> 'h world \<Rightarrow> bool" where
  "rx_touched r w w' \<longleftrightarrow> (\<exists>N x h off cs. rx_bufs w r = Some x \<and>
     w' = w\<lparr>net := N, rx_bufs := (rx_bufs w)(r \<mapsto> x\<lparr>rx_head := h, rx_offset := off\<rparr>), calls := calls w @ cs\<rparr> \<and>
     (\<forall>q. map_option pcb_regs (pcbs N q) = map_option pcb_regs (pcbs (net w) q)))"

lemma rx_frame_touched: "rx_frame r w w' \<Longrightarrow> rx_touched r w w'"
  unfolding rx_frame_def rx_touched_def by metis

lemma acked_post_touched:
  assumes "rx_frame r w w1" "acked_post r p k w1 w'"
  shows "rx_touched r w w'"
proof -
  from assms(1) obtain N x h off cs where 1: "rx_bufs w r = Some x" "pcbs N = pcbs (net w)"
    "w1 = w\<lparr>net := N, rx_bufs := (rx_bufs w)(r \<mapsto> x\<lparr>rx_head := h, rx_offset := off\<rparr>), calls := calls w @ cs\<rparr>"
    by (auto simp: rx_frame_def)
  from assms(2) obtain M ks where 2: "w' = w1\<lparr>net := M, calls := calls w1 @ map (Tcp_recved p) ks\<rparr>" "net_frame (net w1) M"
    by (auto simp: acked_post_def)
  from 1 2 show ?thesis
    unfolding rx_touched_def
    by (intro exI [of _ M] exI [of _ x] exI [of _ h] exI [of _ off] exI [of _ "cs @ map (Tcp_recved p) ks"])
      (simp add: net_frame_def)
qed

text \<open>The part of \<open>peekConsume\<close> after its guard: whichever path runs, the outcome is the same.\<close>

lemma IoRxBuffer_paths_run:
  assumes P: "pbuf_contract P" and rep: "rx_rep r (p # ps) bs w"
    and x: "rx_bufs w r = Some x" and b: "pbufs (net w) p = Some b"
  shows "\<exists>c w'. (if n \<le> ucast (p_len b) - rx_offset x then IoRxBuffer_fastPath P r n
      else IoRxBuffer_slowPath P r n) w = Inr (c, w') \<and> consumed_post r (p # ps) bs n w c w'"
proof (cases "n \<le> ucast (p_len b) - rx_offset x")
  case True
  from IoRxBuffer_fastPath_run [OF P rep x b True] True show ?thesis
    by (fastforce simp: consumed_post_def)
next
  case False
  with IoRxBuffer_slowPath_run [OF P rep] show ?thesis by simp
qed

text \<open>After the bytes have been consumed they are acknowledged, if the buffer has a PCB.\<close>

lemma consumed_then_acked:
  assumes R: "recved_contract P" and live: "rx_pcb_live r w" and mv: "rx_moved r ps1 w w1" and rep: "rx_rep r ps2 bs w1"
    and y: "rx_bufs w1 r = Some y"
  shows "\<exists>w'. when_p (rx_pcb y \<noteq> None \<and> 0 < c) (IoRxBuffer_toAck P r c) w1 = Inr ((), w') \<and>
    rx_rep r ps2 bs w' \<and> pbufs (net w') = pbufs (net w) |` (- set ps1) \<and>
    rx_pcb_live r w' \<and> rx_pcb_of r w' = rx_pcb_of r w \<and> rx_touched r w w' \<and>
    (\<forall>q. acked (calls w') q = acked (calls w) q + (if rx_pcb_of r w = Some q then unat c else 0))"
proof -
  have fr: "rx_frame r w w1" and pb: "pbufs (net w1) = pbufs (net w) |` (- set ps1)"
    and rec: "acked (calls w1) = acked (calls w)"
    using mv by (auto simp: rx_moved_def)
  have pcb: "rx_pcb_of r w = rx_pcb y" using rx_frame_live(1) [OF fr] y by simp
  show ?thesis
  proof (cases "rx_pcb y \<noteq> None \<and> 0 < c")
    case True
    then obtain q where q: "rx_pcb y = Some q" by auto
    have "rx_pcb_live r w1" using live rx_frame_live [OF fr] by simp
    then have "pcbs (net w1) q \<noteq> None" using y q by (simp add: rx_pcb_live_def)
    with IoRxBuffer_toAck_run [OF R y q] obtain w' where
      w': "IoRxBuffer_toAck P r c w1 = Inr ((), w')" "acked_post r q (unat c) w1 w'" by blast
    with True show ?thesis
      using acked_post_keeps [OF w'(2)] acked_post_touched [OF fr w'(2)] rep pb rec live rx_frame_live [OF fr] pcb q
      by auto
  next
    case False
    then show ?thesis
      using rep pb rec live rx_frame_live [OF fr] rx_frame_touched [OF fr] pcb by (auto simp: word_gt_0)
  qed
qed

lemma IoRxBuffer_peekConsume_run:
  assumes P: "pbuf_contract P" and R: "recved_contract P"
    and rep: "rx_rep r ps bs w" and live: "rx_pcb_live r w"
  shows "\<exists>w' ps1 ps2. IoRxBuffer_peekConsume P r n w = Inr ((), w') \<and> ps = ps1 @ ps2 \<and>
    rx_rep r ps2 (drop (unat n) bs) w' \<and> pbufs (net w') = pbufs (net w) |` (- set ps1) \<and>
    rx_pcb_live r w' \<and> rx_pcb_of r w' = rx_pcb_of r w \<and> rx_touched r w w' \<and>
    (\<forall>q. acked (calls w') q = acked (calls w) q + (if rx_pcb_of r w = Some q then min (unat n) (length bs) else 0))"
    (is "\<exists>w' ps1 ps2. ?G w' ps1 ps2")
proof (cases "n = 0 \<or> ps = []")
  case True
  from rep obtain x where x: "rx_owns r x ps w" and bs: "bs = unread (rx_offset x) ps (pbufs (net w))"
    by (rule rx_repE)
  have "IoRxBuffer_peekConsume P r n w = Inr ((), w)"
    using True x rx_owns_head [OF x]
    by (auto simp: IoRxBuffer_peekConsume_def prog_simps rx_owns_def)
  moreover have "drop (unat n) bs = bs" "min (unat n) (length bs) = 0"
    using True bs by (auto simp: unread_def)
  moreover have "rx_touched r w w" using x by (auto simp: rx_owns_def intro: rx_frame_touched rx_frame_refl)
  ultimately have "?G w [] ps" using rep live by simp
  then show ?thesis by blast
next
  case False
  then obtain p qs where ps: "ps = p # qs" by (cases ps) auto
  with rep obtain x b where x: "rx_bufs w r = Some x" "rx_head x = Some p" and b: "pbufs (net w) p = Some b"
    by (auto elim: rx_rep_first)
  from IoRxBuffer_paths_run [OF P rep [unfolded ps] x(1) b, of n] obtain c w1 where
    run: "(if n \<le> ucast (p_len b) - rx_offset x then IoRxBuffer_fastPath P r n
      else IoRxBuffer_slowPath P r n) w = Inr (c, w1)" and post: "consumed_post r ps bs n w c w1"
    unfolding ps by blast
  from post obtain ps1 ps2 where ps12: "ps = ps1 @ ps2" and mv: "rx_moved r ps1 w w1"
    and rep1: "rx_rep r ps2 (drop (unat n) bs) w1" and c: "unat c = min (unat n) (length bs)"
    by (auto simp: consumed_post_def)
  from mv x obtain y where y: "rx_bufs w1 r = Some y" by (auto simp: rx_moved_def rx_frame_def)
  have "IoRxBuffer_peekConsume P r n w = when_p (rx_pcb y \<noteq> None \<and> 0 < c) (IoRxBuffer_toAck P r c) w1"
    using False x b run y ps by (simp add: IoRxBuffer_peekConsume_def prog_simps Let_def)
  with consumed_then_acked [OF R live mv rep1 y, of c] ps12 c show ?thesis by fastforce
qed

section \<open>Inspection and reset\<close>

text \<open>A buffer whose first pbuf is empty; a chain that has no empty pbuf.\<close>

definition rx_stalled :: "addr \<Rightarrow> 'h world \<Rightarrow> bool" where
  "rx_stalled r w = (case rx_bufs w r of None \<Rightarrow> False | Some x \<Rightarrow>
     (case rx_head x of None \<Rightarrow> False | Some p \<Rightarrow> payload_at (pbufs (net w)) p = []))"

definition filled :: "addr list \<Rightarrow> (addr \<rightharpoonup> pbuf) \<Rightarrow> bool" where
  "filled ps h \<longleftrightarrow> (\<forall>p \<in> set ps. payload_at h p \<noteq> [])"

lemma filled_append [simp]: "filled (ps @ qs) h \<longleftrightarrow> filled ps h \<and> filled qs h"
  by (auto simp: filled_def)

lemma filled_not_stalled: "rx_rep r ps bs w \<Longrightarrow> filled ps (pbufs (net w)) \<Longrightarrow> \<not> rx_stalled r w"
  by (cases ps) (auto simp: rx_stalled_def filled_def rx_rep_def rx_owns_def split: option.splits)

lemma filled_rest:
  assumes "filled (ps1 @ ps2) h" "distinct (ps1 @ ps2)"
  shows "filled ps2 (h |` (- set ps1))"
proof -
  have "payload_at (h |` (- set ps1)) p = payload_at h p" if "p \<in> set ps2" for p
    using assms(2) that by (auto simp: payload_at_def restrict_map_def)
  with assms(1) show ?thesis by (simp add: filled_def)
qed

text \<open>What \<open>peekAvailable\<close> and \<open>peek\<close> see: the rest of the first pbuf, which comes first in the unread bytes.\<close>

lemma unread_first:
  "unat off \<le> length (payload_at h p) \<Longrightarrow>
   unread off (p # ps) h = drop (unat off) (payload_at h p) @ concat (map (payload_at h) ps)"
  by (simp add: unread_def)

lemma rx_rep_cursor:
  assumes "rx_rep r (p # ps) bs w" "rx_bufs w r = Some x"
  shows "rx_stalled r w \<longleftrightarrow> payload_at (pbufs (net w)) p = []"
    "rx_stalled r w \<or> unat (rx_offset x) < length (payload_at (pbufs (net w)) p)"
  using assms by (auto simp: rx_stalled_def rx_rep_def rx_owns_def cursor_ok_def)

lemma rx_rep_empty:
  assumes "rx_rep r [] bs w"
  shows "bs = []" "\<not> rx_stalled r w" "IoRxBuffer_peekAvailable r w = Inr (0, w)" "IoRxBuffer_peek r w = Inr (0, w)"
    "IoRxBuffer_peekBuffer r w = Inr (None, w)"
  using assms by (auto simp: IoRxBuffer_peekAvailable_def IoRxBuffer_peek_def IoRxBuffer_peekBuffer_def prog_simps
      rx_rep_def rx_owns_def unread_def rx_stalled_def split: option.splits)

lemma IoRxBuffer_peekAvailable_run:
  assumes rep: "rx_rep r ps bs w"
  shows "\<exists>k. IoRxBuffer_peekAvailable r w = Inr (k, w) \<and> unat k \<le> length bs \<and> (k = 0 \<longleftrightarrow> bs = [] \<or> rx_stalled r w)"
proof (cases ps)
  case Nil
  with rx_rep_empty [of r bs w] rep show ?thesis by simp
next
  case (Cons p qs)
  let ?h = "pbufs (net w)"
  from rep [unfolded Cons] obtain x b where bs: "bs = unread (rx_offset x) (p # qs) ?h"
    and x: "rx_bufs w r = Some x" "rx_head x = Some p" "?h p = Some b"
    and off: "unat (rx_offset x) \<le> length (payload_at ?h p)"
    and av: "unat ((ucast (p_len b) :: size_t) - rx_offset x) = length (payload_at ?h p) - unat (rx_offset x)"
    by (rule rx_rep_first)
  have "IoRxBuffer_peekAvailable r w = Inr (ucast (p_len b) - rx_offset x, w)"
    using x by (simp add: IoRxBuffer_peekAvailable_def prog_simps)
  moreover have "(ucast (p_len b) :: size_t) - rx_offset x = 0 \<longleftrightarrow> unat ((ucast (p_len b) :: size_t) - rx_offset x) = 0"
    by (simp only: unat_eq_0)
  then have "(ucast (p_len b) :: size_t) - rx_offset x = 0 \<longleftrightarrow> rx_stalled r w" "\<not> rx_stalled r w \<Longrightarrow> bs \<noteq> []"
    using rx_rep_cursor [OF rep [unfolded Cons] x(1)] av bs unread_first [OF off, of qs] by auto
  ultimately show ?thesis using av bs unread_first [OF off, of qs] by auto
qed

lemma IoRxBuffer_peek_run:
  assumes rep: "rx_rep r ps bs w"
  shows "IoRxBuffer_peek r w = (if rx_stalled r w then Inl Out_of_bounds else Inr (if bs = [] then 0 else hd bs, w))"
proof (cases ps)
  case Nil
  with rx_rep_empty [of r bs w] rep show ?thesis by simp
next
  case (Cons p qs)
  let ?h = "pbufs (net w)"
  from rep [unfolded Cons] obtain x b where bs: "bs = unread (rx_offset x) (p # qs) ?h"
    and x: "rx_bufs w r = Some x" "rx_head x = Some p" "?h p = Some b" by (rule rx_rep_first)
  have pay: "payload_at ?h p = p_payload b" using x by (simp add: payload_at_def)
  note cur = rx_rep_cursor [OF rep [unfolded Cons] x(1), unfolded pay]
  show ?thesis
  proof (cases "rx_stalled r w")
    case True
    with x cur(1) show ?thesis by (simp add: IoRxBuffer_peek_def prog_simps)
  next
    case False
    with cur(2) have off: "unat (rx_offset x) < length (payload_at ?h p)" by (simp add: pay)
    then have "hd bs = p_payload b ! unat (rx_offset x)" "bs \<noteq> []"
      using bs unread_first [OF less_imp_le [OF off], of qs] pay by (auto simp: hd_append hd_drop_conv_nth)
    with x off pay False show ?thesis by (simp add: IoRxBuffer_peek_def prog_simps)
  qed
qed

text \<open>What \<open>reset\<close> leaves of the object, and its call.\<close>

definition rx_reset_obj :: "IoRxBuffer \<Rightarrow> IoRxBuffer" where
  "rx_reset_obj x = (if rx_head x = None then x else x\<lparr>rx_head := None, rx_offset := 0, rx_pcb := None\<rparr>)"

definition rx_reset_calls :: "IoRxBuffer \<Rightarrow> ext_call list" where
  "rx_reset_calls x = (case rx_head x of None \<Rightarrow> [] | Some h \<Rightarrow> [Pbuf_free h])"

lemma rx_reset_obj_simps [simp]:
  "rx_head (rx_reset_obj x) = None" "rx_receivedCb (rx_reset_obj x) = rx_receivedCb x"
  "rx_finCb (rx_reset_obj x) = rx_finCb x"
  by (simp_all add: rx_reset_obj_def)

lemma IoRxBuffer_reset_exact:
  assumes P: "pbuf_contract P" and rep: "rx_rep r ps bs w" and x: "rx_bufs w r = Some x"
  shows "\<exists>N. IoRxBuffer_reset P r w = Inr ((), w\<lparr>net := N, rx_bufs := (rx_bufs w)(r \<mapsto> rx_reset_obj x),
      calls := calls w @ rx_reset_calls x\<rparr>) \<and>
    pbufs N = pbufs (net w) |` (- set ps) \<and> pcbs N = pcbs (net w)"
proof (cases ps)
  case Nil
  with rep x have "rx_head x = None" by (auto simp: rx_rep_def rx_owns_def split: option.splits)
  with x Nil show ?thesis
    by (intro exI [of _ "net w"])
      (simp add: IoRxBuffer_reset_def prog_simps rx_reset_obj_def rx_reset_calls_def fun_upd_idem)
next
  case (Cons p qs)
  let ?h = "pbufs (net w)" and ?N = "pbuf_free P p (net w)"
  from rep [unfolded Cons] x obtain b where own: "rx_owns r x (p # qs) w"
    and hd: "rx_head x = Some p" "?h p = Some b"
    by (auto elim!: rx_rep_first)
  have "pbuf_freed ?h p (\<lambda>q. if q \<in> set ps then None else ?h q)"
    using own hd Cons by (intro pbuf_freed_chain) (auto simp: rx_owns_def pbuf_good_def split: option.splits)
  moreover have "(\<lambda>q. if q \<in> set ps then None else ?h q) = ?h |` (- set ps)"
    by (auto simp: restrict_map_def)
  ultimately have "pbuf_freed ?h p (?h |` (- set ps))" by (simp only:)
  with pbuf_contractD(1,2) [OF P] have "pbufs ?N = ?h |` (- set ps)" "pcbs ?N = pcbs (net w)"
    by blast+
  with x hd show ?thesis
    by (intro exI [of _ ?N])
      (simp add: IoRxBuffer_reset_def prog_simps rx_reset_obj_def rx_reset_calls_def)
qed

lemma rx_rep_reset_obj:
  assumes "rx_rep r ps bs w" "rx_bufs w r = Some x" "rx_bufs w' r = Some (rx_reset_obj x)"
  shows "rx_rep r [] [] w'"
proof -
  have "rx_offset (rx_reset_obj x) = 0"
    using assms by (cases ps) (auto simp: rx_rep_def rx_owns_def cursor_ok_def rx_reset_obj_def)
  with assms(3) show ?thesis by (simp add: rx_rep_def rx_owns_def cursor_ok_def unread_def)
qed

text \<open>
  \<open>reset\<close> hands the whole chain back: afterwards the buffer is empty and none of its pbufs is
  allocated, while all others are untouched.
\<close>

lemma IoRxBuffer_reset_run:
  assumes P: "pbuf_contract P" and rep: "rx_rep r ps bs w" and live: "rx_pcb_live r w"
  shows "\<exists>w'. IoRxBuffer_reset P r w = Inr ((), w') \<and> rx_rep r [] [] w' \<and>
    pbufs (net w') = pbufs (net w) |` (- set ps) \<and> rx_pcb_live r w' \<and> pcbs (net w') = pcbs (net w)"
proof -
  from rep obtain x where x: "rx_bufs w r = Some x" by (auto simp: rx_rep_def split: option.splits)
  from IoRxBuffer_reset_exact [OF P rep x] obtain N where
    run: "IoRxBuffer_reset P r w = Inr ((), w\<lparr>net := N, rx_bufs := (rx_bufs w)(r \<mapsto> rx_reset_obj x),
      calls := calls w @ rx_reset_calls x\<rparr>)" (is "_ = Inr ((), ?w')")
    and N: "pbufs N = pbufs (net w) |` (- set ps)" "pcbs N = pcbs (net w)" by blast
  have "rx_rep r [] [] ?w'" by (rule rx_rep_reset_obj [OF rep x]) simp
  moreover have "rx_pcb_live r ?w'"
    using live x N by (auto simp: rx_pcb_live_def rx_pcb_of_def rx_reset_obj_def split: option.splits)
  ultimately show ?thesis using run N by auto
qed

text \<open>The representation of a byte queue, with what the operations rely on.\<close>

definition rx_queue :: "'h platform \<Rightarrow> addr \<Rightarrow> u8 list \<Rightarrow> 'h world \<Rightarrow> bool" where
  "rx_queue P r bs w \<longleftrightarrow> pbuf_contract P \<and> recved_contract P \<and> rx_pcb_live r w \<and>
     (\<exists>ps. rx_rep r ps bs w \<and> filled ps (pbufs (net w)))"

lemma rx_queueE:
  assumes "rx_queue P r bs w"
  obtains ps where "pbuf_contract P" "recved_contract P" "rx_rep r ps bs w" "rx_pcb_live r w" "filled ps (pbufs (net w))"
    "\<not> rx_stalled r w"
  using assms filled_not_stalled unfolding rx_queue_def by blast

interpretation rxq: byte_queue "rx_queue P r" "IoRxBuffer_peek r" "IoRxBuffer_peekAvailable r"
  "IoRxBuffer_peekConsume P r" "IoRxBuffer_reset P r" for P r
proof (unfold_locales, goal_cases)
  case (1 bs s)
  then show ?case by (auto elim!: rx_queueE simp: IoRxBuffer_peek_run)
next
  case (2 bs s)
  then show ?case by (auto elim!: rx_queueE dest!: IoRxBuffer_peekAvailable_run)
next
  case (3 bs s n)
  then obtain ps where C: "pbuf_contract P" "recved_contract P" "rx_rep r ps bs s" "rx_pcb_live r s"
    and f: "filled ps (pbufs (net s))" by (rule rx_queueE)
  from IoRxBuffer_peekConsume_run [OF C, of n] obtain s' ps1 ps2 where
    s': "IoRxBuffer_peekConsume P r n s = Inr ((), s')" "rx_rep r ps2 (drop (unat n) bs) s'" "rx_pcb_live r s'"
    and ps: "ps = ps1 @ ps2" and pb: "pbufs (net s') = pbufs (net s) |` (- set ps1)" by blast
  have "distinct ps" using C(3) by (auto simp: rx_rep_def rx_owns_def split: option.splits)
  then have "filled ps2 (pbufs (net s'))" using f filled_rest unfolding ps pb by blast
  with s' C(1,2) show ?case unfolding rx_queue_def by blast
next
  case (4 bs s)
  then obtain ps where "pbuf_contract P" "recved_contract P" "rx_rep r ps bs s" "rx_pcb_live r s" by (rule rx_queueE)
  moreover from this IoRxBuffer_reset_run [of P r ps bs s] obtain s' where
    "IoRxBuffer_reset P r s = Inr ((), s')" "rx_rep r [] [] s'" "rx_pcb_live r s'" by blast
  moreover have "filled [] (pbufs (net s'))" by (simp add: filled_def)
  ultimately show ?case unfolding rx_queue_def by blast
qed

section \<open>Properties\<close>

text \<open>
  A buffer at address 50 that has read one of the three bytes of pbuf 1, with the two bytes of
  pbuf 2 behind it, on the live PCB 7.
\<close>

definition sample_rx_world :: "size_t world" where
  "sample_rx_world = (sample_world (sample_net
       [1 \<mapsto> \<lparr>p_next = Some 2, p_payload = [10, 20, 30], p_len = 3, p_ref = 1\<rparr>,
        2 \<mapsto> \<lparr>p_next = None, p_payload = [40, 50], p_len = 2, p_ref = 1\<rparr>]
       [7 \<mapsto> blank_pcb] 1000))
     \<lparr>rx_bufs := [50 \<mapsto> \<lparr>rx_pcb = Some 7, rx_head = Some 1, rx_offset = 1,
        rx_receivedCb = None, rx_finCb = None\<rparr>]\<rparr>"

lemma sample_rx_rep: "rx_rep 50 [1, 2] [20, 30, 40, 50] sample_rx_world"
  by (simp add: sample_rx_world_def sample_world_def sample_net_def rx_rep_def rx_owns_def
      pbuf_good_def cursor_ok_def unread_def payload_at_def)

lemma sample_rx_live: "rx_pcb_live 50 sample_rx_world"
  by (simp add: sample_rx_world_def sample_world_def sample_net_def rx_pcb_live_def rx_pcb_of_def)

lemma sample_rx_stalled: "\<not> rx_stalled 50 sample_rx_world"
  by (simp add: rx_stalled_def payload_at_def sample_rx_world_def sample_world_def sample_net_def)

lemma sample_rx_queue: "rx_queue sample 50 [20, 30, 40, 50] sample_rx_world"
proof -
  have "filled [1, 2] (pbufs (net sample_rx_world))"
    by (simp add: filled_def payload_at_def sample_rx_world_def sample_world_def sample_net_def)
  with sample_rx_rep sample_rx_live sample_contracts show ?thesis unfolding rx_queue_def by blast
qed

text \<open>
  C10. \<open>peekConsume(n)\<close> on a buffer that holds the bytes \<open>bs\<close> in the pbufs \<open>ps\<close> returns; the buffer
  then holds \<open>bs\<close> without its first \<open>n\<close> bytes, in a suffix of \<open>ps\<close>; exactly the pbufs before that
  suffix have been freed and no other pbuf has changed; and the amounts passed to \<open>tcp_recved\<close> for
  the buffer's PCB add up to the number of bytes removed, while nothing is passed for another PCB.
\<close>

theorem peekConsume_refines_drop:
  assumes "pbuf_contract P" and "recved_contract P"
    and "rx_rep r ps bs w" and "rx_pcb_live r w"
  shows "\<exists>w' ps1 ps2. IoRxBuffer_peekConsume P r n w = Inr ((), w') \<and> ps = ps1 @ ps2 \<and>
    rx_rep r ps2 (drop (unat n) bs) w' \<and> pbufs (net w') = pbufs (net w) |` (- set ps1) \<and>
    (\<forall>q. acked (calls w') q = acked (calls w) q + (if rx_pcb_of r w = Some q then min (unat n) (length bs) else 0))"
  using IoRxBuffer_peekConsume_run [OF assms, of n] by blast

theorem peekConsume_refines_drop_witness:
  "\<exists>w' ps1 ps2. IoRxBuffer_peekConsume sample 50 3 sample_rx_world = Inr ((), w') \<and>
     [1, 2] = ps1 @ ps2 \<and> rx_rep 50 ps2 [50] w' \<and>
     pbufs (net w') = pbufs (net sample_rx_world) |` (- set ps1) \<and>
     acked (calls w') 7 = 3"
proof -
  have "acked (calls sample_rx_world) 7 +
      (if rx_pcb_of 50 sample_rx_world = Some 7 then min (unat (3 :: size_t)) (length [20, 30, 40, 50 :: u8]) else 0) = 3"
    by (simp add: sample_rx_world_def sample_world_def rx_pcb_of_def)
  moreover have "drop (unat (3 :: size_t)) [20, 30, 40, 50 :: u8] = [50]" by simp
  ultimately show ?thesis
    using peekConsume_refines_drop [OF sample_pbuf_contract sample_recved_contract sample_rx_rep
        sample_rx_live, of 3]
    by metis
qed

text \<open>
  A handler that reads byte by byte while \<open>peekAvailable()\<close> is not zero terminates, gets exactly
  the bytes the buffer held, in order, and leaves it empty.
\<close>

theorem read_all_gets_everything:
  assumes "rx_queue P r bs w"
  shows "\<exists>w'. read_all Diverges (IoRxBuffer_peekAvailable r) (IoRxBuffer_peek r)
      (IoRxBuffer_peekConsume P r) w = Inr (bs, w') \<and> rx_queue P r [] w'"
  by (rule rxq.read_all_returns [OF assms])

theorem read_all_gets_everything_witness:
  "\<exists>w'. read_all Diverges (IoRxBuffer_peekAvailable 50) (IoRxBuffer_peek 50)
      (IoRxBuffer_peekConsume sample 50) sample_rx_world = Inr ([20, 30, 40, 50], w') \<and>
     rx_queue sample 50 [] w'"
  by (rule read_all_gets_everything [OF sample_rx_queue])

text \<open>
  C32. An empty pbuf at the front hides the data behind it: \<open>peekAvailable\<close> reports 0, \<open>peek\<close> reads beyond
  the end of the pbuf, and a handler that reads while bytes are available gets nothing, whatever is unread. Only a
  request to consume at least one byte gets past it, and that discards a byte nobody could look at.
\<close>

theorem empty_pbuf_hides_data:
  assumes "rx_rep r ps bs w" and "rx_stalled r w"
  shows "IoRxBuffer_peekAvailable r w = Inr (0, w) \<and> IoRxBuffer_peek r w = Inl Out_of_bounds \<and>
    read_all Diverges (IoRxBuffer_peekAvailable r) (IoRxBuffer_peek r) (IoRxBuffer_peekConsume P r) w = Inr ([], w)"
proof -
  have av: "IoRxBuffer_peekAvailable r w = Inr (0, w)" using IoRxBuffer_peekAvailable_run [OF assms(1)] assms(2) by auto
  then have "read_all Diverges (IoRxBuffer_peekAvailable r) (IoRxBuffer_peek r) (IoRxBuffer_peekConsume P r) w = Inr ([], w)"
    unfolding read_all_def by (subst run_loop_unfold) (simp add: prog_simps)
  with av IoRxBuffer_peek_run [OF assms(1)] assms(2) show ?thesis by simp
qed

text \<open>A buffer at address 50 whose first pbuf is empty, with two bytes behind it.\<close>

definition sample_stalled_world :: "size_t world" where
  "sample_stalled_world = (sample_world (sample_net
       [1 \<mapsto> \<lparr>p_next = Some 2, p_payload = [], p_len = 0, p_ref = 1\<rparr>,
        2 \<mapsto> \<lparr>p_next = None, p_payload = [40, 50], p_len = 2, p_ref = 1\<rparr>]
       [7 \<mapsto> blank_pcb] 1000))
     \<lparr>rx_bufs := [50 \<mapsto> \<lparr>rx_pcb = Some 7, rx_head = Some 1, rx_offset = 0,
        rx_receivedCb = None, rx_finCb = None\<rparr>]\<rparr>"

theorem empty_pbuf_hides_data_witness:
  "rx_rep 50 [1, 2] [40, 50] sample_stalled_world \<and>
    read_all Diverges (IoRxBuffer_peekAvailable 50) (IoRxBuffer_peek 50) (IoRxBuffer_peekConsume sample 50)
      sample_stalled_world = Inr ([], sample_stalled_world)"
proof -
  have rep: "rx_rep 50 [1, 2] [40, 50] sample_stalled_world"
    by (simp add: sample_stalled_world_def sample_world_def sample_net_def rx_rep_def rx_owns_def
        pbuf_good_def cursor_ok_def unread_def payload_at_def)
  have "rx_stalled 50 sample_stalled_world"
    by (simp add: rx_stalled_def payload_at_def sample_stalled_world_def sample_world_def sample_net_def)
  from empty_pbuf_hides_data [OF rep this, of sample] rep show ?thesis by blast
qed

lemma IoRxBuffer_free_ignores_offset:
  assumes "rx_bufs w r = Some x"
  shows "IoRxBuffer_free P r (w\<lparr>rx_bufs := (rx_bufs w)(r \<mapsto> x\<lparr>rx_offset := k\<rparr>)\<rparr>) = IoRxBuffer_free P r w"
  using assms
  by (cases "rx_head x") (simp_all add: IoRxBuffer_free_def prog_simps split: option.splits)

lemma IoRxBuffer_free_keeps_rx:
  assumes "IoRxBuffer_free P r w = Inr (u, w')"
  shows "\<exists>y. rx_bufs w' r = Some y"
  using assms
  by (auto simp: IoRxBuffer_free_def prog_simps when_some_def deref_def split: option.splits sum.splits prod.splits)

text \<open>
  C24. The fast path is an optimisation only: for a nonzero request that fits in the first pbuf,
  \<open>_fastPath\<close> gives the same result and the same state as \<open>_slowPath\<close>, also when they fault.
\<close>

theorem fastPath_equals_slowPath:
  assumes x: "rx_bufs w r = Some x" and h: "rx_head x = Some p" and b: "pbufs (net w) p = Some b"
    and n: "0 < n" "n \<le> ucast (p_len b) - rx_offset x"
  shows "IoRxBuffer_fastPath P r n w = IoRxBuffer_slowPath P r n w"
proof (cases "n < ucast (p_len b) - rx_offset x")
  case True
  then have "rx_offset x + n \<noteq> ucast (p_len b)" by (metis add_diff_cancel_left' less_irrefl)
  with True x h b n show ?thesis
    unfolding IoRxBuffer_slowPath_def
    by (subst run_loop_unfold)
      (simp add: IoRxBuffer_fastPath_def IoRxBuffer_slowStep_def prog_simps Let_def)
next
  case False
  then have eq: "n = ucast (p_len b) - rx_offset x" using n by simp
  let ?free = "IoRxBuffer_free P r w"
  have fast: "IoRxBuffer_fastPath P r n w = (case ?free of Inl e \<Rightarrow> Inl e | Inr (u, w') \<Rightarrow> Inr (n, w'))"
    using x h b eq IoRxBuffer_free_ignores_offset [OF x]
    by (simp add: IoRxBuffer_fastPath_def prog_simps Let_def split: sum.splits)
  have slow: "IoRxBuffer_slowPath P r n w =
      (case ?free of Inl e \<Rightarrow> Inl e | Inr (u, w') \<Rightarrow> run_loop Diverges (IoRxBuffer_slowStep P r) (0, n) w')"
    unfolding IoRxBuffer_slowPath_def using x h b n eq
    by (subst run_loop_unfold)
      (auto simp: IoRxBuffer_slowStep_def prog_simps Let_def split: sum.splits)
  show ?thesis
  proof (cases ?free)
    case (Inr p)
    then obtain u w' where w': "?free = Inr (u, w')" by (cases p) auto
    with IoRxBuffer_free_keeps_rx obtain y where "rx_bufs w' r = Some y" by blast
    then have "run_loop Diverges (IoRxBuffer_slowStep P r) (0, n) w' = Inr (n, w')"
      by (subst run_loop_unfold) (simp add: IoRxBuffer_slowStep_def prog_simps split: option.splits)
    with fast slow w' show ?thesis by simp
  qed (use fast slow in simp)
qed

theorem fastPath_equals_slowPath_witness:
  "IoRxBuffer_fastPath sample 50 2 sample_rx_world = IoRxBuffer_slowPath sample 50 2 sample_rx_world"
  by (rule fastPath_equals_slowPath [where x = "\<lparr>rx_pcb = Some 7, rx_head = Some 1, rx_offset = 1,
        rx_receivedCb = None, rx_finCb = None\<rparr>" and p = 1
        and b = "\<lparr>p_next = Some 2, p_payload = [10, 20, 30], p_len = 3, p_ref = 1\<rparr>"])
    (simp_all add: sample_rx_world_def sample_world_def sample_net_def)

text \<open>
  C30. The pointer from \<open>peekBuffer()\<close> and the count from \<open>peekAvailable()\<close> agree with the queue: every
  index below the count can be read through the pointer and is the byte at that position of the
  unread bytes. The count is zero only when nothing is left or the first pbuf is empty, and the pointer is
  null only when nothing is left.
\<close>

theorem peekBuffer_reads_front:
  assumes rep: "rx_rep r ps bs w"
  shows "\<exists>k q. IoRxBuffer_peekAvailable r w = Inr (k, w) \<and> IoRxBuffer_peekBuffer r w = Inr (q, w) \<and>
    (q = None \<longrightarrow> bs = []) \<and> (k = 0 \<longleftrightarrow> bs = [] \<or> rx_stalled r w) \<and>
    (\<forall>i < unat k. \<forall>a. q = Some a \<longrightarrow> read_ptr a i w = Inr (bs ! i, w))"
proof (cases ps)
  case Nil
  with rx_rep_empty [of r bs w] rep show ?thesis by simp
next
  case (Cons p qs)
  let ?h = "pbufs (net w)"
  from rep [unfolded Cons] obtain x b where bs: "bs = unread (rx_offset x) (p # qs) ?h"
    and x: "rx_bufs w r = Some x" "rx_head x = Some p" "?h p = Some b"
    and off: "unat (rx_offset x) \<le> length (payload_at ?h p)"
    and av: "unat ((ucast (p_len b) :: size_t) - rx_offset x) = length (payload_at ?h p) - unat (rx_offset x)"
    by (rule rx_rep_first)
  have pay: "payload_at ?h p = p_payload b" using x by (simp add: payload_at_def)
  have run: "IoRxBuffer_peekAvailable r w = Inr (ucast (p_len b) - rx_offset x, w)"
    "IoRxBuffer_peekBuffer r w = Inr (Some (p, rx_offset x), w)"
    using x by (simp_all add: IoRxBuffer_peekAvailable_def IoRxBuffer_peekBuffer_def prog_simps)
  have "read_ptr (p, rx_offset x) i w = Inr (bs ! i, w)"
    if "i < unat ((ucast (p_len b) :: size_t) - rx_offset x)" for i
    using that av x pay bs unread_first [OF off, of qs]
    by (simp add: read_ptr_def prog_simps nth_append)
  with IoRxBuffer_peekAvailable_run [OF rep] run show ?thesis by auto
qed

theorem peekBuffer_reads_front_witness:
  "\<exists>k q. IoRxBuffer_peekAvailable 50 sample_rx_world = Inr (k, sample_rx_world) \<and>
    IoRxBuffer_peekBuffer 50 sample_rx_world = Inr (q, sample_rx_world) \<and> q \<noteq> None \<and> k \<noteq> 0"
  using peekBuffer_reads_front [OF sample_rx_rep] sample_rx_stalled by auto

text \<open>
  \<open>reset()\<close> frees every pbuf the buffer owns, frees or changes no other pbuf, and leaves an
  empty buffer; in particular nothing leaks when a connection is closed with data pending.
\<close>

theorem reset_releases_chain:
  assumes "pbuf_contract P" and "rx_rep r ps bs w" and "rx_pcb_live r w"
  shows "\<exists>w'. IoRxBuffer_reset P r w = Inr ((), w') \<and> rx_rep r [] [] w' \<and>
    pbufs (net w') = pbufs (net w) |` (- set ps) \<and> pcbs (net w') = pcbs (net w)"
  using IoRxBuffer_reset_run [OF assms] by blast

theorem reset_releases_chain_witness:
  "\<exists>w'. IoRxBuffer_reset sample 50 sample_rx_world = Inr ((), w') \<and> rx_rep 50 [] [] w' \<and>
    pbufs (net w') = pbufs (net sample_rx_world) |` (- {1, 2}) \<and>
    pcbs (net w') = pcbs (net sample_rx_world)"
  using reset_releases_chain [OF sample_pbuf_contract sample_rx_rep sample_rx_live] by simp

text \<open>
  C25. \<open>_toAck\<close> never passes more than a \<open>u16_t\<close> holds and never loses a byte to the conversion: it
  terminates, and all it does is a series of \<open>tcp_recved\<close> calls with nonzero amounts whose sum
  is the count it was given, for every count up to the largest \<open>size_t\<close>.
\<close>

theorem toAck_exact:
  assumes "recved_contract P" and "rx_bufs w r = Some x" and "rx_pcb x = Some p"
    and "pcbs (net w) p \<noteq> None"
  shows "\<exists>w' ks. IoRxBuffer_toAck P r n w = Inr ((), w') \<and>
    calls w' = calls w @ map (Tcp_recved p) ks \<and> sum_list (map unat ks) = unat n \<and> 0 \<notin> set ks"
  using IoRxBuffer_toAck_run [OF assms, of n] by (auto simp: acked_post_def)

theorem toAck_exact_witness:
  "\<exists>w' ks. IoRxBuffer_toAck sample 50 200000 sample_rx_world = Inr ((), w') \<and>
    calls w' = map (Tcp_recved 7) ks \<and> sum_list (map unat ks) = 200000 \<and> 0 \<notin> set ks"
proof -
  have "\<exists>w' ks. IoRxBuffer_toAck sample 50 200000 sample_rx_world = Inr ((), w') \<and>
      calls w' = calls sample_rx_world @ map (Tcp_recved 7) ks \<and>
      sum_list (map unat ks) = unat (200000 :: size_t) \<and> 0 \<notin> set ks"
    by (rule toAck_exact [where x = "\<lparr>rx_pcb = Some 7, rx_head = Some 1, rx_offset = 1,
          rx_receivedCb = None, rx_finCb = None\<rparr>"])
      (simp_all add: sample_recved_contract sample_rx_world_def sample_world_def sample_net_def)
  moreover have "calls sample_rx_world = []" by (simp add: sample_rx_world_def sample_world_def)
  ultimately show ?thesis by simp
qed

end
