(* ===== verification/Tcp_Writer.thy ===== *)
theory Tcp_Writer
  imports Sample_Platform
begin

text \<open>
  The sending side of a connection (\<open>src/TcpWriter.cpp\<close>, \<open>include/TcpWriter.hpp\<close>): operations, what
  sending a message means (\<open>send_message\<close>), that \<open>writeData\<close> does it, and when it accepts or rejects a message.
\<close>

section \<open>Operations\<close>

definition TcpWriter_new :: "addr option \<Rightarrow> ('h, addr) cprog" where
  "TcpWriter_new pcb =
     new_tx \<lparr>tx_pcb = pcb, tx_data = None, tx_acked = 0, tx_queued = 0, tx_total_size = 0,
       tx_write_start_time = 0, tx_last_progress_time = 0, tx_mode = Acked, tx_ack_cb = None\<rparr>"

definition TcpWriter_delete :: "addr \<Rightarrow> ('h, unit) cprog" where
  "TcpWriter_delete t = pseq (pbind (get_tx t) (\<lambda>_. ret ())) (modify (\<lambda>w. w\<lparr>writers := (writers w)(t := None)\<rparr>))"

definition TcpWriter_getChunkSize :: "'h platform \<Rightarrow> size_t \<Rightarrow> size_t \<Rightarrow> size_t" where
  "TcpWriter_getChunkSize P remaining send_buffer_free = min (min remaining send_buffer_free) (ucast (TCP_MSS P))"

text \<open>The pointer \<open>m_data.get() + sz\<close>: the block and the offset into it.\<close>

definition TcpWriter_getChunkData :: "addr \<Rightarrow> size_t \<Rightarrow> ('h, u8 list option \<times> size_t) cprog" where
  "TcpWriter_getChunkData t sz = pbind (get_tx t) (\<lambda>x. ret (tx_data x, sz))"

definition TcpWriter_availableForWrite :: "'h platform \<Rightarrow> addr \<Rightarrow> ('h, size_t) cprog" where
  "TcpWriter_availableForWrite P t =
     pbind (get_tx t) (\<lambda>x.
     case tx_pcb x of
       None \<Rightarrow> ret 0
     | Some p \<Rightarrow> on_pcb p (gets (\<lambda>w. tcp_sndbuf P p (net w))))"

definition TcpWriter_getOptimalChunkSize :: "'h platform \<Rightarrow> addr \<Rightarrow> size_t \<Rightarrow> ('h, size_t) cprog" where
  "TcpWriter_getOptimalChunkSize P t data_size =
     pbind (TcpWriter_availableForWrite P t) (\<lambda>free_buffer.
     ret (min (min data_size free_buffer) (ucast (TCP_MSS P))))"

definition TcpWriter_canWriteNow :: "'h platform \<Rightarrow> addr \<Rightarrow> ('h, bool) cprog" where
  "TcpWriter_canWriteNow P t = pbind (TcpWriter_availableForWrite P t) (\<lambda>k. ret (k > 0))"

text \<open>
  One round of the \<open>while\<close> loop of \<open>writeData\<close>; its variable is \<open>total_queued\<close>. Both \<open>break\<close>s come
  after \<open>total_queued = 0\<close>. \<open>tcp_write\<close> takes the length as a \<open>u16_t\<close> and reads that many bytes.
\<close>

definition TcpWriter_writeStep ::
  "'h platform \<Rightarrow> addr \<Rightarrow> u8 list \<Rightarrow> size_t \<Rightarrow> size_t \<Rightarrow> ('h, (size_t, size_t) loop) cprog" where
  "TcpWriter_writeStep P t data sz total_queued =
     (if \<not> total_queued < sz then ret (Done total_queued)
      else
        let remaining = sz - total_queued in
        pbind (TcpWriter_getOptimalChunkSize P t remaining) (\<lambda>chunk_size.
        if chunk_size = 0 then ret (Done 0)
        else
          let flags = (if total_queued + chunk_size < sz then TCP_WRITE_FLAG_MORE P else 0) in
          pbind (get_tx t) (\<lambda>x.
          pbind (deref Null_deref (tx_pcb x)) (\<lambda>p.
          let len = unat (ucast chunk_size :: u16) in
          pseq (require (unat total_queued + len \<le> length data) Out_of_bounds)
         (let chunk = take len (drop (unat total_queued) data) in
          pbind (on_pcb p (ext_val (Tcp_write p chunk flags) (tcp_write P p chunk flags))) (\<lambda>err.
          if err \<noteq> ERR_OK P then ret (Done 0)
          else ret (Again (total_queued + chunk_size))))))))"

definition TcpWriter_writeData :: "'h platform \<Rightarrow> addr \<Rightarrow> u8 list option \<Rightarrow> size_t \<Rightarrow> ('h, size_t) cprog" where
  "TcpWriter_writeData P t data sz =
     pbind (get_tx t) (\<lambda>x.
     case (tx_pcb x, data) of
       (Some p, Some d) \<Rightarrow>
         if sz = 0 then ret 0
         else
           pbind (run_loop Diverges (TcpWriter_writeStep P t d sz) 0) (\<lambda>total_queued.
           pseq (when_p (total_queued > 0) (on_pcb p (ext (Tcp_output p) (tcp_output P p))))
                (ret total_queued))
     | _ \<Rightarrow> ret 0)"

definition TcpWriter_onAckCallback :: "addr \<Rightarrow> addr \<Rightarrow> u16 \<Rightarrow> ('h, unit) cprog" where
  "TcpWriter_onAckCallback t pcb len = ret ()"

definition TcpWriter_setOnAckCallback :: "addr \<Rightarrow> ack_cb option \<Rightarrow> ('h, unit) cprog" where
  "TcpWriter_setOnAckCallback t cb = pbind (get_tx t) (\<lambda>x. put_tx t (x\<lparr>tx_ack_cb := cb\<rparr>))"

definition TcpWriter_onError :: "addr \<Rightarrow> err_t \<Rightarrow> ('h, unit) cprog" where
  "TcpWriter_onError t err = ret ()"

section \<open>Sending a message\<close>

text \<open>
  What sending means, on lists and without counters: while bytes are left, the next chunk is as much as the
  send buffer has room for and \<open>TCP_MSS\<close> allows, marked with \<open>TCP_WRITE_FLAG_MORE\<close> unless it is the rest. It ends
  when nothing is left, and fails when there is no room or \<open>tcp_write\<close> does not accept a chunk. The result has
  the chunks passed to \<open>tcp_write\<close> with their flags and what lwIP has become.
\<close>

function send_message ::
  "'h platform \<Rightarrow> addr \<Rightarrow> u8 list \<Rightarrow> 'h net \<Rightarrow> bool \<times> (u8 list \<times> u8) list \<times> 'h net" where
  "send_message P p ds n =
     (if ds = [] then (True, [], n)
      else
        let k = min (min (length ds) (unat (tcp_sndbuf P p n))) (unat (TCP_MSS P));
            c = take k ds;
            f = (if k < length ds then TCP_WRITE_FLAG_MORE P else 0);
            r = tcp_write P p c f n
        in if k = 0 then (False, [], n)
           else if fst r \<noteq> ERR_OK P then (False, [(c, f)], snd r)
           else let m = send_message P p (drop k ds) (snd r) in (fst m, (c, f) # fst (snd m), snd (snd m)))"
  by pat_completeness auto

termination
  by (relation "measure (\<lambda>(P, p, ds, n). length ds)") auto

declare send_message.simps [simp del]

text \<open>The chunks of a message, and the calls for them.\<close>

definition chunk_ok :: "'h platform \<Rightarrow> u8 list \<Rightarrow> bool" where
  "chunk_ok P c \<longleftrightarrow> 0 < length c \<and> length c \<le> unat (TCP_MSS P)"

definition flags_ok :: "'h platform \<Rightarrow> (u8 list \<times> u8) list \<Rightarrow> bool" where
  "flags_ok P cks \<longleftrightarrow> cks \<noteq> [] \<and> snd (last cks) = 0 \<and> (\<forall>c \<in> set (butlast cks). snd c = TCP_WRITE_FLAG_MORE P)"

definition write_calls :: "addr \<Rightarrow> (u8 list \<times> u8) list \<Rightarrow> ext_call list" where
  "write_calls p cks = map (\<lambda>(c, f). Tcp_write p c f) cks"

text \<open>What lwIP becomes when it is given chunks one after the other and accepts all of them.\<close>

fun accepted :: "'h platform \<Rightarrow> addr \<Rightarrow> (u8 list \<times> u8) list \<Rightarrow> 'h net \<Rightarrow> 'h net option" where
  "accepted P p [] n = Some n"
| "accepted P p ((c, f) # cks) n =
     (if fst (tcp_write P p c f n) = ERR_OK P then accepted P p cks (snd (tcp_write P p c f n)) else None)"

lemma write_calls_simps [simp]: "write_calls p [] = []" "write_calls p ((c, f) # cks) = Tcp_write p c f # write_calls p cks"
  by (simp_all add: write_calls_def)

lemma writes_of_write_calls [simp]: "writes_of (write_calls p cks) = cks"
  by (induction cks) (auto simp: write_calls_def)

lemma flags_ok_Cons:
  "flags_ok P cks \<Longrightarrow> flags_ok P ((c, TCP_WRITE_FLAG_MORE P) # cks)"
  by (simp add: flags_ok_def)

lemma send_message_Nil [simp]: "send_message P p [] n = (True, [], n)"
  by (subst send_message.simps) simp

text \<open>What the chunks are when the message has been sent and when it has not.\<close>

lemma send_message_chunks:
  "\<forall>c \<in> set (fst (snd (send_message P p ds n))). chunk_ok P (fst c)"
proof (induction P p ds n rule: send_message.induct)
  case (1 P p ds n)
  show ?case
    by (subst send_message.simps) (use 1 in \<open>auto simp: Let_def chunk_ok_def\<close>)
qed

lemma send_message_sent:
  "send_message P p ds n = (True, cks, N) \<Longrightarrow>
    accepted P p cks n = Some N \<and> concat (map fst cks) = ds \<and> (ds \<noteq> [] \<longrightarrow> flags_ok P cks)"
proof (induction P p ds n arbitrary: cks rule: send_message.induct)
  case (1 P p ds n)
  show ?case
  proof (cases "ds = []")
    case False
    define k where "k = min (min (length ds) (unat (tcp_sndbuf P p n))) (unat (TCP_MSS P))"
    define f where "f = (if k < length ds then TCP_WRITE_FLAG_MORE P else 0)"
    define r where "r = tcp_write P p (take k ds) f n"
    from "1.prems" [unfolded send_message.simps [of P p ds n]] False obtain cks' where
      k: "k \<noteq> 0" and r: "fst r = ERR_OK P" and cks: "cks = (take k ds, f) # cks'"
      and rest: "send_message P p (drop k ds) (snd r) = (True, cks', N)"
      by (cases "send_message P p (drop k ds) (snd r)")
        (auto simp: Let_def k_def [symmetric] f_def [symmetric] r_def [symmetric] split: if_splits)
    note IH = "1.IH" [OF False k_def refl, folded f_def, OF refl r_def k _ rest] r
    have "flags_ok P cks"
    proof (cases "drop k ds = []")
      case True
      with rest have "cks' = []" by simp
      with True show ?thesis by (simp add: cks flags_ok_def f_def)
    next
      case rem: False
      then have "flags_ok P cks'" "f = TCP_WRITE_FLAG_MORE P"
        using IH by (auto simp: f_def)
      then show ?thesis by (simp add: cks flags_ok_Cons)
    qed
    with IH r show ?thesis by (auto simp: cks r_def)
  qed (use "1.prems" in simp)
qed

lemma send_message_stopped:
  "send_message P p ds n = (False, cks, N) \<Longrightarrow> \<exists>rest. ds = concat (map fst cks) @ rest \<and>
    (accepted P p cks n = None \<or>
     accepted P p cks n = Some N \<and> rest \<noteq> [] \<and> (tcp_sndbuf P p N = 0 \<or> TCP_MSS P = 0))"
proof (induction P p ds n arbitrary: cks rule: send_message.induct)
  case (1 P p ds n)
  define k where "k = min (min (length ds) (unat (tcp_sndbuf P p n))) (unat (TCP_MSS P))"
  define f where "f = (if k < length ds then TCP_WRITE_FLAG_MORE P else 0)"
  define r where "r = tcp_write P p (take k ds) f n"
  have ds: "ds \<noteq> []" using "1.prems" by (cases ds) simp_all
  note run = "1.prems" [unfolded send_message.simps [of P p ds n] Let_def, folded k_def, folded f_def, folded r_def]
  consider "k = 0" | "k \<noteq> 0" "fst r \<noteq> ERR_OK P" | "k \<noteq> 0" "fst r = ERR_OK P" by blast
  then show ?case
  proof cases
    case 1
    then have "tcp_sndbuf P p n = 0 \<or> TCP_MSS P = 0" using ds by (auto simp: k_def unat_eq_0 min_def split: if_splits)
    with 1 run ds show ?thesis by auto
  next
    case 2
    with run ds show ?thesis by (auto simp: r_def intro!: exI [of _ "drop k ds"])
  next
    case 3
    with run ds obtain cks' where cks: "cks = (take k ds, f) # cks'"
      and rest: "send_message P p (drop k ds) (snd r) = (False, cks', N)"
      by (cases "send_message P p (drop k ds) (snd r)") auto
    from "1.IH" [OF ds k_def refl, folded f_def, OF refl r_def 3(1) _ rest] 3(2) obtain xs where
      e: "drop k ds = concat (map fst cks') @ xs" and why: "accepted P p cks' (snd r) = None \<or>
        accepted P p cks' (snd r) = Some N \<and> xs \<noteq> [] \<and> (tcp_sndbuf P p N = 0 \<or> TCP_MSS P = 0)" by blast
    have "accepted P p cks n = accepted P p cks' (snd r)" using 3(2) by (simp add: cks r_def)
    moreover have "ds = concat (map fst cks) @ xs" by (simp add: cks e [symmetric])
    ultimately show ?thesis using why by metis
  qed
qed

text \<open>
  The two outcomes in full: sent, with every chunk accepted and the flags as they should be, or stopped for a
  reason, the last chunk not accepted or no room for what is left.
\<close>

definition send_outcome ::
  "'h platform \<Rightarrow> addr \<Rightarrow> u8 list \<Rightarrow> 'h net \<Rightarrow> bool \<Rightarrow> (u8 list \<times> u8) list \<Rightarrow> 'h net \<Rightarrow> bool" where
  "send_outcome P p ds n sent cks N =
     (if sent then accepted P p cks n = Some N \<and> concat (map fst cks) = ds \<and> flags_ok P cks
      else (\<exists>rest. ds = concat (map fst cks) @ rest \<and>
        (accepted P p cks n = None \<or>
         accepted P p cks n = Some N \<and> rest \<noteq> [] \<and> (tcp_sndbuf P p N = 0 \<or> TCP_MSS P = 0))))"

lemma send_message_outcome: "send_message P p ds n = (sent, cks, N) \<Longrightarrow> ds \<noteq> [] \<Longrightarrow> send_outcome P p ds n sent cks N"
  using send_message_sent [of P p ds n cks N] send_message_stopped [of P p ds n cks N]
  by (cases sent) (simp_all add: send_outcome_def)

text \<open>lwIP's PCBs and pbufs stay as they are.\<close>

lemma send_message_frame:
  assumes "send_contract P"
  shows "pcbs n p \<noteq> None \<Longrightarrow> net_frame n (snd (snd (send_message P p ds n)))"
  using assms
proof (induction P p ds n rule: send_message.induct)
  case (1 P p ds n)
  define k where "k = min (min (length ds) (unat (tcp_sndbuf P p n))) (unat (TCP_MSS P))"
  define f where "f = (if k < length ds then TCP_WRITE_FLAG_MORE P else 0)"
  define r where "r = tcp_write P p (take k ds) f n"
  have fr: "net_frame n (snd r)" using 1(2,3) by (simp add: send_contract_def r_def)
  have "net_frame (snd r) (snd (snd (send_message P p (drop k ds) (snd r))))"
    if "ds \<noteq> []" "k \<noteq> 0" "fst r = ERR_OK P"
    using "1.IH" [OF that(1) k_def refl, folded f_def, OF refl r_def that(2)] that(3) 1(2,3) net_frame_live [OF fr, of p] by simp
  with fr net_frame_trans [OF fr] show ?case
    by (subst send_message.simps) (simp add: Let_def k_def [symmetric] f_def [symmetric] r_def [symmetric])
qed

section \<open>The loop of \<open>writeData\<close>\<close>

text \<open>One round with a live PCB, and the loop from any round on: it sends what is left of the message.\<close>

lemma TcpWriter_getOptimalChunkSize_run:
  assumes "writers s t = Some x" "tx_pcb x = Some p" "pcbs (net s) p = Some pc"
  shows "TcpWriter_getOptimalChunkSize P t n s = Inr (min (min n (tcp_sndbuf P p (net s))) (ucast (TCP_MSS P)), s)"
  using assms by (simp add: TcpWriter_getOptimalChunkSize_def TcpWriter_availableForWrite_def prog_simps)

lemma TcpWriter_writeStep_run:
  fixes P :: "'h platform" and s :: "'h world" and tot sz :: size_t
  assumes x: "writers s t = Some x" "tx_pcb x = Some p" and pc: "pcbs (net s) p = Some pc"
    and sz: "unat sz \<le> length d" and tot: "tot < sz"
  defines "k \<equiv> min (min (sz - tot) (tcp_sndbuf P p (net s))) (ucast (TCP_MSS P))"
  defines "f \<equiv> (if tot + k < sz then TCP_WRITE_FLAG_MORE P else 0)"
    and "c \<equiv> take (unat k) (drop (unat tot) d)"
  shows "TcpWriter_writeStep P t d sz tot s =
    (if k = 0 then Inr (Done 0, s)
     else let r = tcp_write P p c f (net s); s' = s\<lparr>net := snd r, calls := calls s @ [Tcp_write p c f]\<rparr> in
       if fst r \<noteq> ERR_OK P then Inr (Done 0, s') else Inr (Again (tot + k), s'))"
    and "unat tot + unat k \<le> unat sz" "unat (tot + k) = unat tot + unat k"
    "unat k \<le> unat (TCP_MSS P)"
proof -
  have sub: "unat (sz - tot) = unat sz - unat tot"
    using tot by (intro unat_sub_le) simp
  show le: "unat tot + unat k \<le> unat sz" and "unat k \<le> unat (TCP_MSS P)"
    using tot unfolding k_def by (simp_all add: sub word_less_nat_alt)
  then show "unat (tot + k) = unat tot + unat k"
    using unat_lt2p [of sz] by (intro unat_add_no_wrap) simp
  have bound: "unat tot + unat k \<le> length d" using le sz by simp
  have len: "unat (ucast k :: u16) = unat k"
    using unat_u16_less [of "TCP_MSS P"] by (intro unat_ucast_small) (simp add: k_def)
  show "TcpWriter_writeStep P t d sz tot s =
    (if k = 0 then Inr (Done 0, s)
     else let r = tcp_write P p c f (net s); s' = s\<lparr>net := snd r, calls := calls s @ [Tcp_write p c f]\<rparr> in
       if fst r \<noteq> ERR_OK P then Inr (Done 0, s') else Inr (Again (tot + k), s'))"
    using tot x pc bound
    by (simp add: len TcpWriter_writeStep_def TcpWriter_getOptimalChunkSize_run [OF x pc] prog_simps
        k_def [symmetric] f_def [symmetric] c_def [symmetric] Let_def)
qed

lemma write_round:
  fixes P :: "'h platform" and tot :: size_t and s :: "'h world"
  assumes S: "send_contract P" and x: "writers s t = Some x" "tx_pcb x = Some p" and live: "pcbs (net s) p \<noteq> None"
    and sz: "unat sz \<le> length d" and lt: "tot < sz"
  obtains (ends) cks N where "TcpWriter_writeStep P t d sz tot s = Inr (Done 0, s\<lparr>net := N, calls := calls s @ write_calls p cks\<rparr>)"
      "send_message P p (drop (unat tot) (take (unat sz) d)) (net s) = (False, cks, N)"
  | (goes_on) c f N tot' m where "TcpWriter_writeStep P t d sz tot s = Inr (Again tot', s\<lparr>net := N, calls := calls s @ [Tcp_write p c f]\<rparr>)"
      "net_frame (net s) N" "tot < tot'" "tot' \<le> sz" "m = send_message P p (drop (unat tot') (take (unat sz) d)) N"
      "send_message P p (drop (unat tot) (take (unat sz) d)) (net s) = (fst m, (c, f) # fst (snd m), snd (snd m))"
proof -
  let ?ds = "drop (unat tot) (take (unat sz) d)"
  have ds: "?ds \<noteq> []" "length ?ds = unat sz - unat tot" using sz lt by (simp_all add: word_less_nat_alt)
  from live obtain pc where pc: "pcbs (net s) p = Some pc" by auto
  define k where "k = min (min (sz - tot) (tcp_sndbuf P p (net s))) (ucast (TCP_MSS P))"
  define f where "f = (if tot + k < sz then TCP_WRITE_FLAG_MORE P else 0)"
  define c where "c = take (unat k) (drop (unat tot) d)"
  define r where "r = tcp_write P p c f (net s)"
  note step = TcpWriter_writeStep_run [OF x pc sz lt, where P = P, folded k_def, folded f_def c_def, unfolded Let_def, folded r_def]
  have "unat (sz - tot) = unat sz - unat tot" using lt by (intro unat_sub_le) simp
  then have k: "min (min (length ?ds) (unat (tcp_sndbuf P p (net s)))) (unat (TCP_MSS P)) = unat k"
    unfolding ds(2) k_def by simp
  have f: "(if unat k < length ?ds then TCP_WRITE_FLAG_MORE P else 0) = f"
    using step(2,3) unfolding ds(2) by (auto simp: f_def word_less_nat_alt)
  have c: "take (unat k) ?ds = c" using step(2) by (simp add: c_def drop_take min_def)
  have rest: "drop (unat k) ?ds = drop (unat (tot + k)) (take (unat sz) d)" unfolding step(3) by (simp add: add.commute)
  note msg = send_message.simps [of P p ?ds "net s", unfolded Let_def k f c, folded r_def, unfolded rest]
  show thesis
  proof (cases "k = 0 \<or> fst r \<noteq> ERR_OK P")
    case True
    with msg step(1) ds(1) show thesis
      by (intro ends [where cks = "if k = 0 then [] else [(c, f)]" and N = "if k = 0 then net s else snd r"])
        (cases "k = 0"; simp add: unat_eq_0)+
  next
    case False
    moreover have "net_frame (net s) (snd r)" using S pc by (simp add: send_contract_def r_def)
    moreover have "0 < unat k" using False by (simp add: unat_gt_0)
    ultimately show thesis
      using msg step(1-3) ds(1) by (intro goes_on [where tot' = "tot + k", OF _ _ _ _ refl]) (simp_all add: word_less_nat_alt word_le_nat_alt unat_eq_0)
  qed
qed

lemma write_loop:
  fixes P :: "'h platform" and tot :: size_t
  assumes S: "send_contract P" and x: "writers s t = Some x" "tx_pcb x = Some p" and live: "pcbs (net s) p \<noteq> None"
    and sz: "unat sz \<le> length d" and tot: "tot \<le> sz"
    and sent: "send_message P p (drop (unat tot) (take (unat sz) d)) (net s) = (ok, cks, N)"
  shows "run_loop Diverges (TcpWriter_writeStep P t d sz) tot s =
    Inr (if ok then sz else 0, s\<lparr>net := N, calls := calls s @ write_calls p cks\<rparr>)"
  using x(1) live tot sent
proof (induction "unat sz - unat tot" arbitrary: tot s cks rule: less_induct)
  case less
  show ?case
  proof (cases "tot = sz")
    case True
    with less.prems(4) show ?thesis by (subst run_loop_unfold) (simp add: TcpWriter_writeStep_def)
  next
    case False
    with less.prems(3) have lt: "tot < sz" by simp
    from S less.prems(1) x(2) less.prems(2) sz lt show ?thesis
    proof (cases rule: write_round)
      case (ends cks' N')
      with less.prems(4) show ?thesis by (subst run_loop_unfold) simp
    next
      case (goes_on c f N' tot' m)
      let ?s' = "s\<lparr>net := N', calls := calls s @ [Tcp_write p c f]\<rparr>"
      obtain cks' where m: "m = (ok, cks', N)" and cks: "cks = (c, f) # cks'"
        using goes_on(6) less.prems(4) by (cases m) simp
      have rec: "send_message P p (drop (unat tot') (take (unat sz) d)) (net ?s') = (ok, cks', N)"
        using goes_on(5) m by simp
      have "writers ?s' t = Some x" "pcbs (net ?s') p \<noteq> None"
        using less.prems(1,2) net_frame_live [OF goes_on(2), of p] by simp_all
      moreover have "unat sz - unat tot' < unat sz - unat tot" using goes_on(3,4) by (simp add: word_less_nat_alt word_le_nat_alt)
      ultimately have "run_loop Diverges (TcpWriter_writeStep P t d sz) tot' ?s' =
          Inr (if ok then sz else 0, ?s'\<lparr>net := N, calls := calls ?s' @ write_calls p cks'\<rparr>)"
        using less.hyps goes_on(4) rec by blast
      with goes_on(1) show ?thesis by (subst run_loop_unfold) (simp add: cks)
    qed
  qed
qed

lemma writeData_run:
  fixes P :: "'h platform"
  assumes S: "send_contract P" and x: "writers w t = Some x" "tx_pcb x = Some p" and live: "pcbs (net w) p \<noteq> None"
    and sz: "unat sz \<le> length d" "0 < sz" and sent: "send_message P p (take (unat sz) d) (net w) = (ok, cks, N)"
  shows "TcpWriter_writeData P t (Some d) sz w =
    (if ok then Inr (sz, w\<lparr>net := tcp_output P p N, calls := calls w @ write_calls p cks @ [Tcp_output p]\<rparr>)
     else Inr (0, w\<lparr>net := N, calls := calls w @ write_calls p cks\<rparr>))"
proof -
  have "run_loop Diverges (TcpWriter_writeStep P t d sz) 0 w =
      Inr (if ok then sz else 0, w\<lparr>net := N, calls := calls w @ write_calls p cks\<rparr>)"
    using sent by (intro write_loop [OF S x live sz(1)]) simp_all
  moreover have "net_frame (net w) N" using send_message_frame [OF S live, of "take (unat sz) d"] sent by simp
  then obtain pc where "pcbs N p = Some pc" using live net_frame_live [of "net w" N p] by auto
  ultimately show ?thesis using x sz(2) by (auto simp: TcpWriter_writeData_def prog_simps)
qed

section \<open>A stack that takes what fits\<close>

text \<open>
  A scenario, not a contract: lwIP's \<open>tcp_write\<close> refuses data that does not fit the send buffer, but also data for
  which its queue has no segments or the memory is exhausted. On a stack where the send buffer is the only limit,
  what fits is accepted and takes its length from the free space.
\<close>

definition accepts_what_fits :: "'h platform \<Rightarrow> bool" where
  "accepts_what_fits P \<longleftrightarrow> (\<forall>n p d f. pcbs n p \<noteq> None \<longrightarrow> length d \<le> unat (tcp_sndbuf P p n) \<longrightarrow>
     fst (tcp_write P p d f n) = ERR_OK P \<and>
     unat (tcp_sndbuf P p (snd (tcp_write P p d f n))) = unat (tcp_sndbuf P p n) - length d)"

lemma sample_accepts_what_fits: "accepts_what_fits sample"
proof -
  have "unat (h - of_nat k) = unat h - k" if "k \<le> unat h" for h :: size_t and k :: nat
  proof -
    have "unat (of_nat k :: size_t) = k"
      using that unat_lt2p [of h] by (simp add: unat_of_nat take_bit_nat_eq_self)
    with that show ?thesis by (simp add: unat_sub_le word_le_nat_alt)
  qed
  then show ?thesis by (auto simp: accepts_what_fits_def sample_def)
qed

text \<open>
  A message on such a stack: bytes go out as long as there is space, so all of it is sent exactly when it
  fits; what went out before the space ran out stays with lwIP.
\<close>

lemma send_message_fits:
  assumes "accepts_what_fits P" "send_contract P" "0 < TCP_MSS P"
  shows "pcbs n p \<noteq> None \<Longrightarrow> send_message P p ds n = (ok, cks, N) \<Longrightarrow>
    ok = (length ds \<le> unat (tcp_sndbuf P p n)) \<and> concat (map fst cks) = take (unat (tcp_sndbuf P p n)) ds"
  using assms
proof (induction P p ds n arbitrary: cks rule: send_message.induct)
  case (1 P p ds n)
  define k where "k = min (min (length ds) (unat (tcp_sndbuf P p n))) (unat (TCP_MSS P))"
  define f where "f = (if k < length ds then TCP_WRITE_FLAG_MORE P else 0)"
  define r where "r = tcp_write P p (take k ds) f n"
  note run = "1.prems"(2) [unfolded send_message.simps [of P p ds n] Let_def, folded k_def, folded f_def, folded r_def]
  show ?case
  proof (cases "ds = [] \<or> k = 0")
    case True
    show ?thesis
    proof (cases "ds = []")
      case False
      with True have "k = 0" "tcp_sndbuf P p n = 0"
        using "1.prems"(5) by (auto simp: k_def unat_eq_0 min_def word_gt_0 split: if_splits)
      with run False show ?thesis by simp
    qed (use run in simp)
  next
    case go: False
    have fr: "net_frame n (snd r)" using "1.prems"(1,4) by (simp add: send_contract_def r_def)
    have le: "k \<le> unat (tcp_sndbuf P p n)" "k \<le> length ds" by (simp_all add: k_def)
    with "1.prems"(1,3) have r: "fst r = ERR_OK P" "unat (tcp_sndbuf P p (snd r)) = unat (tcp_sndbuf P p n) - k"
      by (auto simp: accepts_what_fits_def r_def)
    with run go obtain cks' where cks: "cks = (take k ds, f) # cks'"
      and rest: "send_message P p (drop k ds) (snd r) = (ok, cks', N)"
      by (cases "send_message P p (drop k ds) (snd r)") auto
    from "1.IH" [OF _ k_def refl, folded f_def, OF _ refl r_def _ _ _ rest "1.prems"(3-5)] go r(1) "1.prems"(1) net_frame_live [OF fr, of p]
    have "ok = (length (drop k ds) \<le> unat (tcp_sndbuf P p (snd r))) \<and>
        concat (map fst cks') = take (unat (tcp_sndbuf P p (snd r))) (drop k ds)" by simp
    with r(2) le show ?thesis
      by (auto simp: cks take_drop [symmetric]) (metis le_add_diff_inverse take_add)
  qed
qed

lemma write_fitting:
  assumes "accepts_what_fits P" and "send_contract P" and "writers w t = Some x" and "tx_pcb x = Some p"
    and "pcbs (net w) p \<noteq> None" and "unat sz \<le> length d" and "0 < sz" and "0 < TCP_MSS P"
    and fits: "sz \<le> tcp_sndbuf P p (net w)"
  shows "\<exists>w' cks. TcpWriter_writeData P t (Some d) sz w = Inr (sz, w') \<and>
    calls w' = calls w @ write_calls p cks @ [Tcp_output p] \<and> concat (map fst cks) = take (unat sz) d"
proof -
  obtain ok cks N where m: "send_message P p (take (unat sz) d) (net w) = (ok, cks, N)" by (cases "send_message P p (take (unat sz) d) (net w)")
  from send_message_fits [OF assms(1,2,8,5) m] writeData_run [OF assms(2-7) m] assms(6) fits show ?thesis
    by (auto simp: word_le_nat_alt)
qed

text \<open>Whatever the outcome, a write touches the network state and the log only.\<close>

lemma writeData_frame:
  fixes P :: "'h platform"
  assumes S: "send_contract P" and x: "writers w t = Some x" "tx_pcb x = Some p"
    and live: "pcbs (net w) p \<noteq> None" and sz: "unat sz \<le> length d"
  shows "\<exists>r N cs. TcpWriter_writeData P t (Some d) sz w = Inr (r, w\<lparr>net := N, calls := cs\<rparr>) \<and> net_frame (net w) N"
proof (cases "sz = 0")
  case True
  then have "TcpWriter_writeData P t (Some d) sz w = Inr (0, w\<lparr>net := net w, calls := calls w\<rparr>)"
    using x by (simp add: TcpWriter_writeData_def prog_simps)
  then show ?thesis using net_frame_refl by blast
next
  case False
  then have pos: "0 < sz" by (simp add: word_gt_0)
  obtain ok cks N where m: "send_message P p (take (unat sz) d) (net w) = (ok, cks, N)" by (cases "send_message P p (take (unat sz) d) (net w)")
  have fr: "net_frame (net w) N" using send_message_frame [OF S live, of "take (unat sz) d"] m by simp
  have "net_frame N (tcp_output P p N)" using S live net_frame_live [OF fr, of p] by (auto simp: send_contract_def)
  then have "net_frame (net w) (tcp_output P p N)" by (rule net_frame_trans [OF fr])
  with fr writeData_run [OF S x live sz pos m] show ?thesis by (cases ok) auto
qed

section \<open>Properties\<close>

text \<open>A writer at address 60 on the live PCB 7, with 1000 bytes of send buffer free.\<close>

definition sample_tx_world :: "size_t \<Rightarrow> size_t world" where
  "sample_tx_world free = (sample_world (sample_net Map.empty [7 \<mapsto> blank_pcb] free))
     \<lparr>writers := [60 \<mapsto> \<lparr>tx_pcb = Some 7, tx_data = None, tx_acked = 0, tx_queued = 0, tx_total_size = 0,
       tx_write_start_time = 0, tx_last_progress_time = 0, tx_mode = Acked, tx_ack_cb = None\<rparr>]\<rparr>"

lemma sample_tx_facts: "TCP_MSS sample = 1460" "tcp_sndbuf sample p n = hidden n"
  by (simp_all add: sample_def)

lemmas sample_tx_simps = sample_tx_world_def sample_world_def sample_net_def

text \<open>
  C13. \<open>writeData\<close> with a live PCB does exactly what \<open>send_message\<close> says. It returns \<open>size\<close> if and only if lwIP
  has accepted every chunk of the message; the chunks are nonempty, at most \<open>TCP_MSS\<close> long, concatenate to the
  message and carry \<open>TCP_WRITE_FLAG_MORE\<close> except for the last, and one \<open>tcp_output\<close> follows. Otherwise it returns 0
  without \<open>tcp_output\<close>, and there is a reason: lwIP has not accepted the last chunk it was given, or it has accepted
  all of them, a part of the message is left and there is no room in the send buffer (or \<open>TCP_MSS\<close> is 0).
\<close>

theorem writeData_sends_message:
  assumes "send_contract P" and "writers w t = Some x" and "tx_pcb x = Some p"
    and "pcbs (net w) p \<noteq> None" and "unat sz \<le> length d" and "0 < sz"
  shows "case send_message P p (take (unat sz) d) (net w) of (sent, cks, N) \<Rightarrow>
    TcpWriter_writeData P t (Some d) sz w =
      (if sent then Inr (sz, w\<lparr>net := tcp_output P p N, calls := calls w @ write_calls p cks @ [Tcp_output p]\<rparr>)
       else Inr (0, w\<lparr>net := N, calls := calls w @ write_calls p cks\<rparr>)) \<and>
    (\<forall>c \<in> set cks. chunk_ok P (fst c)) \<and>
    send_outcome P p (take (unat sz) d) (net w) sent cks N"
proof -
  obtain sent cks N where m: "send_message P p (take (unat sz) d) (net w) = (sent, cks, N)"
    by (cases "send_message P p (take (unat sz) d) (net w)")
  have "take (unat sz) d \<noteq> []" using assms(5,6) by (cases d) (auto simp: word_gt_0 unat_eq_0)
  with send_message_chunks [of P p "take (unat sz) d" "net w"] send_message_outcome [OF m] writeData_run [OF assms m] m
  show ?thesis by simp
qed

text \<open>Three bytes with 1000 bytes of send buffer free, and with 2.\<close>

theorem writeData_sends_message_witness:
  "(\<exists>w'. TcpWriter_writeData sample 60 (Some [1, 2, 3]) 3 (sample_tx_world 1000) = Inr (3, w') \<and>
      calls w' = [Tcp_write 7 [1, 2, 3] 0, Tcp_output 7]) \<and>
   (\<exists>w'. TcpWriter_writeData sample 60 (Some [1, 2, 3]) 3 (sample_tx_world 2) = Inr (0, w') \<and>
      calls w' = [Tcp_write 7 [1, 2] (TCP_WRITE_FLAG_MORE sample)])"
proof -
  have u: "unat (3 :: size_t) = 3" by simp
  have "send_message sample 7 [1, 2, 3] (net (sample_tx_world 1000)) =
      (True, [([1, 2, 3], 0)], snd (tcp_write sample 7 [1, 2, 3] 0 (net (sample_tx_world 1000))))"
    by (subst send_message.simps) (simp add: sample_tx_simps sample_def)
  with writeData_sends_message [where P = sample and w = "sample_tx_world 1000" and t = 60 and p = 7 and d = "[1, 2, 3]" and sz = 3
      and x = "the (writers (sample_tx_world 1000) 60)"] sample_send_contract
  have "\<exists>w'. TcpWriter_writeData sample 60 (Some [1, 2, 3]) 3 (sample_tx_world 1000) = Inr (3, w') \<and>
      calls w' = [Tcp_write 7 [1, 2, 3] 0, Tcp_output 7]"
    by (simp add: sample_tx_simps u)
  moreover have "send_message sample 7 [1, 2, 3] (net (sample_tx_world 2)) =
      (False, [([1, 2], TCP_WRITE_FLAG_MORE sample)], snd (tcp_write sample 7 [1, 2] (TCP_WRITE_FLAG_MORE sample) (net (sample_tx_world 2))))"
    by (subst send_message.simps, subst send_message.simps) (simp add: sample_tx_simps sample_def)
  with writeData_sends_message [where P = sample and w = "sample_tx_world 2" and t = 60 and p = 7 and d = "[1, 2, 3]" and sz = 3
      and x = "the (writers (sample_tx_world 2) 60)"] sample_send_contract
  have "\<exists>w'. TcpWriter_writeData sample 60 (Some [1, 2, 3]) 3 (sample_tx_world 2) = Inr (0, w') \<and>
      calls w' = [Tcp_write 7 [1, 2] (TCP_WRITE_FLAG_MORE sample)]"
    by (simp add: sample_tx_simps u)
  ultimately show ?thesis by blast
qed

text \<open>
  On a stack that accepts what fits its send buffer, a message that fits is queued completely:
  \<open>writeData\<close> returns its size and the bytes passed on are exactly the message.
\<close>

theorem writeData_accepts_fitting:
  assumes "accepts_what_fits P" and "send_contract P" and "writers w t = Some x" and "tx_pcb x = Some p"
    and "pcbs (net w) p \<noteq> None" and "unat sz \<le> length d" and "0 < sz" and "0 < TCP_MSS P"
    and fits: "sz \<le> tcp_sndbuf P p (net w)"
  shows "\<exists>w' cks. TcpWriter_writeData P t (Some d) sz w = Inr (sz, w') \<and>
    calls w' = calls w @ write_calls p cks @ [Tcp_output p] \<and> concat (map fst cks) = take (unat sz) d"
  by (rule write_fitting [OF assms])

theorem writeData_accepts_fitting_witness:
  "\<exists>w' cks. TcpWriter_writeData sample 60 (Some [1, 2, 3]) 3 (sample_tx_world 1000) = Inr (3, w') \<and>
    calls w' = calls (sample_tx_world 1000) @ write_calls 7 cks @ [Tcp_output 7] \<and>
    concat (map fst cks) = take (unat (3 :: size_t)) [1, 2, 3]"
  by (rule writeData_accepts_fitting [where x = "the (writers (sample_tx_world 1000) 60)"])
    (rule sample_accepts_what_fits sample_send_contract | simp add: sample_tx_simps sample_tx_facts)+



text \<open>
  Without a PCB, without data or with size 0, \<open>writeData\<close> returns 0 and calls nothing.
\<close>

theorem writeData_nothing_to_do:
  assumes "writers w t = Some x" and "tx_pcb x = None \<or> data = None \<or> sz = 0"
  shows "TcpWriter_writeData P t data sz w = Inr (0, w)"
  using assms by (auto simp: TcpWriter_writeData_def prog_simps split: option.splits)

theorem writeData_nothing_to_do_witness:
  "TcpWriter_writeData sample 60 None 3 (sample_tx_world 1000) = Inr (0, sample_tx_world 1000)"
  by (rule writeData_nothing_to_do) (simp_all add: sample_tx_simps)

end
