(* ===== verification/Tcp_Client_Context.thy ===== *)
theory Tcp_Client_Context
  imports Io_Rx_Buffer Tcp_Writer
begin

text \<open>
  The owner of a connection (\<open>include/TcpClientContext.hpp\<close>): the object that lwIP's callback
  argument points to, with its receive buffer and its writer. This theory has construction,
  destruction, \<open>close\<close>, \<open>abort\<close>, \<open>connect\<close> and the accessors; the members that run a
  \<open>std::function\<close> (\<open>writeChunk\<close>, \<open>_error\<close>, \<open>_connected\<close>, \<open>_poll\<close>, the static trampolines) are in the
  theory of the callbacks.
\<close>

unbundle bit_operations_syntax

section \<open>Construction and destruction\<close>

definition upd_ctx :: "addr \<Rightarrow> (TcpClientContext \<Rightarrow> TcpClientContext) \<Rightarrow> ('h, unit) cprog" where
  "upd_ctx c f = pbind (get_ctx c) (\<lambda>x. put_ctx c (f x))"

definition TcpClientContext_initRxBuffer :: "addr \<Rightarrow> ('h, unit) cprog" where
  "TcpClientContext_initRxBuffer c =
     pbind (get_ctx c) (\<lambda>x.
     when_p (ctx_rx x = None)
       (pbind (IoRxBuffer_new None) (\<lambda>r.
        pseq (upd_ctx c (ctx_rx_update (\<lambda>_. Some r)))
       (pseq (IoRxBuffer_setOnFinCallback r (Some (Ctx_fin c)))
             (IoRxBuffer_setOnReceivedCallback r (Some (Ctx_receive c)))))))"

definition TcpClientContext_initTxWriter :: "addr \<Rightarrow> addr option \<Rightarrow> ('h, unit) cprog" where
  "TcpClientContext_initTxWriter c pcb =
     pbind (TcpWriter_new pcb) (\<lambda>t.
     pseq (upd_ctx c (ctx_tx_update (\<lambda>_. Some t)))
    (pbind (get_ctx c) (\<lambda>x. TcpWriter_setOnAckCallback t (ctx_ackCb x))))"

definition TcpClientContext_cleanupRxBuffer :: "'h platform \<Rightarrow> addr \<Rightarrow> ('h, unit) cprog" where
  "TcpClientContext_cleanupRxBuffer P c =
     pbind (get_ctx c) (\<lambda>x.
     pseq (when_some (ctx_rx x) (IoRxBuffer_reset P))
    (pseq (when_some (ctx_rx x) (IoRxBuffer_delete P))
          (upd_ctx c (ctx_rx_update (\<lambda>_. None)))))"

definition TcpClientContext_cleanupTxWriter :: "addr \<Rightarrow> ('h, unit) cprog" where
  "TcpClientContext_cleanupTxWriter c =
     pbind (get_ctx c) (\<lambda>x.
     pseq (when_some (ctx_tx x) TcpWriter_delete)
          (upd_ctx c (ctx_tx_update (\<lambda>_. None))))"

text \<open>The members as their initializers leave them, before the constructor's body runs.\<close>

definition TcpClientContext_init :: "addr option \<Rightarrow> TcpClientContext" where
  "TcpClientContext_init pcb =
     \<lparr>ctx_pcb = pcb, ctx_rx = None, ctx_tx = None, ctx_timeout_ms = 5000, ctx_finCb = None,
      ctx_connectCb = None, ctx_errorCb = None, ctx_receiveCb = None, ctx_ackCb = None,
      ctx_closeCb = None, ctx_writtenCb = None, ctx_pollCb = None, ctx_client_id = 0\<rparr>"

definition TcpClientContext_new :: "'h platform \<Rightarrow> addr \<Rightarrow> ('h, addr) cprog" where
  "TcpClientContext_new P pcb =
     pbind (new_ctx (TcpClientContext_init (Some pcb))) (\<lambda>c.
     pseq (on_pcb pcb (ext (Tcp_setprio pcb (TCP_PRIO_MIN P)) (tcp_setprio P pcb (TCP_PRIO_MIN P))))
    (pseq (on_pcb pcb (ext (Tcp_arg pcb (Some c)) (tcp_arg P pcb (Some c))))
    (pseq (on_pcb pcb (ext (Tcp_recv pcb (Some Fn_lwip_receive_callback)) (tcp_recv P pcb (Some Fn_lwip_receive_callback))))
    (pseq (on_pcb pcb (ext (Tcp_sent pcb (Some Fn_lwip_sent_cb)) (tcp_sent P pcb (Some Fn_lwip_sent_cb))))
    (pseq (on_pcb pcb (ext (Tcp_err pcb (Some Fn_s_error)) (tcp_err P pcb (Some Fn_s_error))))
    (pseq (on_pcb pcb (ext (Tcp_poll pcb (Some Fn_s_poll) 1) (tcp_poll P pcb (Some Fn_s_poll) 1)))
    (pseq (TcpClientContext_initRxBuffer c)
    (pseq (TcpClientContext_initTxWriter c (Some pcb))
          (ret c)))))))))"

text \<open>The destructor, after which the object does not exist.\<close>

definition TcpClientContext_delete :: "'h platform \<Rightarrow> addr \<Rightarrow> ('h, unit) cprog" where
  "TcpClientContext_delete P c =
     pseq (TcpClientContext_cleanupRxBuffer P c)
    (pseq (TcpClientContext_cleanupTxWriter c)
          (modify (\<lambda>w. w\<lparr>contexts := (contexts w)(c := None)\<rparr>)))"

section \<open>Ending a connection\<close>

text \<open>The part that \<open>abort\<close> and \<open>close\<close> share: release the received data, take back every registration.\<close>

definition TcpClientContext_detach :: "'h platform \<Rightarrow> addr option \<Rightarrow> addr \<Rightarrow> ('h, unit) cprog" where
  "TcpClientContext_detach P rx p =
     pseq (when_some rx (IoRxBuffer_reset P))
    (pseq (on_pcb p (ext (Tcp_arg p None) (tcp_arg P p None)))
    (pseq (on_pcb p (ext (Tcp_sent p None) (tcp_sent P p None)))
    (pseq (on_pcb p (ext (Tcp_recv p None) (tcp_recv P p None)))
    (pseq (on_pcb p (ext (Tcp_err p None) (tcp_err P p None)))
          (on_pcb p (ext (Tcp_poll p None 0) (tcp_poll P p None 0)))))))"

definition TcpClientContext_abort :: "'h platform \<Rightarrow> addr \<Rightarrow> ('h, err_t) cprog" where
  "TcpClientContext_abort P c =
     pbind (get_ctx c) (\<lambda>x.
     pseq (when_some (ctx_pcb x) (\<lambda>p.
             pseq (TcpClientContext_detach P (ctx_rx x) p)
            (pseq (on_pcb p (ext (Tcp_abort p) (tcp_abort P p)))
                  (upd_ctx c (ctx_pcb_update (\<lambda>_. None))))))
          (ret (ERR_ABRT P)))"

definition TcpClientContext_close :: "'h platform \<Rightarrow> addr \<Rightarrow> ('h, err_t) cprog" where
  "TcpClientContext_close P c =
     pbind (get_ctx c) (\<lambda>x.
     case ctx_pcb x of
       None \<Rightarrow> ret (ERR_OK P)
     | Some p \<Rightarrow>
         pseq (TcpClientContext_detach P (ctx_rx x) p)
        (pbind (on_pcb p (ext_val (Tcp_close p) (tcp_close P p))) (\<lambda>err.
         pbind (if err \<noteq> ERR_OK P
                then pseq (on_pcb p (ext (Tcp_abort p) (tcp_abort P p))) (ret (ERR_ABRT P))
                else ret err) (\<lambda>err'.
         pseq (upd_ctx c (ctx_pcb_update (\<lambda>_. None)))
              (ret err')))))"

section \<open>Connecting\<close>

definition TcpClientContext_connect :: "'h platform \<Rightarrow> addr \<Rightarrow> ip_addr \<Rightarrow> u16 \<Rightarrow> ('h, err_t) cprog" where
  "TcpClientContext_connect P c a port =
     pbind (get_ctx c) (\<lambda>x.
     pbind (gets (\<lambda>w. if LWIP_IPV6 P \<and> ip_is_v6 P a \<and> ip6_lacks_zone P a
                      then ip6_assign_zone P a (net w) else a)) (\<lambda>a'.
     pbind (deref Null_deref (ctx_pcb x)) (\<lambda>p.
     pbind (on_pcb p (ext_val (Tcp_connect p a' port) (tcp_connect P p a' port Fn_s_connected))) (\<lambda>err.
     if err \<noteq> ERR_OK P then ret err
     else
       pbind (get_ctx c) (\<lambda>y.
       if ctx_pcb y = None then ret (ERR_ABRT P) else ret (ERR_OK P))))))"

section \<open>Accessors\<close>

definition TcpClientContext_setNoDelay :: "'h platform \<Rightarrow> addr \<Rightarrow> bool \<Rightarrow> ('h, unit) cprog" where
  "TcpClientContext_setNoDelay P c no_delay =
     pbind (get_ctx c) (\<lambda>x.
     when_some (ctx_pcb x) (\<lambda>p.
       if no_delay then on_pcb p (ext (Tcp_nagle_disable p) (tcp_nagle_disable P p))
       else on_pcb p (ext (Tcp_nagle_enable p) (tcp_nagle_enable P p))))"

definition TcpClientContext_getNoDelay :: "'h platform \<Rightarrow> addr \<Rightarrow> ('h, bool) cprog" where
  "TcpClientContext_getNoDelay P c =
     pbind (get_ctx c) (\<lambda>x.
     case ctx_pcb x of
       None \<Rightarrow> ret False
     | Some p \<Rightarrow> on_pcb p (gets (\<lambda>w. tcp_nagle_disabled P p (net w))))"

definition TcpClientContext_setTimeout :: "addr \<Rightarrow> u32 \<Rightarrow> ('h, unit) cprog" where
  "TcpClientContext_setTimeout c timeout_ms = upd_ctx c (ctx_timeout_ms_update (\<lambda>_. timeout_ms))"

definition TcpClientContext_getTimeout :: "addr \<Rightarrow> ('h, u32) cprog" where
  "TcpClientContext_getTimeout c = pbind (get_ctx c) (\<lambda>x. ret (ctx_timeout_ms x))"

text \<open>The pointers \<open>&_pcb->remote_ip\<close> and \<open>&_pcb->local_ip\<close> are the PCB they point into.\<close>

definition TcpClientContext_getRemoteAddress :: "addr \<Rightarrow> ('h, addr option) cprog" where
  "TcpClientContext_getRemoteAddress c = pbind (get_ctx c) (\<lambda>x. ret (ctx_pcb x))"

definition TcpClientContext_getLocalAddress :: "addr \<Rightarrow> ('h, addr option) cprog" where
  "TcpClientContext_getLocalAddress c = pbind (get_ctx c) (\<lambda>x. ret (ctx_pcb x))"

definition TcpClientContext_getRemotePort :: "addr \<Rightarrow> ('h, u16) cprog" where
  "TcpClientContext_getRemotePort c =
     pbind (get_ctx c) (\<lambda>x.
     case ctx_pcb x of None \<Rightarrow> ret 0 | Some p \<Rightarrow> pbind (get_pcb p) (\<lambda>b. ret (remote_port b)))"

definition TcpClientContext_getLocalPort :: "addr \<Rightarrow> ('h, u16) cprog" where
  "TcpClientContext_getLocalPort c =
     pbind (get_ctx c) (\<lambda>x.
     case ctx_pcb x of None \<Rightarrow> ret 0 | Some p \<Rightarrow> pbind (get_pcb p) (\<lambda>b. ret (local_port b)))"

definition TcpClientContext_state :: "'h platform \<Rightarrow> addr \<Rightarrow> ('h, u8) cprog" where
  "TcpClientContext_state P c =
     pbind (get_ctx c) (\<lambda>x.
     case ctx_pcb x of
       None \<Rightarrow> ret (CLOSED P)
     | Some p \<Rightarrow>
         pbind (get_pcb p) (\<lambda>b.
         if pcb_state b = CLOSE_WAIT P \<or> pcb_state b = CLOSING P then ret (CLOSED P)
         else ret (pcb_state b)))"

definition TCP_DEFAULT_KEEP_ALIVE_IDLE_SEC :: u16 where
  "TCP_DEFAULT_KEEP_ALIVE_IDLE_SEC = 7200"

definition TCP_DEFAULT_KEEP_ALIVE_INTERVAL_SEC :: u16 where
  "TCP_DEFAULT_KEEP_ALIVE_INTERVAL_SEC = 75"

definition TCP_DEFAULT_KEEP_ALIVE_COUNT :: u8 where
  "TCP_DEFAULT_KEEP_ALIVE_COUNT = 9"

definition TcpClientContext_keepAlive :: "'h platform \<Rightarrow> addr \<Rightarrow> u16 \<Rightarrow> u16 \<Rightarrow> u8 \<Rightarrow> ('h, unit) cprog" where
  "TcpClientContext_keepAlive P c idle_sec intv_sec count =
     pbind (get_ctx c) (\<lambda>x.
     pbind (deref Null_deref (ctx_pcb x)) (\<lambda>p.
     pbind (get_pcb p) (\<lambda>b.
     if idle_sec \<noteq> 0 \<and> intv_sec \<noteq> 0 \<and> count \<noteq> 0
     then put_pcb p (b\<lparr>so_options := so_options b OR SOF_KEEPALIVE P,
            keep_idle := 1000 * ucast idle_sec, keep_intvl := 1000 * ucast intv_sec,
            keep_cnt := ucast count\<rparr>)
     else put_pcb p (b\<lparr>so_options := so_options b AND NOT (SOF_KEEPALIVE P)\<rparr>))))"

definition TcpClientContext_isKeepAliveEnabled :: "'h platform \<Rightarrow> addr \<Rightarrow> ('h, bool) cprog" where
  "TcpClientContext_isKeepAliveEnabled P c =
     pbind (get_ctx c) (\<lambda>x.
     pbind (deref Null_deref (ctx_pcb x)) (\<lambda>p.
     pbind (get_pcb p) (\<lambda>b. ret (so_options b AND SOF_KEEPALIVE P \<noteq> 0))))"

text \<open>The getters: \<open>field\<close> of the PCB when keep-alive is enabled, 0 otherwise.\<close>

definition keepAlive_field :: "'h platform \<Rightarrow> addr \<Rightarrow> (tcp_pcb \<Rightarrow> 'a::zero) \<Rightarrow> ('h, 'a) cprog" where
  "keepAlive_field P c field =
     pbind (TcpClientContext_isKeepAliveEnabled P c) (\<lambda>enabled.
     if enabled
     then pbind (get_ctx c) (\<lambda>x. pbind (deref Null_deref (ctx_pcb x)) (\<lambda>p. pbind (get_pcb p) (\<lambda>b. ret (field b))))
     else ret 0)"

definition TcpClientContext_getKeepAliveIdle :: "'h platform \<Rightarrow> addr \<Rightarrow> ('h, u16) cprog" where
  "TcpClientContext_getKeepAliveIdle P c = keepAlive_field P c (\<lambda>b. ucast ((keep_idle b + 500) div 1000))"

definition TcpClientContext_getKeepAliveInterval :: "'h platform \<Rightarrow> addr \<Rightarrow> ('h, u16) cprog" where
  "TcpClientContext_getKeepAliveInterval P c = keepAlive_field P c (\<lambda>b. ucast ((keep_intvl b + 500) div 1000))"

definition TcpClientContext_getKeepAliveCount :: "'h platform \<Rightarrow> addr \<Rightarrow> ('h, u8) cprog" where
  "TcpClientContext_getKeepAliveCount P c = keepAlive_field P c (\<lambda>b. ucast (keep_cnt b))"

definition TcpClientContext_setOnConnectCallback :: "addr \<Rightarrow> void_cb option \<Rightarrow> ('h, unit) cprog" where
  "TcpClientContext_setOnConnectCallback c cb = upd_ctx c (ctx_connectCb_update (\<lambda>_. cb))"

definition TcpClientContext_setOnErrorCallback :: "addr \<Rightarrow> err_cb option \<Rightarrow> ('h, unit) cprog" where
  "TcpClientContext_setOnErrorCallback c cb = upd_ctx c (ctx_errorCb_update (\<lambda>_. cb))"

definition TcpClientContext_setOnAckCallback :: "addr \<Rightarrow> ack_cb option \<Rightarrow> ('h, unit) cprog" where
  "TcpClientContext_setOnAckCallback c cb = upd_ctx c (ctx_ackCb_update (\<lambda>_. cb))"

definition TcpClientContext_setOnWrittenCallback :: "addr \<Rightarrow> user_fn option \<Rightarrow> ('h, unit) cprog" where
  "TcpClientContext_setOnWrittenCallback c cb = upd_ctx c (ctx_writtenCb_update (\<lambda>_. cb))"

definition TcpClientContext_setOnPollCallback :: "addr \<Rightarrow> void_cb option \<Rightarrow> ('h, unit) cprog" where
  "TcpClientContext_setOnPollCallback c cb = upd_ctx c (ctx_pollCb_update (\<lambda>_. cb))"

definition TcpClientContext_setOnFinCallback :: "addr \<Rightarrow> void_cb option \<Rightarrow> ('h, unit) cprog" where
  "TcpClientContext_setOnFinCallback c cb = upd_ctx c (ctx_finCb_update (\<lambda>_. cb))"

definition TcpClientContext_setOnReceivedCallback :: "addr \<Rightarrow> void_cb option \<Rightarrow> ('h, unit) cprog" where
  "TcpClientContext_setOnReceivedCallback c cb = upd_ctx c (ctx_receiveCb_update (\<lambda>_. cb))"

definition TcpClientContext_setClientId :: "addr \<Rightarrow> u8 \<Rightarrow> ('h, unit) cprog" where
  "TcpClientContext_setClientId c i = upd_ctx c (ctx_client_id_update (\<lambda>_. i))"

definition TcpClientContext_getClientId :: "addr \<Rightarrow> ('h, u8) cprog" where
  "TcpClientContext_getClientId c = pbind (get_ctx c) (\<lambda>x. ret (ctx_client_id x))"

definition TcpClientContext_getRxBuffer :: "addr \<Rightarrow> ('h, addr option) cprog" where
  "TcpClientContext_getRxBuffer c = pbind (get_ctx c) (\<lambda>x. ret (ctx_rx x))"

definition TcpClientContext_getTxWriter :: "addr \<Rightarrow> ('h, addr option) cprog" where
  "TcpClientContext_getTxWriter c = pbind (get_ctx c) (\<lambda>x. ret (ctx_tx x))"

section \<open>Helpers of subclasses\<close>

definition TcpClientContext_is_timeout :: "'h platform \<Rightarrow> addr \<Rightarrow> u32 \<Rightarrow> ('h, bool) cprog" where
  "TcpClientContext_is_timeout P c start_time =
     pbind (get_ctx c) (\<lambda>x. gets (\<lambda>w. millis P (net w) - start_time > ctx_timeout_ms x))"

definition TcpClientContext_is_connection_valid :: "'h platform \<Rightarrow> addr \<Rightarrow> ('h, bool) cprog" where
  "TcpClientContext_is_connection_valid P c =
     pbind (get_ctx c) (\<lambda>x.
     if ctx_pcb x = None then ret False
     else pbind (TcpClientContext_state P c) (\<lambda>s. ret (s \<noteq> CLOSED P)))"

text \<open>\<open>1 << scale\<close> is a shift of an \<open>int\<close> and \<open>chunk_size >>= scale\<close> one of a \<open>size_t\<close>.\<close>

definition TcpClientContext_calculate_chunk_size ::
  "'h platform \<Rightarrow> addr \<Rightarrow> size_t \<Rightarrow> cint \<Rightarrow> ('h, size_t) cprog" where
  "TcpClientContext_calculate_chunk_size P c remaining scale =
     pbind (get_ctx c) (\<lambda>x.
     pbind (deref Null_deref (ctx_pcb x)) (\<lambda>p.
     pbind (on_pcb p (gets (\<lambda>w. tcp_sndbuf P p (net w)))) (\<lambda>sbuf.
     let chunk_size = min sbuf remaining in
     pseq (require (0 \<le> sint scale \<and> sint scale < 32) Bad_shift)
    (if chunk_size > push_bit (unat scale) 1 then ret (drop_bit (unat scale) chunk_size)
     else ret chunk_size))))"

definition TcpClientContext_get_write_flags :: "'h platform \<Rightarrow> size_t \<Rightarrow> size_t \<Rightarrow> u8" where
  "TcpClientContext_get_write_flags P chunk_size remaining =
     (let flags = TCP_WRITE_FLAG_COPY P in
      if chunk_size < remaining then flags OR TCP_WRITE_FLAG_MORE P else flags)"

section \<open>Evaluation\<close>

lemma upd_ctx_apply [prog_simps]:
  "upd_ctx c f w = (case contexts w c of None \<Rightarrow> Inl (Dangling_object c)
     | Some x \<Rightarrow> Inr ((), w\<lparr>contexts := (contexts w)(c \<mapsto> f x)\<rparr>))"
  by (simp add: upd_ctx_def prog_simps split: option.splits)

text \<open>The registrations as updates of the PCB.\<close>

definition unregistered :: "tcp_pcb \<Rightarrow> tcp_pcb" where
  "unregistered b = b\<lparr>callback_arg := None, cb_sent := None, cb_recv := None, cb_err := None, cb_poll := None\<rparr>"

lemma reg_contractD:
  assumes "reg_contract P" "pcbs n p = Some b"
  shows "pcbs (tcp_arg P p a n) = (pcbs n)(p \<mapsto> b\<lparr>callback_arg := a\<rparr>)"
    "pcbs (tcp_recv P p f n) = (pcbs n)(p \<mapsto> b\<lparr>cb_recv := f\<rparr>)"
    "pcbs (tcp_sent P p f n) = (pcbs n)(p \<mapsto> b\<lparr>cb_sent := f\<rparr>)"
    "pcbs (tcp_err P p f n) = (pcbs n)(p \<mapsto> b\<lparr>cb_err := f\<rparr>)"
    "pcbs (tcp_poll P p f i n) = (pcbs n)(p \<mapsto> b\<lparr>cb_poll := f\<rparr>)"
    "pbufs (tcp_arg P p a n) = pbufs n" "pbufs (tcp_recv P p f n) = pbufs n"
    "pbufs (tcp_sent P p f n) = pbufs n" "pbufs (tcp_err P p f n) = pbufs n"
    "pbufs (tcp_poll P p f i n) = pbufs n"
  using assms by (simp_all add: reg_contract_def)

section \<open>Construction\<close>

text \<open>
  The five registrations in the constructor's order: lwIP then has the context as argument and
  the library's functions for every event.
\<close>

definition ctx_regs :: "addr \<Rightarrow> addr option \<times> lwip_fn option \<times> lwip_fn option \<times> lwip_fn option \<times> lwip_fn option" where
  "ctx_regs c = (Some c, Some Fn_lwip_receive_callback, Some Fn_lwip_sent_cb, Some Fn_s_error, Some Fn_s_poll)"

definition register_net :: "'h platform \<Rightarrow> addr \<Rightarrow> addr \<Rightarrow> 'h net \<Rightarrow> 'h net" where
  "register_net P p c n =
     tcp_poll P p (Some Fn_s_poll) 1 (tcp_err P p (Some Fn_s_error) (tcp_sent P p (Some Fn_lwip_sent_cb)
       (tcp_recv P p (Some Fn_lwip_receive_callback) (tcp_arg P p (Some c) n))))"

definition register_calls :: "'h platform \<Rightarrow> addr \<Rightarrow> addr \<Rightarrow> ext_call list" where
  "register_calls P p c = [Tcp_setprio p (TCP_PRIO_MIN P), Tcp_arg p (Some c),
     Tcp_recv p (Some Fn_lwip_receive_callback), Tcp_sent p (Some Fn_lwip_sent_cb),
     Tcp_err p (Some Fn_s_error), Tcp_poll p (Some Fn_s_poll) 1]"

lemma register_net_pcbs:
  assumes R: "reg_contract P" and b: "pcbs n p = Some b"
  shows "pcbs (register_net P p c n) = (pcbs n)(p \<mapsto> b\<lparr>callback_arg := Some c,
      cb_recv := Some Fn_lwip_receive_callback, cb_sent := Some Fn_lwip_sent_cb,
      cb_err := Some Fn_s_error, cb_poll := Some Fn_s_poll\<rparr>)"
    and "pbufs (register_net P p c n) = pbufs n"
  using b by (simp_all add: register_net_def reg_contractD [OF R])

text \<open>A context as the constructor leaves it, with its receive buffer and its writer.\<close>

definition fresh_ctx :: "addr \<Rightarrow> addr \<Rightarrow> TcpClientContext" where
  "fresh_ctx p c = (TcpClientContext_init (Some p))\<lparr>ctx_rx := Some (Suc c), ctx_tx := Some (Suc (Suc c))\<rparr>"

definition fresh_rx :: "addr \<Rightarrow> IoRxBuffer" where
  "fresh_rx c = \<lparr>rx_pcb = None, rx_head = None, rx_offset = 0, rx_receivedCb = Some (Ctx_receive c),
     rx_finCb = Some (Ctx_fin c)\<rparr>"

definition fresh_tx :: "addr \<Rightarrow> TcpWriter" where
  "fresh_tx p = \<lparr>tx_pcb = Some p, tx_data = None, tx_acked = 0, tx_queued = 0, tx_total_size = 0,
     tx_write_start_time = 0, tx_last_progress_time = 0, tx_mode = Acked, tx_ack_cb = None\<rparr>"

lemma TcpClientContext_new_run:
  fixes P :: "'h platform"
  assumes O: "open_contract P" and R: "reg_contract P" and b: "pcbs (net w) p \<noteq> None"
  shows "\<exists>N. TcpClientContext_new P p w = Inr (fresh w, w\<lparr>net := N,
      contexts := (contexts w)(fresh w \<mapsto> fresh_ctx p (fresh w)),
      rx_bufs := (rx_bufs w)(Suc (fresh w) \<mapsto> fresh_rx (fresh w)),
      writers := (writers w)(Suc (Suc (fresh w)) \<mapsto> fresh_tx p), fresh := Suc (Suc (Suc (fresh w))),
      calls := calls w @ register_calls P p (fresh w)\<rparr>) \<and>
    pbufs N = pbufs (net w) \<and> (\<exists>b. pcbs N p = Some b \<and> pcb_regs b = ctx_regs (fresh w)) \<and>
    (\<forall>q. q \<noteq> p \<longrightarrow> map_option pcb_regs (pcbs N q) = map_option pcb_regs (pcbs (net w) q))"
proof -
  let ?N1 = "tcp_setprio P p (TCP_PRIO_MIN P) (net w)" and ?c = "fresh w"
  have fr: "net_frame (net w) ?N1" using O b by (simp add: open_contract_def)
  with b net_frame_live [OF fr, of p] obtain b1 where b1: "pcbs ?N1 p = Some b1" by auto
  let ?N = "register_net P p ?c ?N1"
  have "TcpClientContext_new P p w = Inr (fresh w, w\<lparr>net := ?N,
      contexts := (contexts w)(fresh w \<mapsto> fresh_ctx p (fresh w)),
      rx_bufs := (rx_bufs w)(Suc (fresh w) \<mapsto> fresh_rx (fresh w)),
      writers := (writers w)(Suc (Suc (fresh w)) \<mapsto> fresh_tx p), fresh := Suc (Suc (Suc (fresh w))),
      calls := calls w @ register_calls P p (fresh w)\<rparr>)"
    using b b1
    by (auto simp: TcpClientContext_new_def TcpClientContext_initRxBuffer_def
        TcpClientContext_initTxWriter_def IoRxBuffer_new_def TcpWriter_new_def
        IoRxBuffer_setOnFinCallback_def IoRxBuffer_setOnReceivedCallback_def
        TcpWriter_setOnAckCallback_def TcpClientContext_init_def fresh_ctx_def fresh_rx_def fresh_tx_def
        new_defs prog_simps reg_contractD [OF R] register_net_def register_calls_def)
  moreover have "pcbs ?N = (pcbs ?N1)(p \<mapsto> b1\<lparr>callback_arg := Some ?c,
      cb_recv := Some Fn_lwip_receive_callback, cb_sent := Some Fn_lwip_sent_cb,
      cb_err := Some Fn_s_error, cb_poll := Some Fn_s_poll\<rparr>)" "pbufs ?N = pbufs ?N1"
    using register_net_pcbs [OF R b1] by simp_all
  ultimately show ?thesis using fr
    by (intro exI [of _ ?N]) (simp add: net_frame_def pcb_regs_def ctx_regs_def)
qed

section \<open>Ending a connection\<close>

definition unregister_calls :: "addr \<Rightarrow> ext_call list" where
  "unregister_calls p = [Tcp_arg p None, Tcp_sent p None, Tcp_recv p None, Tcp_err p None, Tcp_poll p None 0]"

text \<open>
  \<open>conn_open c p r ps w\<close>: the context \<open>c\<close> has the live PCB \<open>p\<close> and a receive buffer \<open>r\<close> that owns the
  pbufs \<open>ps\<close>.
\<close>

definition conn_open :: "addr \<Rightarrow> addr \<Rightarrow> addr \<Rightarrow> addr list \<Rightarrow> 'h world \<Rightarrow> bool" where
  "conn_open c p r ps w \<longleftrightarrow> pcbs (net w) p \<noteq> None \<and> (\<exists>bs. rx_rep r ps bs w) \<and>
     (case contexts w c of None \<Rightarrow> False | Some x \<Rightarrow> ctx_pcb x = Some p \<and> ctx_rx x = Some r)"

text \<open>
  \<open>conn_ended c p r ps w w'\<close>: between \<open>w\<close> and \<open>w'\<close> the pbufs \<open>ps\<close> have been freed, then every
  registration of \<open>p\<close> has been taken back, then \<open>p\<close> has been closed or aborted; the context has no
  PCB any more, its receive buffer is reset, and nothing else has changed.
\<close>

definition conn_ended :: "addr \<Rightarrow> addr \<Rightarrow> addr \<Rightarrow> addr list \<Rightarrow> 'h world \<Rightarrow> 'h world \<Rightarrow> bool" where
  "conn_ended c p r ps w w' \<longleftrightarrow> (\<exists>x y N fin. contexts w c = Some x \<and> rx_bufs w r = Some y \<and>
     w' = w\<lparr>net := N, rx_bufs := (rx_bufs w)(r \<mapsto> rx_reset_obj y),
       contexts := (contexts w)(c \<mapsto> x\<lparr>ctx_pcb := None\<rparr>),
       calls := calls w @ rx_reset_calls y @ unregister_calls p @ fin\<rparr> \<and>
     pcbs N = (pcbs (net w))(p := None) \<and> pbufs N = pbufs (net w) |` (- set ps) \<and>
     fin \<in> {[Tcp_close p], [Tcp_abort p], [Tcp_close p, Tcp_abort p]})"

lemma conn_endedI:
  "contexts w c = Some x \<Longrightarrow> rx_bufs w r = Some y \<Longrightarrow>
   w' = w\<lparr>net := N, rx_bufs := (rx_bufs w)(r \<mapsto> rx_reset_obj y),
     contexts := (contexts w)(c \<mapsto> x\<lparr>ctx_pcb := None\<rparr>),
     calls := calls w @ rx_reset_calls y @ unregister_calls p @ fin\<rparr> \<Longrightarrow>
   pcbs N = (pcbs (net w))(p := None) \<Longrightarrow> pbufs N = pbufs (net w) |` (- set ps) \<Longrightarrow>
   fin \<in> {[Tcp_close p], [Tcp_abort p], [Tcp_close p, Tcp_abort p]} \<Longrightarrow> conn_ended c p r ps w w'"
  unfolding conn_ended_def by blast

lemma TcpClientContext_detach_run:
  assumes P: "pbuf_contract P" and R: "reg_contract P"
    and rep: "rx_rep r ps bs w" and y: "rx_bufs w r = Some y" and b: "pcbs (net w) p = Some b"
  shows "\<exists>N. TcpClientContext_detach P (Some r) p w = Inr ((), w\<lparr>net := N,
      rx_bufs := (rx_bufs w)(r \<mapsto> rx_reset_obj y),
      calls := calls w @ rx_reset_calls y @ unregister_calls p\<rparr>) \<and>
    pcbs N = (pcbs (net w))(p \<mapsto> unregistered b) \<and> pbufs N = pbufs (net w) |` (- set ps)"
proof -
  from IoRxBuffer_reset_exact [OF P rep y] obtain M where
    M: "IoRxBuffer_reset P r w = Inr ((), w\<lparr>net := M, rx_bufs := (rx_bufs w)(r \<mapsto> rx_reset_obj y),
      calls := calls w @ rx_reset_calls y\<rparr>)"
    "pbufs M = pbufs (net w) |` (- set ps)" "pcbs M = pcbs (net w)" by blast
  let ?N = "tcp_poll P p None 0 (tcp_err P p None (tcp_recv P p None (tcp_sent P p None (tcp_arg P p None M))))"
  from M b show ?thesis
    by (intro exI [of _ ?N])
      (simp add: TcpClientContext_detach_def prog_simps reg_contractD [OF R] unregister_calls_def
        unregistered_def)
qed

lemma conn_openE:
  assumes "conn_open c p r ps w"
  obtains x y b bs where "contexts w c = Some x" "ctx_pcb x = Some p" "ctx_rx x = Some r"
    "rx_bufs w r = Some y" "rx_rep r ps bs w" "pcbs (net w) p = Some b"
  using assms by (auto simp: conn_open_def rx_rep_def split: option.splits)

lemma TcpClientContext_abort_run:
  assumes P: "pbuf_contract P" and R: "reg_contract P" and C: "close_contract P"
    and conn: "conn_open c p r ps w"
  shows "\<exists>w'. TcpClientContext_abort P c w = Inr (ERR_ABRT P, w') \<and> conn_ended c p r ps w w'"
proof -
  from conn obtain x y b bs where x: "contexts w c = Some x" "ctx_pcb x = Some p" "ctx_rx x = Some r"
    and y: "rx_bufs w r = Some y" and rep: "rx_rep r ps bs w" and b: "pcbs (net w) p = Some b"
    by (rule conn_openE)
  from TcpClientContext_detach_run [OF P R rep y b] obtain N where
    N: "TcpClientContext_detach P (Some r) p w = Inr ((), w\<lparr>net := N,
      rx_bufs := (rx_bufs w)(r \<mapsto> rx_reset_obj y), calls := calls w @ rx_reset_calls y @ unregister_calls p\<rparr>)"
    "pcbs N = (pcbs (net w))(p \<mapsto> unregistered b)" "pbufs N = pbufs (net w) |` (- set ps)" by blast
  have "pcbs (tcp_abort P p N) = (pcbs (net w))(p := None)"
    "pbufs (tcp_abort P p N) = pbufs (net w) |` (- set ps)"
    using C N by (simp_all add: close_contract_def)
  with x y N show ?thesis
    by (simp add: TcpClientContext_abort_def prog_simps)
      (rule conn_endedI [where x = x and y = y and N = "tcp_abort P p N" and fin = "[Tcp_abort p]"], simp_all)
qed

lemma TcpClientContext_close_run:
  assumes P: "pbuf_contract P" and R: "reg_contract P" and C: "close_contract P"
    and conn: "conn_open c p r ps w"
  shows "\<exists>e w'. TcpClientContext_close P c w = Inr (e, w') \<and> conn_ended c p r ps w w' \<and>
    (e = ERR_OK P \<or> e = ERR_ABRT P)"
proof -
  from conn obtain x y b bs where x: "contexts w c = Some x" "ctx_pcb x = Some p" "ctx_rx x = Some r"
    and y: "rx_bufs w r = Some y" and rep: "rx_rep r ps bs w" and b: "pcbs (net w) p = Some b"
    by (rule conn_openE)
  from TcpClientContext_detach_run [OF P R rep y b] obtain N where
    N: "TcpClientContext_detach P (Some r) p w = Inr ((), w\<lparr>net := N,
      rx_bufs := (rx_bufs w)(r \<mapsto> rx_reset_obj y), calls := calls w @ rx_reset_calls y @ unregister_calls p\<rparr>)"
    "pcbs N = (pcbs (net w))(p \<mapsto> unregistered b)" "pbufs N = pbufs (net w) |` (- set ps)" by blast
  define E where "E = fst (tcp_close P p N)"
  define M where "M = snd (tcp_close P p N)"
  have M: "pcbs M = (if E = ERR_OK P then (pcbs (net w))(p := None) else pcbs N)"
    "pbufs M = pbufs (net w) |` (- set ps)"
    using C N by (auto simp: close_contract_def E_def M_def)
  show ?thesis
  proof (cases "E = ERR_OK P")
    case True
    with x y N M show ?thesis
      by (simp add: TcpClientContext_close_def prog_simps E_def [symmetric] M_def [symmetric])
        (rule conn_endedI [where x = x and y = y and N = "M" and fin = "[Tcp_close p]"], simp_all)
  next
    case False
    with M N C have A: "pcbs (tcp_abort P p M) = (pcbs (net w))(p := None)"
      "pbufs (tcp_abort P p M) = pbufs (net w) |` (- set ps)"
      by (simp_all add: close_contract_def)
    from False x y N M A show ?thesis
      by (simp add: TcpClientContext_close_def prog_simps E_def [symmetric] M_def [symmetric])
        (rule conn_endedI [where x = x and y = y and N = "tcp_abort P p M" and fin = "[Tcp_close p, Tcp_abort p]"], simp_all)
  qed
qed

subsection \<open>The contract of an operation that ends a connection\<close>

text \<open>
  \<open>close\<close> and \<open>abort\<close> keep the same contract: with a PCB the operation ends the connection, without
  one it does nothing and returns a fixed code.
\<close>

locale connection_end =
  fixes finish :: "addr \<Rightarrow> ('h, err_t) cprog" and idle :: err_t and valid :: bool
  assumes ends: "valid \<Longrightarrow> conn_open c p r ps w \<Longrightarrow> \<exists>e w'. finish c w = Inr (e, w') \<and> conn_ended c p r ps w w'"
    and idle_law: "contexts w c = Some x \<Longrightarrow> ctx_pcb x = None \<Longrightarrow> finish c w = Inr (idle, w)"
begin

text \<open>A second call changes nothing.\<close>

lemma finish_twice:
  assumes "valid" "conn_open c p r ps w"
  shows "\<exists>e w'. pbind (finish c) (\<lambda>e. pbind (finish c) (\<lambda>e'. ret (e, e'))) w = Inr ((e, idle), w') \<and>
    conn_ended c p r ps w w'"
proof -
  from ends [OF assms] obtain e w' where w': "finish c w = Inr (e, w')" "conn_ended c p r ps w w'" by blast
  then obtain x where "contexts w' c = Some x" "ctx_pcb x = None" by (auto simp: conn_ended_def)
  with w' idle_law [of w' c x] show ?thesis by (simp add: prog_simps)
qed

text \<open>Whichever operation ends the connection first, the other one then finds nothing to do.\<close>

lemma after_ended:
  assumes "conn_ended c p r ps w w'"
  shows "finish c w' = Inr (idle, w')"
proof -
  from assms obtain x where "contexts w' c = Some x" "ctx_pcb x = None" by (auto simp: conn_ended_def)
  then show ?thesis by (rule idle_law)
qed

text \<open>No PCB that survives refers to the context if only its own PCB did.\<close>

lemma no_reference_left:
  assumes "conn_ended c p r ps w w'"
    and "\<And>q b. pcbs (net w) q = Some b \<Longrightarrow> callback_arg b = Some c \<Longrightarrow> q = p"
  shows "pcbs (net w') q = Some b \<Longrightarrow> callback_arg b \<noteq> Some c"
  using assms by (auto simp: conn_ended_def split: if_splits)

end

definition end_contracts :: "'h platform \<Rightarrow> bool" where
  "end_contracts P \<longleftrightarrow> pbuf_contract P \<and> reg_contract P \<and> close_contract P"

interpretation closing: connection_end "TcpClientContext_close P" "ERR_OK P" "end_contracts P" for P
proof (unfold_locales, goal_cases)
  case (1 c p r ps w)
  with TcpClientContext_close_run [of P c p r ps w] show ?case by (auto simp: end_contracts_def)
next
  case (2 w c x)
  then show ?case by (simp add: TcpClientContext_close_def prog_simps)
qed

interpretation aborting: connection_end "TcpClientContext_abort P" "ERR_ABRT P" "end_contracts P" for P
proof (unfold_locales, goal_cases)
  case (1 c p r ps w)
  with TcpClientContext_abort_run [of P c p r ps w] show ?case by (auto simp: end_contracts_def)
next
  case (2 w c x)
  then show ?case by (simp add: TcpClientContext_abort_def prog_simps)
qed

section \<open>Destruction\<close>

lemma TcpClientContext_delete_run:
  fixes w :: "'h world"
  assumes P: "pbuf_contract P" and x: "contexts w c = Some x" "ctx_rx x = Some r" "ctx_tx x = Some t"
    and rep: "rx_rep r ps bs w" and y: "rx_bufs w r = Some y" and z: "writers w t = Some z"
  shows "\<exists>N. TcpClientContext_delete P c w = Inr ((), w\<lparr>net := N, contexts := (contexts w)(c := None),
      rx_bufs := (rx_bufs w)(r := None), writers := (writers w)(t := None),
      calls := calls w @ rx_reset_calls y\<rparr>) \<and>
    pbufs N = pbufs (net w) |` (- set ps) \<and> pcbs N = pcbs (net w)"
proof -
  from IoRxBuffer_reset_exact [OF P rep y] obtain N where
    N: "IoRxBuffer_reset P r w = Inr ((), w\<lparr>net := N, rx_bufs := (rx_bufs w)(r \<mapsto> rx_reset_obj y),
      calls := calls w @ rx_reset_calls y\<rparr>)" (is "_ = Inr ((), ?w1)")
    "pbufs N = pbufs (net w) |` (- set ps)" "pcbs N = pcbs (net w)" by blast
  have "IoRxBuffer_delete P r ?w1 = Inr ((), ?w1\<lparr>rx_bufs := (rx_bufs w)(r := None)\<rparr>)"
    by (simp add: IoRxBuffer_delete_def IoRxBuffer_reset_def prog_simps)
  with N x z show ?thesis
    by (intro exI [of _ N])
      (simp add: TcpClientContext_delete_def TcpClientContext_cleanupRxBuffer_def
        TcpClientContext_cleanupTxWriter_def TcpWriter_delete_def prog_simps)
qed

section \<open>Keep-alive times\<close>

text \<open>Milliseconds back to seconds: no value of a \<open>uint16_t\<close> is rounded or wraps around in 32 bits.\<close>

lemma keepAlive_seconds: "(ucast ((1000 * ucast (s :: u16) + 500 :: u32) div 1000) :: u16) = s"
proof -
  have s: "unat s < 65536" by (rule unat_u16_less)
  have "unat (1000 * ucast s + 500 :: u32) = 1000 * unat s + 500"
    using s by (simp add: unat_word_ariths)
  then have "unat ((1000 * ucast s + 500 :: u32) div 1000) = unat s"
    by (simp add: unat_div)
  with s have "unat (ucast ((1000 * ucast s + 500 :: u32) div 1000) :: u16) = unat s"
    by (subst unat_ucast_small) simp_all
  then show ?thesis by (simp only: word_unat_eq_iff)
qed

lemma ucast_u8_u32 [simp]: "(ucast (ucast (k :: u8) :: u32) :: u8) = k"
  by (rule bit_word_eqI) (auto simp: bit_simps)

lemma flag_set: "(a OR f) AND f = (f :: u8)"
  by (rule bit_word_eqI) (auto simp: bit_simps)

lemma flag_cleared: "(a AND NOT f) AND f = (0 :: u8)"
  by (simp add: bit_eq_iff bit_simps)

section \<open>Chunk sizes\<close>

lemma uint_nonneg_sint: "0 \<le> sint (x :: 32 word) \<Longrightarrow> uint x = sint x"
proof -
  assume "0 \<le> sint x"
  moreover have "sint x < 2 ^ 31" using sint_lt [of x] by simp
  moreover have "uint x = take_bit 32 (sint x)"
    using uint_lt2p [of x] by (simp add: sint_uint take_bit_signed_take_bit take_bit_int_eq_self)
  ultimately show ?thesis by (simp add: take_bit_int_eq_self)
qed

lemma unat_push_1: "k < 32 \<Longrightarrow> unat (push_bit k 1 :: size_t) = 2 ^ k"
proof -
  assume "k < 32"
  then have "(2 :: nat) ^ k < 2 ^ 32" by (intro power_strict_increasing) simp_all
  then have "unat (of_nat (2 ^ k) :: size_t) = 2 ^ k" by (simp only: unat_of_nat) (simp add: take_bit_nat_eq_self)
  then show ?thesis by (simp add: push_bit_eq_mult)
qed

lemma drop_bit_bounds:
  assumes "k < 32" "push_bit k 1 < (x :: size_t)"
  shows "drop_bit k x \<le> x" "drop_bit k x \<noteq> 0"
proof -
  have u: "unat (drop_bit k x) = unat x div 2 ^ k" unfolding unat_drop_bit_eq by (rule drop_bit_eq_div)
  then show "drop_bit k x \<le> x" by (simp add: word_le_nat_alt)
  have "2 ^ k < unat x" using assms(2) unfolding word_less_nat_alt unat_push_1 [OF assms(1)] .
  then have "0 < unat x div 2 ^ k" by (simp add: div_greater_zero_iff)
  with u show "drop_bit k x \<noteq> 0" by (metis unat_0 less_irrefl)
qed

section \<open>Properties\<close>

text \<open>
  The receive buffer of \<open>sample_rx_world\<close> as part of the connection of a context at address 40, with
  a writer at 60.
\<close>

definition sample_ctx_world :: "size_t world" where
  "sample_ctx_world = sample_rx_world\<lparr>
     contexts := [40 \<mapsto> (TcpClientContext_init (Some 7))\<lparr>ctx_rx := Some 50, ctx_tx := Some 60\<rparr>],
     writers := [60 \<mapsto> fresh_tx 7]\<rparr>"

lemmas sample_ctx_simps = sample_ctx_world_def sample_rx_world_def sample_world_def sample_net_def
  TcpClientContext_init_def

lemma sample_ctx_rep: "rx_rep 50 [1, 2] [20, 30, 40, 50] sample_ctx_world"
  using sample_rx_rep by (subst rx_rep_cong [where w = sample_rx_world]) (simp_all add: sample_ctx_world_def)

lemma sample_ctx_lookup:
  "contexts sample_ctx_world 40 = Some ((TcpClientContext_init (Some 7))\<lparr>ctx_rx := Some 50, ctx_tx := Some 60\<rparr>)"
  "writers sample_ctx_world 60 = Some (fresh_tx 7)" "pcbs (net sample_ctx_world) 7 = Some blank_pcb"
  by (simp_all add: sample_ctx_simps)

lemma sample_conn_open: "conn_open 40 7 50 [1, 2] sample_ctx_world"
  using sample_ctx_rep by (auto simp: conn_open_def sample_ctx_simps)

lemma sample_end_contracts: "end_contracts sample"
  by (simp add: end_contracts_def sample_contracts)

text \<open>
  The constructor on a live PCB returns a context that lwIP knows: the PCB's callback argument is
  the new context and the five callbacks are the library's; the context owns a new, empty receive
  buffer whose two callbacks lead back to it, and a new writer on the same PCB; the writer's ACK
  callback is empty. Other PCBs keep their registrations and no received pbuf is touched.
\<close>

theorem context_new_registers:
  fixes P :: "'h platform"
  assumes "open_contract P" and "reg_contract P" and "pcbs (net w) p \<noteq> None"
  shows "\<exists>c w' b x y z r t. TcpClientContext_new P p w = Inr (c, w') \<and>
    pcbs (net w') p = Some b \<and> pcb_regs b = ctx_regs c \<and>
    (\<forall>q. q \<noteq> p \<longrightarrow> map_option pcb_regs (pcbs (net w') q) = map_option pcb_regs (pcbs (net w) q)) \<and>
    pbufs (net w') = pbufs (net w) \<and>
    contexts w' = (contexts w)(c \<mapsto> x) \<and> ctx_pcb x = Some p \<and> ctx_rx x = Some r \<and> ctx_tx x = Some t \<and>
    rx_bufs w' = (rx_bufs w)(r \<mapsto> y) \<and> rx_rep r [] [] w' \<and>
    rx_finCb y = Some (Ctx_fin c) \<and> rx_receivedCb y = Some (Ctx_receive c) \<and>
    writers w' = (writers w)(t \<mapsto> z) \<and> tx_pcb z = Some p \<and> tx_ack_cb z = None"
proof -
  from TcpClientContext_new_run [OF assms] obtain N b where
    run: "TcpClientContext_new P p w = Inr (fresh w, w\<lparr>net := N,
      contexts := (contexts w)(fresh w \<mapsto> fresh_ctx p (fresh w)),
      rx_bufs := (rx_bufs w)(Suc (fresh w) \<mapsto> fresh_rx (fresh w)),
      writers := (writers w)(Suc (Suc (fresh w)) \<mapsto> fresh_tx p), fresh := Suc (Suc (Suc (fresh w))),
      calls := calls w @ register_calls P p (fresh w)\<rparr>)" (is "_ = Inr (_, ?w')")
    and N: "pbufs N = pbufs (net w)" "pcbs N p = Some b" "pcb_regs b = ctx_regs (fresh w)"
      "\<forall>q. q \<noteq> p \<longrightarrow> map_option pcb_regs (pcbs N q) = map_option pcb_regs (pcbs (net w) q)"
    by blast
  have "rx_rep (Suc (fresh w)) [] [] ?w'"
    by (simp add: rx_rep_def rx_owns_def cursor_ok_def unread_def fresh_rx_def)
  with run N show ?thesis
    by (intro exI [of _ "fresh w"] exI [of _ ?w'] exI [of _ b] exI [of _ "fresh_ctx p (fresh w)"]
        exI [of _ "fresh_rx (fresh w)"] exI [of _ "fresh_tx p"] exI [of _ "Suc (fresh w)"]
        exI [of _ "Suc (Suc (fresh w))"])
      (simp add: fresh_ctx_def TcpClientContext_init_def fresh_rx_def fresh_tx_def)
qed

theorem context_new_registers_witness:
  "\<exists>c w' b. TcpClientContext_new sample 7 (sample_tx_world 1000) = Inr (c, w') \<and>
    pcbs (net w') 7 = Some b \<and> pcb_regs b = ctx_regs c"
  using context_new_registers [OF sample_open_contract sample_reg_contract, of "sample_tx_world 1000" 7]
  by (auto simp: sample_tx_simps)

text \<open>
  C20. \<open>close\<close> on an open connection always ends it, with \<open>ERR_OK\<close> or \<open>ERR_ABRT\<close>: first the pending
  pbufs are freed, all of them and no other, then the callback argument and the four callbacks are
  taken back, then the PCB is closed, and aborted when closing fails. The PCB is gone and the context
  no longer points to it.
\<close>

theorem close_ends_connection:
  assumes "end_contracts P" and "conn_open c p r ps w"
  shows "\<exists>e w'. TcpClientContext_close P c w = Inr (e, w') \<and> conn_ended c p r ps w w' \<and>
    (e = ERR_OK P \<or> e = ERR_ABRT P)"
  using TcpClientContext_close_run [of P c p r ps w] assms by (simp add: end_contracts_def)

theorem close_ends_connection_witness:
  "\<exists>e w'. TcpClientContext_close sample 40 sample_ctx_world = Inr (e, w') \<and>
    conn_ended 40 7 50 [1, 2] sample_ctx_world w' \<and> (e = ERR_OK sample \<or> e = ERR_ABRT sample)"
  by (rule close_ends_connection [OF sample_end_contracts sample_conn_open])

text \<open>
  Ending a connection twice is safe: after \<open>close\<close> or \<open>abort\<close>, a further \<open>close\<close> returns
  \<open>ERR_OK\<close> and a further \<open>abort\<close> returns \<open>ERR_ABRT\<close>, without a call to lwIP and without a change.
\<close>

theorem close_abort_idempotent:
  assumes "end_contracts P" and "conn_open c p r ps w"
    and "TcpClientContext_close P c w = Inr (e, w') \<or> TcpClientContext_abort P c w = Inr (e, w')"
  shows "TcpClientContext_close P c w' = Inr (ERR_OK P, w') \<and>
    TcpClientContext_abort P c w' = Inr (ERR_ABRT P, w')"
proof -
  have "conn_ended c p r ps w w'"
    using assms(3) closing.ends [OF assms(1,2)] aborting.ends [OF assms(1,2)] by auto
  then show ?thesis using closing.after_ended aborting.after_ended by blast
qed

theorem close_abort_idempotent_witness:
  "\<exists>e w'. TcpClientContext_close sample 40 sample_ctx_world = Inr (e, w') \<and>
    TcpClientContext_close sample 40 w' = Inr (ERR_OK sample, w') \<and>
    TcpClientContext_abort sample 40 w' = Inr (ERR_ABRT sample, w')"
proof -
  obtain e w' where "TcpClientContext_close sample 40 sample_ctx_world = Inr (e, w')"
    using closing.ends [OF sample_end_contracts sample_conn_open] by blast
  with close_abort_idempotent [OF sample_end_contracts sample_conn_open] show ?thesis by blast
qed

text \<open>
  The destructor frees the receive buffer with all pbufs it owns, and the writer; it does not
  touch the PCB, so a PCB that still has the context as its callback argument keeps it.
\<close>

theorem context_delete_releases:
  assumes "pbuf_contract P" and "contexts w c = Some x" and "ctx_rx x = Some r" and "ctx_tx x = Some t"
    and "rx_rep r ps bs w" and "writers w t = Some z"
  shows "\<exists>w'. TcpClientContext_delete P c w = Inr ((), w') \<and> contexts w' = (contexts w)(c := None) \<and>
    rx_bufs w' = (rx_bufs w)(r := None) \<and> writers w' = (writers w)(t := None) \<and>
    pbufs (net w') = pbufs (net w) |` (- set ps) \<and> pcbs (net w') = pcbs (net w)"
proof -
  from assms(5) obtain y where "rx_bufs w r = Some y" by (auto simp: rx_rep_def split: option.splits)
  from TcpClientContext_delete_run [OF assms(1-5) this assms(6)] show ?thesis by auto
qed

theorem context_delete_releases_witness:
  "\<exists>w'. TcpClientContext_delete sample 40 sample_ctx_world = Inr ((), w') \<and> contexts w' 40 = None \<and>
    pbufs (net w') = pbufs (net sample_ctx_world) |` (- {1, 2}) \<and> pcbs (net w') 7 = Some blank_pcb"
  using context_delete_releases [OF sample_pbuf_contract sample_ctx_lookup(1) _ _ sample_ctx_rep
      sample_ctx_lookup(2)]
  by (auto simp: sample_ctx_lookup(3))

text \<open>
  C27. Keep-alive settings are read back exactly: after \<open>keepAlive(idle, interval, count)\<close> with three
  nonzero values, keep-alive is enabled and the getters return these values, for every value of
  the parameters' types; with a zero among them it is disabled and the getters return 0.
\<close>

theorem keepAlive_roundtrip:
  fixes P :: "'h platform"
  assumes "contexts w c = Some x" and "ctx_pcb x = Some p" and "pcbs (net w) p \<noteq> None"
    and "SOF_KEEPALIVE P \<noteq> 0"
  shows "\<exists>w'. TcpClientContext_keepAlive P c idle intv count w = Inr ((), w') \<and>
    (let on = idle \<noteq> 0 \<and> intv \<noteq> 0 \<and> count \<noteq> 0 in
     TcpClientContext_isKeepAliveEnabled P c w' = Inr (on, w') \<and>
     TcpClientContext_getKeepAliveIdle P c w' = Inr (if on then idle else 0, w') \<and>
     TcpClientContext_getKeepAliveInterval P c w' = Inr (if on then intv else 0, w') \<and>
     TcpClientContext_getKeepAliveCount P c w' = Inr (if on then count else 0, w'))"
proof -
  from assms(3) obtain b where "pcbs (net w) p = Some b" by auto
  with assms show ?thesis
    by (auto simp: TcpClientContext_keepAlive_def TcpClientContext_isKeepAliveEnabled_def
        TcpClientContext_getKeepAliveIdle_def TcpClientContext_getKeepAliveInterval_def
        TcpClientContext_getKeepAliveCount_def keepAlive_field_def prog_simps flag_set flag_cleared
        keepAlive_seconds)
qed

theorem keepAlive_roundtrip_witness:
  "\<exists>w'. TcpClientContext_keepAlive sample 40 TCP_DEFAULT_KEEP_ALIVE_IDLE_SEC
      TCP_DEFAULT_KEEP_ALIVE_INTERVAL_SEC TCP_DEFAULT_KEEP_ALIVE_COUNT sample_ctx_world = Inr ((), w') \<and>
    TcpClientContext_getKeepAliveIdle sample 40 w' = Inr (7200, w') \<and>
    TcpClientContext_getKeepAliveInterval sample 40 w' = Inr (75, w') \<and>
    TcpClientContext_getKeepAliveCount sample 40 w' = Inr (9, w')"
proof -
  have "SOF_KEEPALIVE sample \<noteq> 0" by (simp add: sample_def)
  then show ?thesis
    using keepAlive_roundtrip [of sample_ctx_world 40 "the (contexts sample_ctx_world 40)" 7 sample 7200 75 9]
    by (auto simp: sample_ctx_simps TCP_DEFAULT_KEEP_ALIVE_IDLE_SEC_def
        TCP_DEFAULT_KEEP_ALIVE_INTERVAL_SEC_def TCP_DEFAULT_KEEP_ALIVE_COUNT_def Let_def)
qed

text \<open>
  C29. The timeout check survives the wrap-around of \<open>millis()\<close>: when \<open>elapsed\<close> milliseconds, less
  than \<open>2^32\<close>, have passed since the start, it says whether \<open>elapsed\<close> exceeds the timeout, also when
  the 32-bit clock has overflowed in between.
\<close>

theorem is_timeout_wraparound:
  assumes "contexts w c = Some x" and "millis P (net w) = of_nat (start + elapsed)" and "elapsed < 2 ^ 32"
  shows "TcpClientContext_is_timeout P c (of_nat start) w = Inr (unat (ctx_timeout_ms x) < elapsed, w)"
proof -
  have "millis P (net w) - of_nat start = (of_nat elapsed :: u32)" using assms(2) by simp
  moreover have "unat (of_nat elapsed :: u32) = elapsed"
    using assms(3) by (simp add: unat_of_nat take_bit_nat_eq_self)
  ultimately show ?thesis
    using assms(1) by (simp add: TcpClientContext_is_timeout_def prog_simps word_less_nat_alt)
qed

theorem is_timeout_wraparound_witness:
  "TcpClientContext_is_timeout sample 40 (of_nat (2 ^ 32 - 6000)) sample_ctx_world =
    Inr (unat (5000 :: u32) < 6000, sample_ctx_world)"
proof -
  have "millis sample (net sample_ctx_world) = of_nat (2 ^ 32 - 6000 + 6000)" by (simp add: sample_def)
  from is_timeout_wraparound [OF sample_ctx_lookup(1) this] show ?thesis
    by (simp add: TcpClientContext_init_def)
qed

text \<open>
  \<open>_calculate_chunk_size\<close> with a valid shift count returns at most what remains and what the
  send buffer takes, and it returns 0 only when one of the two is 0: scaling down never stalls.
\<close>

theorem chunk_size_bounds:
  fixes P :: "'h platform"
  assumes "contexts w c = Some x" and "ctx_pcb x = Some p" and "pcbs (net w) p \<noteq> None"
    and "0 \<le> sint scale" and "sint scale < 32"
  shows "\<exists>k. TcpClientContext_calculate_chunk_size P c remaining scale w = Inr (k, w) \<and>
    k \<le> remaining \<and> k \<le> tcp_sndbuf P p (net w) \<and>
    (k = 0 \<longleftrightarrow> remaining = 0 \<or> tcp_sndbuf P p (net w) = 0)"
proof -
  let ?m = "min (tcp_sndbuf P p (net w)) remaining"
  let ?k = "if ?m > push_bit (unat scale) 1 then drop_bit (unat scale) ?m else ?m"
  have "uint scale = sint scale" using assms(4) by (rule uint_nonneg_sint)
  with assms(4,5) have s: "unat scale < 32" by (simp add: unat_eq_nat_uint)
  have run: "TcpClientContext_calculate_chunk_size P c remaining scale w = Inr (?k, w)"
    using assms by (auto simp: TcpClientContext_calculate_chunk_size_def prog_simps)
  have "?k \<le> ?m" "?k = 0 \<longleftrightarrow> ?m = 0"
    using drop_bit_bounds [OF s, of ?m] by (auto simp del: min_less_iff_conj)
  moreover have "?m = 0 \<longleftrightarrow> remaining = 0 \<or> tcp_sndbuf P p (net w) = 0"
    by (auto simp: min_def word_le_nat_alt unat_eq_0)
  ultimately show ?thesis using run by (intro exI [of _ ?k] conjI) auto
qed

theorem chunk_size_bounds_witness:
  "\<exists>k. TcpClientContext_calculate_chunk_size sample 40 3000 2 sample_ctx_world = Inr (k, sample_ctx_world) \<and>
    k \<le> 3000 \<and> k \<le> tcp_sndbuf sample 7 (net sample_ctx_world) \<and>
    (k = 0 \<longleftrightarrow> (3000 :: size_t) = 0 \<or> tcp_sndbuf sample 7 (net sample_ctx_world) = 0)"
  by (rule chunk_size_bounds [where x = "the (contexts sample_ctx_world 40)"])
    (simp_all add: sample_ctx_simps)

end
