(* ===== verification/Callbacks.thy ===== *)
theory Callbacks
  imports Tcp_Client_Context
begin

text \<open>
  Everything that runs because lwIP reports an event: the C functions registered with lwIP
  (\<open>lwip_receive_callback\<close>, \<open>lwip_sent_cb\<close>, the static trampolines of \<open>TcpClientContext\<close>), the
  \<open>std::function\<close>s they go through, and the handlers of \<open>TcpClient\<close> at the end, which hand the event
  to the bridges the application has installed. A bridge is handed its work and does not run inside
  the callback; it belongs to another library and is a parameter.
\<close>

section \<open>Handlers of the client\<close>

definition run_bridge :: "'h platform \<Rightarrow> addr \<Rightarrow> ('h, unit) cprog" where
  "run_bridge P b = ext (Bridge_run b) (bridge_run P b)"

definition give_workload :: "'h platform \<Rightarrow> addr \<Rightarrow> workload \<Rightarrow> ('h, unit) cprog" where
  "give_workload P b x = ext (Bridge_workload b x) (bridge_workload P b x)"

definition TcpClient_remoteIP :: "'h platform \<Rightarrow> addr \<Rightarrow> ('h, ip_addr) cprog" where
  "TcpClient_remoteIP P cl =
     pbind (get_client cl) (\<lambda>x.
     case cl_ctx x of
       None \<Rightarrow> ret (ip_zero P)
     | Some c \<Rightarrow>
         pbind (TcpClientContext_getRemoteAddress c) (\<lambda>a.
         if a = None then ret (ip_zero P)
         else
           pbind (TcpClientContext_getRemoteAddress c) (\<lambda>a'.
           pbind (deref Null_deref a') (\<lambda>p. pbind (get_pcb p) (\<lambda>b. ret (remote_ip b))))))"

definition TcpClient_onConnectCallback :: "'h platform \<Rightarrow> addr \<Rightarrow> ('h, unit) cprog" where
  "TcpClient_onConnectCallback P cl =
     pbind (TcpClient_remoteIP P cl) (\<lambda>remote_ip.
     pbind (get_client cl) (\<lambda>x. when_some (cl_connected_bridge x) (run_bridge P)))"

definition TcpClient_onFinCallback :: "'h platform \<Rightarrow> addr \<Rightarrow> ('h, unit) cprog" where
  "TcpClient_onFinCallback P cl =
     pbind (get_client cl) (\<lambda>x.
     pseq (when_some (cl_ctx x) (\<lambda>c.
             pbind (TcpClientContext_getTxWriter c) (\<lambda>tx.
             when_some tx (\<lambda>t. TcpWriter_onError t (ERR_CLSD P)))))
    (when_some (cl_fin_bridge x) (\<lambda>b.
       pbind (deref Null_deref (cl_ctx x)) (\<lambda>c.
       pbind (TcpClientContext_getRxBuffer c) (\<lambda>rx.
       pseq (give_workload P b (Work_rx rx)) (run_bridge P b))))))"

definition TcpClient_onErrorCallback :: "'h platform \<Rightarrow> addr \<Rightarrow> err_t \<Rightarrow> ('h, unit) cprog" where
  "TcpClient_onErrorCallback P cl err =
     pbind (get_client cl) (\<lambda>x.
     when_some (cl_error_bridge x) (\<lambda>b. pseq (give_workload P b (Work_err err)) (run_bridge P b)))"

definition TcpClient_onReceiveCallback :: "'h platform \<Rightarrow> addr \<Rightarrow> ('h, unit) cprog" where
  "TcpClient_onReceiveCallback P cl =
     pbind (get_client cl) (\<lambda>x.
     when_some (cl_received_bridge x) (\<lambda>b.
       pbind (deref Null_deref (cl_ctx x)) (\<lambda>c.
       pbind (TcpClientContext_getRxBuffer c) (\<lambda>rx.
       pseq (give_workload P b (Work_rx rx)) (run_bridge P b)))))"

definition TcpClient_onAckCallback :: "'h platform \<Rightarrow> addr \<Rightarrow> addr \<Rightarrow> u16 \<Rightarrow> ('h, unit) cprog" where
  "TcpClient_onAckCallback P cl tpcb len =
     pbind (get_client cl) (\<lambda>x.
     when_some (cl_ack_bridge x) (\<lambda>b. pseq (give_workload P b (Work_len len)) (run_bridge P b)))"

definition TcpClient_onPollCallback :: "'h platform \<Rightarrow> addr \<Rightarrow> ('h, unit) cprog" where
  "TcpClient_onPollCallback P cl =
     pbind (get_client cl) (\<lambda>x. when_some (cl_poll_bridge x) (run_bridge P))"

section \<open>Calls of function objects\<close>

text \<open>The bodies of the lambdas; calling an empty \<open>std::function\<close> is a fault.\<close>

fun call_void :: "'h platform \<Rightarrow> void_cb option \<Rightarrow> ('h, unit) cprog" where
  "call_void P None = fail Bad_function_call"
| "call_void P (Some (Client_connect cl)) = TcpClient_onConnectCallback P cl"
| "call_void P (Some (Client_fin cl)) = TcpClient_onFinCallback P cl"
| "call_void P (Some (Client_receive cl)) = TcpClient_onReceiveCallback P cl"
| "call_void P (Some (Client_poll cl)) = TcpClient_onPollCallback P cl"

fun call_err :: "'h platform \<Rightarrow> err_cb option \<Rightarrow> err_t \<Rightarrow> ('h, unit) cprog" where
  "call_err P None e = fail Bad_function_call"
| "call_err P (Some (Client_error cl)) e = TcpClient_onErrorCallback P cl e"

fun call_ack :: "'h platform \<Rightarrow> ack_cb option \<Rightarrow> addr \<Rightarrow> u16 \<Rightarrow> ('h, unit) cprog" where
  "call_ack P None p len = fail Bad_function_call"
| "call_ack P (Some (Client_ack cl)) p len = TcpClient_onAckCallback P cl p len"

fun call_rx :: "'h platform \<Rightarrow> rx_cb option \<Rightarrow> ('h, unit) cprog" where
  "call_rx P None = fail Bad_function_call"
| "call_rx P (Some (Ctx_fin c)) = pbind (get_ctx c) (\<lambda>x. call_void P (ctx_finCb x))"
| "call_rx P (Some (Ctx_receive c)) = pbind (get_ctx c) (\<lambda>x. call_void P (ctx_receiveCb x))"

section \<open>The receive path\<close>

definition IoRxBuffer_onReceivedCallback :: "'h platform \<Rightarrow> addr \<Rightarrow> ('h, unit) cprog" where
  "IoRxBuffer_onReceivedCallback P r =
     pbind (get_rx r) (\<lambda>x. when_p (rx_receivedCb x \<noteq> None) (call_rx P (rx_receivedCb x)))"

definition IoRxBuffer_onFinCallback :: "'h platform \<Rightarrow> addr \<Rightarrow> ('h, unit) cprog" where
  "IoRxBuffer_onFinCallback P r =
     pbind (get_rx r) (\<lambda>x. when_p (rx_finCb x \<noteq> None) (call_rx P (rx_finCb x)))"

text \<open>New data: appended to the chain, or the first of a new one.\<close>

definition IoRxBuffer_take :: "'h platform \<Rightarrow> addr \<Rightarrow> addr \<Rightarrow> ('h, unit) cprog" where
  "IoRxBuffer_take P r p =
     pbind (get_rx r) (\<lambda>y.
     case rx_head y of
       Some h \<Rightarrow> on_pbuf h (on_pbuf p (ext (Pbuf_cat h p) (pbuf_cat P h p)))
     | None \<Rightarrow> put_rx r (y\<lparr>rx_head := Some p, rx_offset := 0\<rparr>))"

definition lwip_receive_callback ::
  "'h platform \<Rightarrow> addr option \<Rightarrow> addr \<Rightarrow> addr option \<Rightarrow> err_t \<Rightarrow> ('h, err_t) cprog" where
  "lwip_receive_callback P arg tpcb p err =
     pbind (deref Assertion_failed arg) (\<lambda>c.
     pbind (TcpClientContext_getRxBuffer c) (\<lambda>rx_buffer.
     pbind (deref Assertion_failed rx_buffer) (\<lambda>r.
     pbind (get_rx r) (\<lambda>x.
     pseq (put_rx r (x\<lparr>rx_pcb := Some tpcb\<rparr>))
    (if err \<noteq> ERR_OK P then
       pseq (when_some p (\<lambda>q. on_pbuf q (ext (Pbuf_free q) (pbuf_free P q)))) (ret err)
     else
       case p of
         None \<Rightarrow> pseq (IoRxBuffer_onFinCallback P r) (ret (ERR_ABRT P))
       | Some q \<Rightarrow>
           pseq (IoRxBuffer_take P r q)
          (pseq (IoRxBuffer_onReceivedCallback P r)
                (ret (ERR_OK P))))))))"

section \<open>The send path\<close>

definition lwip_sent_cb :: "'h platform \<Rightarrow> addr option \<Rightarrow> addr \<Rightarrow> u16 \<Rightarrow> ('h, err_t) cprog" where
  "lwip_sent_cb P arg tpcb len =
     pbind (deref Null_deref arg) (\<lambda>c.
     pbind (TcpClientContext_getTxWriter c) (\<lambda>tx.
     pbind (deref Assertion_failed tx) (\<lambda>t.
     pseq (TcpWriter_onAckCallback t tpcb len)
          (ret (ERR_OK P)))))"

text \<open>
  \<open>writeChunk\<close> of the context. The Pico code passed to \<open>_errorCb\<close> and the length passed to
  \<open>tcp_write\<close> are converted to the narrower parameter types.
\<close>

definition TcpClientContext_writeChunk :: "'h platform \<Rightarrow> addr \<Rightarrow> u8 list option \<Rightarrow> size_t \<Rightarrow> ('h, unit) cprog" where
  "TcpClientContext_writeChunk P c data sz =
     pbind (get_ctx c) (\<lambda>x.
     case ctx_pcb x of
       None \<Rightarrow> call_err P (ctx_errorCb x) (ERR_CONN P)
     | Some p \<Rightarrow>
         (case data of
            None \<Rightarrow> call_err P (ctx_errorCb x) (ucast (PICO_ERROR_INVALID_ARG P))
          | Some d \<Rightarrow>
              if sz = 0 then call_err P (ctx_errorCb x) (ucast (PICO_ERROR_INVALID_ARG P))
              else
                pbind (on_pcb p (gets (\<lambda>w. tcp_sndbuf P p (net w)))) (\<lambda>sbuf.
                let chunk_size = min sbuf sz in
                if chunk_size = 0 then call_err P (ctx_errorCb x) (ERR_MEM P)
                else
                  let len = unat (ucast chunk_size :: u16) in
                  pseq (require (len \<le> length d) Out_of_bounds)
                 (pbind (on_pcb p (ext_val (Tcp_write p (take len d) 0) (tcp_write P p (take len d) 0))) (\<lambda>err.
                  if err \<noteq> ERR_OK P then call_err P (ctx_errorCb x) err
                  else on_pcb p (ext (Tcp_output p) (tcp_output P p)))))))"

section \<open>The other events\<close>

definition TcpClientContext_error :: "'h platform \<Rightarrow> addr \<Rightarrow> err_t \<Rightarrow> ('h, unit) cprog" where
  "TcpClientContext_error P c err = pbind (get_ctx c) (\<lambda>x. call_err P (ctx_errorCb x) err)"

definition TcpClientContext_fin :: "'h platform \<Rightarrow> addr \<Rightarrow> ('h, unit) cprog" where
  "TcpClientContext_fin P c =
     pbind (get_ctx c) (\<lambda>x. when_p (ctx_finCb x \<noteq> None) (call_void P (ctx_finCb x)))"

definition TcpClientContext_recv :: "'h platform \<Rightarrow> addr \<Rightarrow> ('h, unit) cprog" where
  "TcpClientContext_recv P c =
     pbind (get_ctx c) (\<lambda>x. when_p (ctx_receiveCb x \<noteq> None) (call_void P (ctx_receiveCb x)))"

definition TcpClientContext_connected :: "'h platform \<Rightarrow> addr \<Rightarrow> addr \<Rightarrow> err_t \<Rightarrow> ('h, err_t) cprog" where
  "TcpClientContext_connected P c pcb err =
     pbind (get_ctx c) (\<lambda>x.
     pseq (require (Some pcb = ctx_pcb x) Assertion_failed)
    (pseq (call_void P (ctx_connectCb x))
          (ret (ERR_OK P))))"

definition TcpClientContext_poll :: "'h platform \<Rightarrow> addr \<Rightarrow> addr \<Rightarrow> ('h, err_t) cprog" where
  "TcpClientContext_poll P c pcb =
     pbind (get_ctx c) (\<lambda>x.
     pseq (when_p (ctx_pollCb x \<noteq> None) (call_void P (ctx_pollCb x)))
          (ret (ERR_OK P)))"

definition TcpClientContext_s_error :: "'h platform \<Rightarrow> addr option \<Rightarrow> err_t \<Rightarrow> ('h, unit) cprog" where
  "TcpClientContext_s_error P arg err = when_some arg (\<lambda>c. TcpClientContext_error P c err)"

definition TcpClientContext_s_poll :: "'h platform \<Rightarrow> addr option \<Rightarrow> addr \<Rightarrow> ('h, err_t) cprog" where
  "TcpClientContext_s_poll P arg tpcb =
     (case arg of None \<Rightarrow> ret (ERR_OK P) | Some c \<Rightarrow> TcpClientContext_poll P c tpcb)"

definition TcpClientContext_s_connected :: "'h platform \<Rightarrow> addr option \<Rightarrow> addr \<Rightarrow> err_t \<Rightarrow> ('h, err_t) cprog" where
  "TcpClientContext_s_connected P arg pcb err =
     (case arg of None \<Rightarrow> ret (ERR_OK P) | Some c \<Rightarrow> TcpClientContext_connected P c pcb err)"

section \<open>Notifying the application\<close>

text \<open>
  What a handler of the client does to the state: the bridge \<open>b\<close>, if installed, is given the
  workload, if any, and is run.
\<close>

definition notify_net :: "'h platform \<Rightarrow> addr option \<Rightarrow> workload option \<Rightarrow> 'h net \<Rightarrow> 'h net" where
  "notify_net P b x n = (case b of None \<Rightarrow> n | Some a \<Rightarrow>
     bridge_run P a (case x of None \<Rightarrow> n | Some l \<Rightarrow> bridge_workload P a l n))"

definition notify_calls :: "addr option \<Rightarrow> workload option \<Rightarrow> ext_call list" where
  "notify_calls b x = (case b of None \<Rightarrow> [] | Some a \<Rightarrow>
     (case x of None \<Rightarrow> [] | Some l \<Rightarrow> [Bridge_workload a l]) @ [Bridge_run a])"

definition notified :: "'h platform \<Rightarrow> addr option \<Rightarrow> workload option \<Rightarrow> 'h world \<Rightarrow> 'h world" where
  "notified P b x w = w\<lparr>net := notify_net P b x (net w), calls := calls w @ notify_calls b x\<rparr>"

lemma notified_simps [simp]:
  "clients (notified P b x w) = clients w" "contexts (notified P b x w) = contexts w"
  "rx_bufs (notified P b x w) = rx_bufs w" "writers (notified P b x w) = writers w"
  "calls (notified P b x w) = calls w @ notify_calls b x" "fresh (notified P b x w) = fresh w"
  "net (notified P b x w) = notify_net P b x (net w)"
  by (simp_all add: notified_def)

lemma notify_frame: "bridge_contract P \<Longrightarrow> net_frame n (notify_net P b x n)"
proof (cases b)
  case None
  then show ?thesis by (simp add: notify_net_def)
next
  case (Some a)
  assume B: "bridge_contract P"
  then have run: "net_frame m (bridge_run P a m)" for m by (simp add: bridge_contract_def)
  show ?thesis
  proof (cases x)
    case None
    with Some run show ?thesis by (simp add: notify_net_def)
  next
    case (Some l)
    have "net_frame n (bridge_workload P a l n)" using B by (simp add: bridge_contract_def)
    with run [of "bridge_workload P a l n"] Some \<open>b = Some a\<close> show ?thesis
      by (auto simp: notify_net_def elim: net_frame_trans)
  qed
qed

lemma notified_rep: "bridge_contract P \<Longrightarrow> rx_rep r ps bs (notified P b x w) = rx_rep r ps bs w"
  using notify_frame [of P "net w" b x] by (intro rx_rep_cong) (simp_all add: net_frame_def)

lemma notify_live: "bridge_contract P \<Longrightarrow> pcbs (notify_net P b x n) p = None \<longleftrightarrow> pcbs n p = None"
  by (rule net_frame_live [OF notify_frame])

lemma notify_work_run [prog_simps]:
  "when_some b (\<lambda>a. pseq (give_workload P a l) (run_bridge P a)) w = Inr ((), notified P b (Some l) w)"
  by (cases b) (simp_all add: give_workload_def run_bridge_def prog_simps notified_def notify_net_def notify_calls_def)

lemma notify_run [prog_simps]: "when_some b (run_bridge P) w = Inr ((), notified P b None w)"
  by (cases b) (simp_all add: run_bridge_def prog_simps notified_def notify_net_def notify_calls_def)

text \<open>
  \<open>conn cl k c x r y t w\<close>: the client \<open>cl\<close> (with fields \<open>k\<close>) has the context \<open>c\<close> (\<open>x\<close>), which has the
  receive buffer \<open>r\<close> (\<open>y\<close>) and the writer \<open>t\<close>, and all callbacks lead back from the buffer to the
  context and from the context to the client.
\<close>

definition wired :: "addr \<Rightarrow> TcpClientContext \<Rightarrow> bool" where
  "wired cl x \<longleftrightarrow> ctx_connectCb x = Some (Client_connect cl) \<and> ctx_errorCb x = Some (Client_error cl) \<and>
     ctx_finCb x = Some (Client_fin cl) \<and> ctx_receiveCb x = Some (Client_receive cl) \<and>
     ctx_pollCb x = Some (Client_poll cl) \<and> ctx_ackCb x = Some (Client_ack cl)"

definition conn ::
  "addr \<Rightarrow> TcpClient \<Rightarrow> addr \<Rightarrow> TcpClientContext \<Rightarrow> addr \<Rightarrow> IoRxBuffer \<Rightarrow> addr \<Rightarrow> 'h world \<Rightarrow> bool" where
  "conn cl k c x r y t w \<longleftrightarrow> clients w cl = Some k \<and> cl_ctx k = Some c \<and> contexts w c = Some x \<and>
     wired cl x \<and> ctx_rx x = Some r \<and> ctx_tx x = Some t \<and> rx_bufs w r = Some y \<and>
     rx_finCb y = Some (Ctx_fin c) \<and> rx_receivedCb y = Some (Ctx_receive c)"

lemmas conn_simps = conn_def wired_def

lemma TcpClient_onReceiveCallback_run:
  assumes "clients w cl = Some k" "cl_ctx k = Some c" "contexts w c = Some x"
  shows "TcpClient_onReceiveCallback P cl w =
    Inr ((), notified P (cl_received_bridge k) (Some (Work_rx (ctx_rx x))) w)"
  using assms
  by (cases "cl_received_bridge k")
    (simp_all add: TcpClient_onReceiveCallback_def TcpClientContext_getRxBuffer_def prog_simps
      give_workload_def run_bridge_def notified_def notify_net_def notify_calls_def)

lemma TcpClient_onFinCallback_run:
  assumes "clients w cl = Some k" "cl_ctx k = Some c" "contexts w c = Some x"
  shows "TcpClient_onFinCallback P cl w =
    Inr ((), notified P (cl_fin_bridge k) (Some (Work_rx (ctx_rx x))) w)"
  using assms
  by (cases "cl_fin_bridge k"; cases "ctx_tx x")
    (simp_all add: TcpClient_onFinCallback_def TcpClientContext_getRxBuffer_def
      TcpClientContext_getTxWriter_def TcpWriter_onError_def prog_simps
      give_workload_def run_bridge_def notified_def notify_net_def notify_calls_def)

lemma TcpClient_onErrorCallback_run:
  assumes "clients w cl = Some k"
  shows "TcpClient_onErrorCallback P cl e w = Inr ((), notified P (cl_error_bridge k) (Some (Work_err e)) w)"
  using assms by (simp add: TcpClient_onErrorCallback_def pbind_Inr lookup_obj_def notify_work_run)

section \<open>Arriving data\<close>

text \<open>A chain of good pbufs that the buffer does not own yet.\<close>

definition arrived :: "(addr \<rightharpoonup> pbuf) \<Rightarrow> addr list \<Rightarrow> addr \<Rightarrow> addr list \<Rightarrow> bool" where
  "arrived h ps q qs \<longleftrightarrow> chain h (Some q) qs \<and> distinct qs \<and> set ps \<inter> set qs = {} \<and>
     (\<forall>a \<in> set qs. case h a of None \<Rightarrow> False | Some b \<Rightarrow> pbuf_good b)"

definition bytes_of :: "(addr \<rightharpoonup> pbuf) \<Rightarrow> addr list \<Rightarrow> u8 list" where
  "bytes_of h qs = concat (map (payload_at h) qs)"

lemma IoRxBuffer_take_empty:
  assumes rep: "rx_rep r [] bs w" and y: "rx_bufs w r = Some y" and arr: "arrived (pbufs (net w)) [] q qs"
  defines "w' \<equiv> w\<lparr>rx_bufs := (rx_bufs w)(r \<mapsto> y\<lparr>rx_head := Some q, rx_offset := 0\<rparr>)\<rparr>"
  shows "IoRxBuffer_take P r q w = Inr ((), w')" "rx_rep r qs (bs @ bytes_of (pbufs (net w)) qs) w'"
proof -
  have hd: "rx_head y = None" and bs: "bs = []"
    using rep y by (auto simp: rx_rep_def rx_owns_def unread_def split: option.splits)
  with y show "IoRxBuffer_take P r q w = Inr ((), w')"
    by (simp add: IoRxBuffer_take_def prog_simps w'_def)
  have own: "rx_owns r (y\<lparr>rx_head := Some q, rx_offset := 0\<rparr>) qs w'"
    using arr by (simp add: rx_owns_def arrived_def w'_def)
  show "rx_rep r qs (bs @ bytes_of (pbufs (net w)) qs) w'"
    using bs by (intro rx_repI [OF own]) (simp_all add: unread_def bytes_of_def w'_def)
qed

lemma payload_at_next: "h l = Some b \<Longrightarrow> payload_at (h(l \<mapsto> b\<lparr>p_next := n\<rparr>)) = payload_at h"
  by (rule ext) (simp add: payload_at_def)

lemma IoRxBuffer_take_append:
  fixes P :: "'h platform" and b :: pbuf
  assumes P: "pbuf_contract P" and rep: "rx_rep r ps bs w" and ps: "ps \<noteq> []"
    and y: "rx_bufs w r = Some y" and arr: "arrived (pbufs (net w)) ps q qs"
  shows "\<exists>h N. IoRxBuffer_take P r q w = Inr ((), w\<lparr>net := N, calls := calls w @ [Pbuf_cat h q]\<rparr>) \<and>
    pcbs N = pcbs (net w) \<and> payload_at (pbufs N) = payload_at (pbufs (net w)) \<and>
    (\<forall>a. a \<notin> set ps \<longrightarrow> pbufs N a = pbufs (net w) a) \<and>
    rx_rep r (ps @ qs) (bs @ bytes_of (pbufs (net w)) qs) (w\<lparr>net := N, calls := calls w @ [Pbuf_cat h q]\<rparr>)"
proof -
  let ?h = "pbufs (net w)"
  from ps obtain p0 rest where p0: "ps = p0 # rest" by (cases ps) auto
  from rep have own: "rx_owns r y ps w" and cur: "cursor_ok (rx_offset y) ps ?h"
    and bs: "bs = unread (rx_offset y) ps ?h"
    using y by (auto simp: rx_rep_def)
  have ch: "chain ?h (Some p0) ps" and hd: "rx_head y = Some p0" and dist: "distinct ps"
    using own rx_owns_head [OF own] p0 by (auto simp: rx_owns_def)
  from own last_in_set [OF ps] obtain b where b: "?h (last ps) = Some b" by (rule rx_owns_good)
  define N where "N = pbuf_cat P p0 q (net w)"
  have N: "pbufs N = ?h(last ps \<mapsto> b\<lparr>p_next := Some q\<rparr>)" "pcbs N = pcbs (net w)"
    using pbuf_contractD(5,6) [OF P ch b] by (simp_all add: N_def)
  let ?w' = "w\<lparr>net := N, calls := calls w @ [Pbuf_cat p0 q]\<rparr>"
  have pay: "payload_at (pbufs N) = payload_at ?h" unfolding N using b by (rule payload_at_next)
  from arr obtain c where c: "?h q = Some c" by (auto simp: arrived_def chain_Some)
  from chain_mapped [OF ch, of p0] p0 obtain b0 where "?h p0 = Some b0" by auto
  then have run: "IoRxBuffer_take P r q w = Inr ((), ?w')"
    using y hd c by (simp add: IoRxBuffer_take_def prog_simps N_def)
  have "chain (pbufs N) (Some p0) (ps @ qs)"
    unfolding N using arr by (intro chain_append_last ch ps dist b) (simp_all add: arrived_def)
  moreover have "case pbufs N a of None \<Rightarrow> False | Some d \<Rightarrow> pbuf_good d" if "a \<in> set (ps @ qs)" for a
    using that own arr b by (auto simp: N rx_owns_def arrived_def pbuf_good_def split: option.splits)
  ultimately have "rx_owns r y (ps @ qs) ?w'"
    using y hd dist arr by (auto simp: rx_owns_def arrived_def)
  moreover have "cursor_ok (rx_offset y) (ps @ qs) (pbufs N)"
    using cur p0 pay by (simp add: cursor_ok_def)
  moreover have "bs @ bytes_of ?h qs = unread (rx_offset y) (ps @ qs) (pbufs N)"
    using cur p0 unfolding bs unread_def bytes_of_def pay by (auto simp: cursor_ok_def)
  ultimately have "rx_rep r (ps @ qs) (bs @ bytes_of ?h qs) ?w'"
    by (intro rx_repI) simp_all
  with run N pay last_in_set [OF ps] show ?thesis by (intro exI [of _ p0] exI [of _ N]) auto
qed

lemma IoRxBuffer_take_run:
  fixes P :: "'h platform"
  assumes P: "pbuf_contract P" and rep: "rx_rep r ps bs w" and arr: "arrived (pbufs (net w)) ps q qs"
  shows "\<exists>w'. IoRxBuffer_take P r q w = Inr ((), w') \<and> rx_frame r w w' \<and>
    rx_rep r (ps @ qs) (bs @ bytes_of (pbufs (net w)) qs) w' \<and>
    payload_at (pbufs (net w')) = payload_at (pbufs (net w)) \<and>
    (\<forall>a. a \<notin> set ps \<longrightarrow> pbufs (net w') a = pbufs (net w) a)"
proof -
  from rep obtain y where y: "rx_bufs w r = Some y" by (auto simp: rx_rep_def split: option.splits)
  show ?thesis
  proof (cases "ps = []")
    case True
    let ?w' = "w\<lparr>rx_bufs := (rx_bufs w)(r \<mapsto> y\<lparr>rx_head := Some q, rx_offset := 0\<rparr>)\<rparr>"
    have "rx_frame r w ?w'"
      unfolding rx_frame_def using y
      by (intro exI [of _ "net w"] exI [of _ y] exI [of _ "Some q"] exI [of _ 0] exI [of _ "[]"]) simp
    with IoRxBuffer_take_empty(1) [of r bs w y q qs P] IoRxBuffer_take_empty(2) [of r bs w y q qs] rep y arr True show ?thesis
      by (intro exI [of _ ?w']) simp
  next
    case False
    from IoRxBuffer_take_append [OF P rep False y arr] obtain h N where
      run: "IoRxBuffer_take P r q w = Inr ((), w\<lparr>net := N, calls := calls w @ [Pbuf_cat h q]\<rparr>)"
      and N: "pcbs N = pcbs (net w)" "payload_at (pbufs N) = payload_at (pbufs (net w))" "\<forall>a. a \<notin> set ps \<longrightarrow> pbufs N a = pbufs (net w) a"
      and rep': "rx_rep r (ps @ qs) (bs @ bytes_of (pbufs (net w)) qs) (w\<lparr>net := N, calls := calls w @ [Pbuf_cat h q]\<rparr>)"
      by blast
    have "rx_frame r w (w\<lparr>net := N, calls := calls w @ [Pbuf_cat h q]\<rparr>)"
      unfolding rx_frame_def using y N
      by (intro exI [of _ N] exI [of _ y] exI [of _ "rx_head y"] exI [of _ "rx_offset y"] exI [of _ "[Pbuf_cat h q]"])
        (simp add: fun_upd_idem)
    with run N rep' show ?thesis by auto
  qed
qed

text \<open>The callback first stores the PCB, which the contents of the buffer do not depend on.\<close>

definition with_pcb :: "addr \<Rightarrow> IoRxBuffer \<Rightarrow> addr \<Rightarrow> 'h world \<Rightarrow> 'h world" where
  "with_pcb r y p w = w\<lparr>rx_bufs := (rx_bufs w)(r \<mapsto> y\<lparr>rx_pcb := Some p\<rparr>)\<rparr>"

lemma with_pcb_simps [simp]:
  "clients (with_pcb r y p w) = clients w" "contexts (with_pcb r y p w) = contexts w"
  "writers (with_pcb r y p w) = writers w" "net (with_pcb r y p w) = net w"
  "calls (with_pcb r y p w) = calls w" "fresh (with_pcb r y p w) = fresh w"
  "rx_bufs (with_pcb r y p w) = (rx_bufs w)(r \<mapsto> y\<lparr>rx_pcb := Some p\<rparr>)"
  by (simp_all add: with_pcb_def)

lemma with_pcb_rep: "rx_bufs w r = Some y \<Longrightarrow> rx_rep r ps bs (with_pcb r y p w) = rx_rep r ps bs w"
  by (simp add: rx_rep_def rx_owns_def)

lemma lwip_receive_callback_start:
  assumes "conn cl k c x r y t w"
  shows "lwip_receive_callback P (Some c) p (Some q) (ERR_OK P) w =
      pseq (IoRxBuffer_take P r q) (pseq (IoRxBuffer_onReceivedCallback P r) (ret (ERR_OK P))) (with_pcb r y p w)"
    and "lwip_receive_callback P (Some c) p None (ERR_OK P) w =
      pseq (IoRxBuffer_onFinCallback P r) (ret (ERR_ABRT P)) (with_pcb r y p w)"
    and "e \<noteq> ERR_OK P \<Longrightarrow> lwip_receive_callback P (Some c) p pb e w =
      pseq (when_some pb (\<lambda>q. on_pbuf q (ext (Pbuf_free q) (pbuf_free P q)))) (ret e) (with_pcb r y p w)"
  using assms
  by (simp_all add: conn_simps lwip_receive_callback_def TcpClientContext_getRxBuffer_def with_pcb_def
      pbind_apply pseq_apply lookup_obj_def)

lemma IoRxBuffer_take_calls:
  assumes "IoRxBuffer_take P r q w = Inr ((), w')"
  shows "\<exists>cs. calls w' = calls w @ cs \<and> (\<forall>a \<in> set cs. \<exists>h. a = Pbuf_cat h q)"
  using assms by (auto simp: IoRxBuffer_take_def prog_simps split: option.splits)

lemma receive_data_run:
  assumes P: "pbuf_contract P" and C: "conn cl k c x r y t w" and rep: "rx_rep r ps bs w"
    and arr: "arrived (pbufs (net w)) ps q qs"
  shows "\<exists>w1. lwip_receive_callback P (Some c) p (Some q) (ERR_OK P) w =
      Inr (ERR_OK P, notified P (cl_received_bridge k) (Some (Work_rx (Some r))) w1) \<and>
    rx_frame r (with_pcb r y p w) w1 \<and> rx_rep r (ps @ qs) (bs @ bytes_of (pbufs (net w)) qs) w1 \<and>
    payload_at (pbufs (net w1)) = payload_at (pbufs (net w)) \<and> (\<forall>a. a \<notin> set ps \<longrightarrow> pbufs (net w1) a = pbufs (net w) a) \<and>
    (\<exists>cs. calls w1 = calls w @ cs \<and> (\<forall>a \<in> set cs. \<exists>h. a = Pbuf_cat h q))"
proof -
  have y: "rx_bufs w r = Some y" using C by (simp add: conn_def)
  with rep have "rx_rep r ps bs (with_pcb r y p w)" by (simp add: with_pcb_rep)
  from IoRxBuffer_take_run [OF P this, of q qs] arr obtain w1 where
    take: "IoRxBuffer_take P r q (with_pcb r y p w) = Inr ((), w1)" and fr: "rx_frame r (with_pcb r y p w) w1"
    and rep1: "rx_rep r (ps @ qs) (bs @ bytes_of (pbufs (net w)) qs) w1"
      "payload_at (pbufs (net w1)) = payload_at (pbufs (net w))" "\<forall>a. a \<notin> set ps \<longrightarrow> pbufs (net w1) a = pbufs (net w) a"
    by auto
  from fr C obtain y1 where y1: "rx_bufs w1 r = Some y1" "rx_receivedCb y1 = Some (Ctx_receive c)"
    "clients w1 = clients w" "contexts w1 = contexts w"
    by (auto simp: rx_frame_def conn_def)
  then have "IoRxBuffer_onReceivedCallback P r w1 =
      Inr ((), notified P (cl_received_bridge k) (Some (Work_rx (Some r))) w1)"
    using C TcpClient_onReceiveCallback_run [of w1 cl k c x P]
    by (simp add: IoRxBuffer_onReceivedCallback_def prog_simps conn_simps)
  with take lwip_receive_callback_start(1) [OF C, of P p q] rep1 fr IoRxBuffer_take_calls [OF take]
  show ?thesis by (intro exI [of _ w1]) (simp add: pseq_apply)
qed

lemma receive_fin_run:
  assumes C: "conn cl k c x r y t w"
  shows "lwip_receive_callback P (Some c) p None (ERR_OK P) w =
    Inr (ERR_ABRT P, notified P (cl_fin_bridge k) (Some (Work_rx (Some r))) (with_pcb r y p w))"
proof -
  have "IoRxBuffer_onFinCallback P r (with_pcb r y p w) =
      Inr ((), notified P (cl_fin_bridge k) (Some (Work_rx (Some r))) (with_pcb r y p w))"
    using C TcpClient_onFinCallback_run [of "with_pcb r y p w" cl k c x P]
    by (simp add: IoRxBuffer_onFinCallback_def prog_simps conn_simps)
  with lwip_receive_callback_start(2) [OF C] show ?thesis by (simp add: pseq_apply)
qed

lemma pbuf_free_arrived:
  assumes P: "pbuf_contract P" and arr: "arrived (pbufs n) ps q qs"
  shows "pbufs (pbuf_free P q n) = pbufs n |` (- set qs)" "pcbs (pbuf_free P q n) = pcbs n"
proof -
  have "pbuf_freed (pbufs n) q (\<lambda>a. if a \<in> set qs then None else pbufs n a)"
    using arr by (intro pbuf_freed_chain) (auto simp: arrived_def pbuf_good_def split: option.splits)
  moreover have "(\<lambda>a. if a \<in> set qs then None else pbufs n a) = pbufs n |` (- set qs)"
    by (auto simp: restrict_map_def)
  ultimately have "pbuf_freed (pbufs n) q (pbufs n |` (- set qs))" by (simp only:)
  with pbuf_contractD(1,2) [OF P] show "pbufs (pbuf_free P q n) = pbufs n |` (- set qs)"
    "pcbs (pbuf_free P q n) = pcbs n" by blast+
qed

section \<open>Several segments\<close>

text \<open>The callback once per segment, in order.\<close>

primrec deliver_all :: "'h platform \<Rightarrow> addr \<Rightarrow> addr \<Rightarrow> addr list \<Rightarrow> ('h, unit) cprog" where
  "deliver_all P c p [] = ret ()"
| "deliver_all P c p (q # segs) =
     pbind (lwip_receive_callback P (Some c) p (Some q) (ERR_OK P)) (\<lambda>_. deliver_all P c p segs)"

text \<open>Segments, each the first pbuf and its chain, that are disjoint from \<open>ps\<close> and from each other.\<close>

primrec all_arrived :: "(addr \<rightharpoonup> pbuf) \<Rightarrow> addr list \<Rightarrow> (addr \<times> addr list) list \<Rightarrow> bool" where
  "all_arrived h ps [] \<longleftrightarrow> True"
| "all_arrived h ps (s # segs) \<longleftrightarrow> arrived h ps (fst s) (snd s) \<and> all_arrived h (ps @ snd s) segs"

lemma arrived_cong:
  assumes "\<And>a. a \<in> set qs \<Longrightarrow> h' a = h a"
  shows "arrived h' ps q qs = arrived h ps q qs" "bytes_of h' qs = bytes_of h qs"
proof -
  have "chain h' (Some q) qs = chain h (Some q) qs" by (rule chain_cong) (simp add: assms)
  then show "arrived h' ps q qs = arrived h ps q qs" using assms by (auto simp: arrived_def)
  show "bytes_of h' qs = bytes_of h qs"
    unfolding bytes_of_def by (intro arg_cong [where f = concat] map_cong) (simp_all add: payload_at_def assms)
qed

lemma all_arrived_cong:
  assumes "all_arrived h qs segs" "set ps \<subseteq> set qs" "\<And>a. a \<notin> set ps \<Longrightarrow> h' a = h a"
  shows "all_arrived h' qs segs \<and> map (\<lambda>s. bytes_of h' (snd s)) segs = map (\<lambda>s. bytes_of h (snd s)) segs"
  using assms
proof (induction segs arbitrary: qs)
  case (Cons s segs)
  have eq: "h' a = h a" if "a \<in> set (snd s)" for a
    using that Cons.prems by (auto simp: arrived_def)
  have "all_arrived h' (qs @ snd s) segs \<and> map (\<lambda>s. bytes_of h' (snd s)) segs = map (\<lambda>s. bytes_of h (snd s)) segs"
    using Cons.prems by (intro Cons.IH) auto
  moreover have "arrived h' qs (fst s) (snd s)" "bytes_of h' (snd s) = bytes_of h (snd s)"
    using arrived_cong [of "snd s" h' h] eq Cons.prems(1) by simp_all
  ultimately show ?case by simp
qed simp

lemma conn_frame:
  assumes "conn cl k c x r y t w" "rx_frame r (with_pcb r y p w) w1"
  shows "\<exists>y1. conn cl k c x r y1 t (notified P b l w1) \<and> rx_pcb y1 = Some p"
  using assms by (auto simp: rx_frame_def conn_def)

lemma deliver_all_run:
  fixes P :: "'h platform"
  assumes P: "pbuf_contract P" and B: "bridge_contract P"
    and C: "conn cl k c x r y t w" and rep: "rx_rep r ps bs w"
    and live: "rx_pcb_live r w" "pcbs (net w) p \<noteq> None"
    and arr: "all_arrived (pbufs (net w)) ps segs"
  shows "\<exists>w' y'. deliver_all P c p (map fst segs) w = Inr ((), w') \<and> conn cl k c x r y' t w' \<and>
    rx_pcb_live r w' \<and> rx_rep r (ps @ concat (map snd segs))
      (bs @ concat (map (\<lambda>s. bytes_of (pbufs (net w)) (snd s)) segs)) w' \<and>
    payload_at (pbufs (net w')) = payload_at (pbufs (net w))"
  using C rep live arr
proof (induction segs arbitrary: w y ps bs)
  case Nil
  then show ?case by auto
next
  case (Cons s segs)
  let ?h = "pbufs (net w)"
  have arr: "arrived ?h ps (fst s) (snd s)" "all_arrived ?h (ps @ snd s) segs" using Cons.prems by simp_all
  from receive_data_run [OF P Cons.prems(1,2) arr(1), of p] obtain w1 where
    run: "lwip_receive_callback P (Some c) p (Some (fst s)) (ERR_OK P) w =
      Inr (ERR_OK P, notified P (cl_received_bridge k) (Some (Work_rx (Some r))) w1)" (is "_ = Inr (_, ?w1)")
    and fr: "rx_frame r (with_pcb r y p w) w1"
    and rep1: "rx_rep r (ps @ snd s) (bs @ bytes_of ?h (snd s)) w1"
    and h1: "\<forall>a. a \<notin> set ps \<longrightarrow> pbufs (net w1) a = ?h a" and pay: "payload_at (pbufs (net w1)) = payload_at ?h"
    by blast
  from conn_frame [OF Cons.prems(1) fr] obtain y1 where
    y1: "conn cl k c x r y1 t ?w1" "rx_pcb y1 = Some p" by blast
  have nf: "net_frame (net w1) (net ?w1)" using notify_frame [OF B] by simp
  then have h2: "pbufs (net ?w1) a = ?h a" if "a \<notin> set ps" for a using h1 that by (simp add: net_frame_def)
  have "pcbs (net w1) p \<noteq> None" using fr Cons.prems(4) by (auto simp: rx_frame_def)
  then have live: "pcbs (net ?w1) p \<noteq> None" using net_frame_live [OF nf, of p] by simp
  then have rl: "rx_pcb_live r ?w1" using y1 by (simp add: rx_pcb_live_def rx_pcb_of_def conn_def)
  from all_arrived_cong [OF arr(2) _ h2] have
    arr2: "all_arrived (pbufs (net ?w1)) (ps @ snd s) segs"
      "map (\<lambda>s. bytes_of (pbufs (net ?w1)) (snd s)) segs = map (\<lambda>s. bytes_of ?h (snd s)) segs" by auto
  have rep2: "rx_rep r (ps @ snd s) (bs @ bytes_of ?h (snd s)) ?w1" using rep1 notified_rep [OF B] by blast
  have "payload_at (pbufs (net ?w1)) = payload_at ?h" using pay nf by (simp add: net_frame_def)
  with Cons.IH [OF y1(1) rep2 rl live arr2(1)] run show ?case unfolding arr2(2)
    by (auto simp: prog_simps)
qed

section \<open>The remaining events\<close>

lemma connected_run:
  fixes P :: "'h platform"
  assumes "conn cl k c x r y t w" "ctx_pcb x = Some p" "pcbs (net w) p \<noteq> None"
  shows "TcpClientContext_s_connected P (Some c) p e w =
    Inr (ERR_OK P, notified P (cl_connected_bridge k) None w)"
proof -
  from assms(3) obtain b where "pcbs (net w) p = Some b" by auto
  with assms(1,2) have "TcpClient_onConnectCallback P cl w = Inr ((), notified P (cl_connected_bridge k) None w)"
    by (simp add: conn_simps TcpClient_onConnectCallback_def TcpClient_remoteIP_def notify_run
        TcpClientContext_getRemoteAddress_def pbind_apply lookup_obj_def get_pcb_def)
  with assms(1,2) show ?thesis
    by (simp add: conn_simps TcpClientContext_s_connected_def TcpClientContext_connected_def pbind_apply
        pseq_apply lookup_obj_def)
qed

lemma poll_run:
  assumes "conn cl k c x r y t w"
  shows "TcpClientContext_s_poll P (Some c) p w = Inr (ERR_OK P, notified P (cl_poll_bridge k) None w)"
  using assms
  by (simp add: conn_simps TcpClientContext_s_poll_def TcpClientContext_poll_def TcpClient_onPollCallback_def
      notify_run pbind_apply pseq_apply lookup_obj_def)

lemma error_run:
  assumes "conn cl k c x r y t w"
  shows "TcpClientContext_s_error P (Some c) e w = Inr ((), notified P (cl_error_bridge k) (Some (Work_err e)) w)"
  using assms TcpClient_onErrorCallback_run [of w cl k P e]
  by (simp add: conn_simps TcpClientContext_s_error_def TcpClientContext_error_def pbind_apply lookup_obj_def)

lemma sent_run:
  assumes "conn cl k c x r y t w"
  shows "lwip_sent_cb P (Some c) p len w = Inr (ERR_OK P, w)"
  using assms
  by (simp add: conn_def lwip_sent_cb_def TcpClientContext_getTxWriter_def TcpWriter_onAckCallback_def prog_simps)

section \<open>Properties\<close>

text \<open>
  A connected client at address 30 with bridges for all events: context 40, receive buffer 50 with the
  pbufs 1 and 2, writer 60, PCB 7. The pbufs 3 and 4 have arrived and not been delivered yet.
\<close>

definition sample_ctx :: TcpClientContext where
  "sample_ctx = \<lparr>ctx_pcb = Some 7, ctx_rx = Some 50, ctx_tx = Some 60, ctx_timeout_ms = 5000,
     ctx_finCb = Some (Client_fin 30), ctx_connectCb = Some (Client_connect 30),
     ctx_errorCb = Some (Client_error 30), ctx_receiveCb = Some (Client_receive 30),
     ctx_ackCb = Some (Client_ack 30), ctx_closeCb = None, ctx_writtenCb = None,
     ctx_pollCb = Some (Client_poll 30), ctx_client_id = 0\<rparr>"

definition sample_client :: TcpClient where
  "sample_client = \<lparr>cl_received_bridge = Some 91, cl_connected_bridge = Some 92, cl_fin_bridge = Some 93,
     cl_error_bridge = Some 94, cl_poll_bridge = Some 95, cl_ack_bridge = Some 96, cl_ctx = Some 40,
     cl_sync_accessor = None, cl_client_id = 0, cl_timeout = 5000, cl_write_callback = Some 0\<rparr>"

definition sample_rx :: IoRxBuffer where
  "sample_rx = \<lparr>rx_pcb = Some 7, rx_head = Some 1, rx_offset = 1, rx_receivedCb = Some (Ctx_receive 40),
     rx_finCb = Some (Ctx_fin 40)\<rparr>"

definition sample_pcb :: tcp_pcb where
  "sample_pcb = blank_pcb\<lparr>pcb_state := 4, callback_arg := Some 40, cb_recv := Some Fn_lwip_receive_callback,
     cb_sent := Some Fn_lwip_sent_cb, cb_err := Some Fn_s_error, cb_poll := Some Fn_s_poll\<rparr>"

definition sample_conn_world :: "size_t world" where
  "sample_conn_world = (sample_world (sample_net
       [1 \<mapsto> \<lparr>p_next = Some 2, p_payload = [10, 20, 30], p_len = 3, p_ref = 1\<rparr>,
        2 \<mapsto> \<lparr>p_next = None, p_payload = [40, 50], p_len = 2, p_ref = 1\<rparr>,
        3 \<mapsto> \<lparr>p_next = Some 4, p_payload = [60], p_len = 1, p_ref = 1\<rparr>,
        4 \<mapsto> \<lparr>p_next = None, p_payload = [70], p_len = 1, p_ref = 1\<rparr>]
       [7 \<mapsto> sample_pcb] 1000))
     \<lparr>clients := [30 \<mapsto> sample_client], contexts := [40 \<mapsto> sample_ctx], rx_bufs := [50 \<mapsto> sample_rx],
      writers := [60 \<mapsto> fresh_tx 7]\<rparr>"

lemmas sample_conn_simps = sample_conn_world_def sample_world_def sample_net_def sample_ctx_def
  sample_client_def sample_rx_def

lemma sample_conn: "conn 30 sample_client 40 sample_ctx 50 sample_rx 60 sample_conn_world"
  by (simp add: conn_simps sample_conn_simps)

lemma sample_conn_rep: "rx_rep 50 [1, 2] [20, 30, 40, 50] sample_conn_world"
  by (simp add: sample_conn_simps rx_rep_def rx_owns_def pbuf_good_def cursor_ok_def unread_def payload_at_def)

lemma sample_arrived: "arrived (pbufs (net sample_conn_world)) [1, 2] 3 [3, 4]"
  by (simp add: sample_conn_simps arrived_def pbuf_good_def)

lemma sample_arrived_bytes: "bytes_of (pbufs (net sample_conn_world)) [3, 4] = [60, 70]"
  by (simp add: sample_conn_simps bytes_of_def payload_at_def)

text \<open>
  C21. A segment that lwIP delivers is appended: the callback returns \<open>ERR_OK\<close>, the receive buffer's
  unread bytes are the old ones followed by those of the segment, the PCB to acknowledge to is
  stored, the received bridge, if installed, is given the buffer and run once, and the
  registrations of all PCBs stay as they are.
\<close>

theorem receive_appends:
  fixes P :: "'h platform"
  assumes "pbuf_contract P" and "bridge_contract P" and "conn cl k c x r y t w"
    and "rx_rep r ps bs w" and "arrived (pbufs (net w)) ps q qs"
  shows "\<exists>w' cs. lwip_receive_callback P (Some c) p (Some q) (ERR_OK P) w = Inr (ERR_OK P, w') \<and>
    rx_rep r (ps @ qs) (bs @ bytes_of (pbufs (net w)) qs) w' \<and> rx_pcb_of r w' = Some p \<and>
    calls w' = calls w @ cs @ notify_calls (cl_received_bridge k) (Some (Work_rx (Some r))) \<and>
    (\<forall>b \<in> set cs. \<exists>h. b = Pbuf_cat h q) \<and>
    (\<forall>a. map_option pcb_regs (pcbs (net w') a) = map_option pcb_regs (pcbs (net w) a))"
proof -
  have y: "rx_bufs w r = Some y" using assms(3) by (simp add: conn_def)
  from receive_data_run [OF assms(1,3,4,5), of p] obtain w1 where
    run: "lwip_receive_callback P (Some c) p (Some q) (ERR_OK P) w =
      Inr (ERR_OK P, notified P (cl_received_bridge k) (Some (Work_rx (Some r))) w1)" (is "_ = Inr (_, ?w1)")
    and fr: "rx_frame r (with_pcb r y p w) w1"
    and rep: "rx_rep r (ps @ qs) (bs @ bytes_of (pbufs (net w)) qs) w1"
    and calls: "\<exists>cs. calls w1 = calls w @ cs \<and> (\<forall>a \<in> set cs. \<exists>h. a = Pbuf_cat h q)" by blast
  from calls obtain cs where
    cs: "calls ?w1 = calls w @ cs @ notify_calls (cl_received_bridge k) (Some (Work_rx (Some r)))"
    "\<forall>b \<in> set cs. \<exists>h. b = Pbuf_cat h q" by auto
  have "pcbs (net w1) = pcbs (net w)" using fr by (auto simp: rx_frame_def)
  then have "map_option pcb_regs (pcbs (net ?w1) a) = map_option pcb_regs (pcbs (net w) a)" for a
    using notify_frame [OF assms(2), of "net w1"] by (simp add: net_frame_def)
  moreover have "rx_pcb_of r ?w1 = Some p" using fr by (auto simp: rx_frame_def rx_pcb_of_def)
  moreover have "rx_rep r (ps @ qs) (bs @ bytes_of (pbufs (net w)) qs) ?w1"
    using rep notified_rep [OF assms(2)] by blast
  ultimately show ?thesis using run cs by blast
qed

theorem receive_appends_witness:
  "\<exists>w'. lwip_receive_callback sample (Some 40) 7 (Some 3) (ERR_OK sample) sample_conn_world =
      Inr (ERR_OK sample, w') \<and> rx_rep 50 [1, 2, 3, 4] [20, 30, 40, 50, 60, 70] w' \<and> rx_pcb_of 50 w' = Some 7"
  using receive_appends [OF sample_pbuf_contract sample_bridge_contract sample_conn sample_conn_rep
      sample_arrived, of 7]
  by (auto simp: sample_arrived_bytes)

text \<open>
  C11. End to end: whatever segments without empty pbufs lwIP delivers, a reader that then drains the buffer
  gets exactly the bytes that were unread before followed by those of the segments, in order, and terminates.
\<close>

theorem deliver_then_read:
  fixes P :: "'h platform"
  assumes "pbuf_contract P" and "recved_contract P" and "bridge_contract P"
    and "conn cl k c x r y t w" and "rx_rep r ps bs w" and "rx_pcb_live r w" and "pcbs (net w) p \<noteq> None"
    and "all_arrived (pbufs (net w)) ps segs" and "filled (ps @ concat (map snd segs)) (pbufs (net w))"
  shows "\<exists>w'. pseq (deliver_all P c p (map fst segs))
      (read_all Diverges (IoRxBuffer_peekAvailable r) (IoRxBuffer_peek r) (IoRxBuffer_peekConsume P r)) w =
    Inr (bs @ concat (map (\<lambda>s. bytes_of (pbufs (net w)) (snd s)) segs), w') \<and> rx_queue P r [] w'"
proof -
  from deliver_all_run [OF assms(1,3-8)] obtain w1 where
    w1: "deliver_all P c p (map fst segs) w = Inr ((), w1)" "rx_pcb_live r w1"
      "rx_rep r (ps @ concat (map snd segs)) (bs @ concat (map (\<lambda>s. bytes_of (pbufs (net w)) (snd s)) segs)) w1"
    and "payload_at (pbufs (net w1)) = payload_at (pbufs (net w))" by blast
  then have "rx_queue P r (bs @ concat (map (\<lambda>s. bytes_of (pbufs (net w)) (snd s)) segs)) w1"
    using assms(1,2,9) unfolding rx_queue_def filled_def by metis
  from rxq.read_all_returns [OF this] w1(1) show ?thesis by (simp add: pseq_Inr)
qed

theorem deliver_then_read_witness:
  "\<exists>w'. pseq (deliver_all sample 40 7 [3])
      (read_all Diverges (IoRxBuffer_peekAvailable 50) (IoRxBuffer_peek 50) (IoRxBuffer_peekConsume sample 50))
      sample_conn_world = Inr ([20, 30, 40, 50, 60, 70], w') \<and> rx_queue sample 50 [] w'"
proof -
  have "rx_pcb_live 50 sample_conn_world" "pcbs (net sample_conn_world) 7 \<noteq> None"
    by (simp_all add: sample_conn_simps rx_pcb_live_def rx_pcb_of_def)
  moreover have "all_arrived (pbufs (net sample_conn_world)) [1, 2] [(3, [3, 4])]"
    using sample_arrived by simp
  moreover have "filled ([1, 2] @ [3, 4]) (pbufs (net sample_conn_world))"
    by (simp add: filled_def payload_at_def sample_conn_simps)
  ultimately show ?thesis
    using deliver_then_read [OF sample_pbuf_contract sample_recved_contract sample_bridge_contract
        sample_conn sample_conn_rep, of 7 "[(3, [3, 4])]"]
    by (simp add: sample_arrived_bytes del: deliver_all.simps)
qed

text \<open>
  When lwIP reports an error with a segment, the segment is freed, all of it and nothing else,
  the error is returned, the buffer keeps its bytes and the application is not notified.
\<close>

theorem receive_error_frees:
  fixes P :: "'h platform"
  assumes "pbuf_contract P" and "conn cl k c x r y t w" and "rx_rep r ps bs w"
    and "arrived (pbufs (net w)) ps q qs" and "e \<noteq> ERR_OK P"
  shows "\<exists>w'. lwip_receive_callback P (Some c) p (Some q) e w = Inr (e, w') \<and> rx_rep r ps bs w' \<and>
    pbufs (net w') = pbufs (net w) |` (- set qs) \<and> calls w' = calls w @ [Pbuf_free q]"
proof -
  have y: "rx_bufs w r = Some y" using assms(2) by (simp add: conn_def)
  from assms(4) obtain b where b: "pbufs (net w) q = Some b" by (auto simp: arrived_def chain_Some)
  let ?w' = "(with_pcb r y p w)\<lparr>net := pbuf_free P q (net w), calls := calls w @ [Pbuf_free q]\<rparr>"
  have "lwip_receive_callback P (Some c) p (Some q) e w = Inr (e, ?w')"
    unfolding lwip_receive_callback_start(3) [OF assms(2,5)] using b by (simp add: prog_simps)
  moreover have "rx_rep r ps bs ?w'"
    using assms(3,4) pbuf_free_arrived(1) [OF assms(1,4)] with_pcb_rep [OF y, of ps bs p]
    by (subst rx_rep_cong [where w = "with_pcb r y p w"]) (auto simp: arrived_def restrict_map_def)
  ultimately show ?thesis using pbuf_free_arrived(1) [OF assms(1,4)] by (intro exI [of _ ?w']) simp
qed

theorem receive_error_frees_witness:
  "\<exists>w'. lwip_receive_callback sample (Some 40) 7 (Some 3) (ERR_ABRT sample) sample_conn_world =
      Inr (ERR_ABRT sample, w') \<and> rx_rep 50 [1, 2] [20, 30, 40, 50] w' \<and>
      pbufs (net w') = pbufs (net sample_conn_world) |` (- {3, 4}) \<and>
      calls w' = calls sample_conn_world @ [Pbuf_free 3]"
proof -
  have "ERR_ABRT sample \<noteq> ERR_OK sample" by (simp add: sample_def)
  from receive_error_frees [OF sample_pbuf_contract sample_conn sample_conn_rep sample_arrived this, of 7]
  show ?thesis by simp
qed

text \<open>
  C33. On a FIN the callback keeps every unread byte, gives the buffer to the fin bridge, if one is
  installed, and returns \<open>ERR_ABRT\<close>. It neither closes nor aborts the PCB, which stays live, although
  \<open>ERR_ABRT\<close> tells lwIP that the PCB has been aborted.
\<close>

theorem receive_fin_keeps_data:
  fixes P :: "'h platform"
  assumes "bridge_contract P" and "conn cl k c x r y t w" and "rx_rep r ps bs w" and "pcbs (net w) p \<noteq> None"
  shows "\<exists>w'. lwip_receive_callback P (Some c) p None (ERR_OK P) w = Inr (ERR_ABRT P, w') \<and>
    rx_rep r ps bs w' \<and> pcbs (net w') p \<noteq> None \<and>
    calls w' = calls w @ notify_calls (cl_fin_bridge k) (Some (Work_rx (Some r)))"
proof -
  have y: "rx_bufs w r = Some y" using assms(2) by (simp add: conn_def)
  let ?w' = "notified P (cl_fin_bridge k) (Some (Work_rx (Some r))) (with_pcb r y p w)"
  have "rx_rep r ps bs ?w'" using assms(3) notified_rep [OF assms(1)] with_pcb_rep [OF y] by blast
  moreover have "pcbs (net ?w') p \<noteq> None"
    using notify_live [OF assms(1)] assms(4) by simp
  ultimately show ?thesis using receive_fin_run [OF assms(2)] by (intro exI [of _ ?w']) simp
qed

theorem receive_fin_keeps_data_witness:
  "\<exists>w'. lwip_receive_callback sample (Some 40) 7 None (ERR_OK sample) sample_conn_world =
      Inr (ERR_ABRT sample, w') \<and> rx_rep 50 [1, 2] [20, 30, 40, 50] w' \<and> pcbs (net w') 7 \<noteq> None \<and>
      calls w' = [Bridge_workload 93 (Work_rx (Some 50)), Bridge_run 93]"
proof -
  have "pcbs (net sample_conn_world) 7 \<noteq> None" by (simp add: sample_conn_simps)
  from receive_fin_keeps_data [OF sample_bridge_contract sample_conn sample_conn_rep this]
  show ?thesis by (auto simp: notify_calls_def sample_client_def sample_conn_world_def sample_world_def)
qed

text \<open>
  C39. An acknowledgement never reaches the application: for every connection, also with an ACK bridge
  installed and an ACK callback set on the context, \<open>lwip_sent_cb\<close> returns \<open>ERR_OK\<close> and changes
  nothing, so the bridge is neither given the length nor run.
\<close>

theorem sent_ack_not_forwarded:
  assumes "conn cl k c x r y t w"
  shows "lwip_sent_cb P (Some c) p len w = Inr (ERR_OK P, w)"
  by (rule sent_run [OF assms])

theorem sent_ack_not_forwarded_witness:
  "cl_ack_bridge sample_client = Some 96 \<and> ctx_ackCb sample_ctx = Some (Client_ack 30) \<and>
   lwip_sent_cb sample (Some 40) 7 1460 sample_conn_world = Inr (ERR_OK sample, sample_conn_world)"
  using sent_ack_not_forwarded [OF sample_conn] by (simp add: sample_client_def sample_ctx_def)

text \<open>
  An error event reaches the application with its code: the error bridge, if installed, is given
  the code and run, and this is all that happens. In particular the context keeps its pointer to
  the PCB, which lwIP has freed before the event.
\<close>

theorem error_event_notifies:
  assumes "conn cl k c x r y t w"
  shows "\<exists>w'. TcpClientContext_s_error P (Some c) e w = Inr ((), w') \<and>
    calls w' = calls w @ notify_calls (cl_error_bridge k) (Some (Work_err e)) \<and>
    contexts w' = contexts w \<and> rx_bufs w' = rx_bufs w \<and> writers w' = writers w"
  by (simp add: error_run [OF assms])

theorem error_event_notifies_witness:
  "\<exists>w'. TcpClientContext_s_error sample (Some 40) (ERR_ABRT sample) sample_conn_world = Inr ((), w') \<and>
    calls w' = [Bridge_workload 94 (Work_err (ERR_ABRT sample)), Bridge_run 94]"
  using error_event_notifies [OF sample_conn, of sample "ERR_ABRT sample"]
  by (auto simp: notify_calls_def sample_client_def sample_conn_world_def sample_world_def)

text \<open>
  The connected event of the context's own PCB runs the connected bridge, if installed, and
  returns \<open>ERR_OK\<close>; the event of any other PCB fails the assertion.
\<close>

theorem connected_event:
  fixes P :: "'h platform"
  assumes "conn cl k c x r y t w" and "ctx_pcb x = Some p" and "pcbs (net w) p \<noteq> None"
  shows "(\<exists>w'. TcpClientContext_s_connected P (Some c) p e w = Inr (ERR_OK P, w') \<and>
      calls w' = calls w @ notify_calls (cl_connected_bridge k) None) \<and>
    (\<forall>q. q \<noteq> p \<longrightarrow> TcpClientContext_s_connected P (Some c) q e w = Inl Assertion_failed)"
proof (intro conjI allI impI)
  show "\<exists>w'. TcpClientContext_s_connected P (Some c) p e w = Inr (ERR_OK P, w') \<and>
      calls w' = calls w @ notify_calls (cl_connected_bridge k) None"
    using connected_run [OF assms] by simp
  show "TcpClientContext_s_connected P (Some c) q e w = Inl Assertion_failed" if "q \<noteq> p" for q
    using assms(1,2) that
    by (simp add: conn_simps TcpClientContext_s_connected_def TcpClientContext_connected_def prog_simps)
qed

theorem connected_event_witness:
  "\<exists>w'. TcpClientContext_s_connected sample (Some 40) 7 0 sample_conn_world = Inr (ERR_OK sample, w') \<and>
    calls w' = calls sample_conn_world @ [Bridge_run 92]"
  using connected_event [OF sample_conn, of 7 sample 0]
  by (simp add: notify_calls_def sample_conn_simps)

lemma writeChunk_run:
  fixes P :: "'h platform"
  assumes S: "send_contract P" and C: "conn cl k c x r y t w" and p: "ctx_pcb x = Some p" and live: "pcbs (net w) p \<noteq> None"
    and some: "sz \<noteq> 0" "tcp_sndbuf P p (net w) \<noteq> 0" and sz: "unat sz \<le> length d"
  shows "let chunk = take (unat (ucast (min (tcp_sndbuf P p (net w)) sz) :: u16)) d; res = tcp_write P p chunk 0 (net w);
      w1 = w\<lparr>net := snd res, calls := calls w @ [Tcp_write p chunk 0]\<rparr> in
    TcpClientContext_writeChunk P c (Some d) sz w =
      Inr ((), if fst res = ERR_OK P
               then w1\<lparr>net := tcp_output P p (net w1), calls := calls w1 @ [Tcp_output p]\<rparr>
               else notified P (cl_error_bridge k) (Some (Work_err (fst res))) w1)"
proof -
  define m where "m = min (tcp_sndbuf P p (net w)) sz"
  define l where "l = unat (ucast m :: u16)"
  define res where "res = tcp_write P p (take l d) 0 (net w)"
  define w1 where "w1 = w\<lparr>net := snd res, calls := calls w @ [Tcp_write p (take l d) 0]\<rparr>"
  have nz: "m \<noteq> 0" using some by (simp add: m_def min_def)
  have "l \<le> unat m" by (simp add: l_def unsigned_ucast_eq take_bit_nat_less_eq_self)
  also have "\<dots> \<le> length d" using sz by (simp add: m_def)
  finally have l: "l \<le> length d" .
  from live obtain b where b: "pcbs (net w) p = Some b" by auto
  have "net_frame (net w) (snd res)" using S b by (simp add: send_contract_def res_def)
  from b net_frame_live [OF this, of p] obtain b1 where b1: "pcbs (snd res) p = Some b1" by auto
  have err: "call_err P (ctx_errorCb x) e w1 = Inr ((), notified P (cl_error_bridge k) (Some (Work_err e)) w1)" for e
    using C by (simp add: conn_simps TcpClient_onErrorCallback_run w1_def)
  have "TcpClientContext_writeChunk P c (Some d) sz w =
      (if fst res \<noteq> ERR_OK P then call_err P (ctx_errorCb x) (fst res) w1
       else on_pcb p (ext (Tcp_output p) (tcp_output P p)) w1)"
    using C p b some(1) nz l
    by (simp add: TcpClientContext_writeChunk_def conn_def prog_simps Let_def m_def [symmetric] l_def [symmetric]
        res_def [symmetric] w1_def [symmetric] del: unat_min)
  also have "\<dots> = Inr ((), if fst res = ERR_OK P
               then w1\<lparr>net := tcp_output P p (net w1), calls := calls w1 @ [Tcp_output p]\<rparr>
               else notified P (cl_error_bridge k) (Some (Work_err (fst res))) w1)"
    using b1 err by (cases "fst res = ERR_OK P") (simp_all add: prog_simps, simp_all add: w1_def)
  finally show ?thesis by (simp add: Let_def m_def l_def res_def w1_def)
qed

text \<open>
  C40. \<open>writeChunk\<close> on a connection with a nonempty chunk and send buffer space below \<open>2^16\<close> hands exactly the
  first \<open>min(space, size)\<close> bytes to lwIP in one \<open>tcp_write\<close>; when lwIP accepts them it calls
  \<open>tcp_output\<close>, and otherwise the error bridge is given lwIP's code. The caller is not told when
  the chunk was cut.
\<close>

theorem writeChunk_sends:
  fixes P :: "'h platform"
  assumes "send_contract P" and "conn cl k c x r y t w" and "ctx_pcb x = Some p" and "pcbs (net w) p \<noteq> None"
    and "sz \<noteq> 0" and "tcp_sndbuf P p (net w) \<noteq> 0" and "unat (tcp_sndbuf P p (net w)) < 2 ^ 16"
    and "unat sz \<le> length d"
  shows "let chunk = take (min (unat (tcp_sndbuf P p (net w))) (unat sz)) d; res = tcp_write P p chunk 0 (net w);
      w1 = w\<lparr>net := snd res, calls := calls w @ [Tcp_write p chunk 0]\<rparr> in
    TcpClientContext_writeChunk P c (Some d) sz w =
      Inr ((), if fst res = ERR_OK P
               then w1\<lparr>net := tcp_output P p (net w1), calls := calls w1 @ [Tcp_output p]\<rparr>
               else notified P (cl_error_bridge k) (Some (Work_err (fst res))) w1)"
proof -
  have "unat (ucast (min (tcp_sndbuf P p (net w)) sz) :: u16) = min (unat (tcp_sndbuf P p (net w))) (unat sz)"
    using assms(7) by (subst unat_ucast_small) simp_all
  then show ?thesis using writeChunk_run [OF assms(1-6,8)] by (simp add: Let_def)
qed

theorem writeChunk_sends_witness:
  "\<exists>w'. TcpClientContext_writeChunk sample 40 (Some [1, 2, 3]) 3 sample_conn_world = Inr ((), w') \<and>
    calls w' = [Tcp_write 7 [1, 2, 3] 0, Tcp_output 7]"
proof -
  have "calls sample_conn_world = []" "hidden (net sample_conn_world) = 1000" "ctx_pcb sample_ctx = Some 7"
    "pcbs (net sample_conn_world) 7 \<noteq> None"
    by (simp_all add: sample_conn_simps)
  moreover have "tcp_sndbuf sample 7 n = hidden n" "length d \<le> unat (hidden n) \<Longrightarrow> fst (tcp_write sample 7 d 0 n) = ERR_OK sample" for n d
    by (simp_all add: sample_def)
  ultimately show ?thesis
    using writeChunk_sends [OF sample_send_contract sample_conn, of 7 3 "[1, 2, 3]"] by (simp add: Let_def)
qed

text \<open>
  \<open>writeChunk\<close> reports what it cannot do through the error bridge and sends nothing:
  \<open>ERR_CONN\<close> without a PCB, the Pico code for an invalid argument (converted to \<open>err_t\<close>) without data
  or size, \<open>ERR_MEM\<close> when the send buffer is full.
\<close>

theorem writeChunk_errors:
  fixes P :: "'h platform"
  assumes "conn cl k c x r y t w"
    and "case ctx_pcb x of None \<Rightarrow> True | Some p \<Rightarrow> pcbs (net w) p \<noteq> None"
    and "ctx_pcb x = None \<or> data = None \<or> sz = 0 \<or> tcp_sndbuf P (the (ctx_pcb x)) (net w) = 0"
  shows "TcpClientContext_writeChunk P c data sz w =
    Inr ((), notified P (cl_error_bridge k) (Some (Work_err
      (if ctx_pcb x = None then ERR_CONN P
       else if data = None \<or> sz = 0 then ucast (PICO_ERROR_INVALID_ARG P)
       else ERR_MEM P))) w)"
proof -
  have err: "call_err P (ctx_errorCb x) e w = Inr ((), notified P (cl_error_bridge k) (Some (Work_err e)) w)" for e
    using assms(1) by (simp add: conn_simps TcpClient_onErrorCallback_run)
  have min0: "min 0 sz = 0" by (simp add: min_def)
  show ?thesis
    using assms
    by (auto simp: TcpClientContext_writeChunk_def conn_def prog_simps Let_def err min0 split: option.splits)
qed

theorem writeChunk_errors_witness:
  "TcpClientContext_writeChunk sample 40 None 3 sample_conn_world =
    Inr ((), notified sample (Some 94) (Some (Work_err (ucast (PICO_ERROR_INVALID_ARG sample)))) sample_conn_world)"
proof -
  have "ctx_pcb sample_ctx = Some 7" "pcbs (net sample_conn_world) 7 \<noteq> None" "cl_error_bridge sample_client = Some 94"
    by (simp_all add: sample_conn_simps)
  with writeChunk_errors [OF sample_conn, where P = sample and data = None and sz = 3] show ?thesis by simp
qed

end
