(* ===== verification/Tcp_Client.thy ===== *)
theory Tcp_Client
  imports Callbacks
begin

text \<open>
  The class applications use (\<open>include/TcpClient.hpp\<close>, \<open>src/TcpClient.cpp\<close>): connecting, ending and
  destroying a connection, writing, and the accessors. The handlers it hands to its context are in
  the theory of the callbacks; \<open>connect\<close> and \<open>status\<close>, which go through the sync accessor, are in the
  theory of the accessor.
\<close>

section \<open>Construction, settings\<close>

definition upd_client :: "addr \<Rightarrow> (TcpClient \<Rightarrow> TcpClient) \<Rightarrow> ('h, unit) cprog" where
  "upd_client cl f = pbind (get_client cl) (\<lambda>k. put_client cl (f k))"

text \<open>The initial values of the static variables \<open>_localPort\<close> and \<open>defaultNoDelay\<close>.\<close>

definition TcpClient_static_init :: "'h world \<Rightarrow> 'h world" where
  "TcpClient_static_init w = w\<lparr>s_localPort := 0, s_defaultNoDelay := True\<rparr>"

definition TcpClient_setDefaultNoDelay :: "bool \<Rightarrow> ('h, unit) cprog" where
  "TcpClient_setDefaultNoDelay noDelay = modify (\<lambda>w. w\<lparr>s_defaultNoDelay := noDelay\<rparr>)"

definition TcpClient_getDefaultNoDelay :: "('h, bool) cprog" where
  "TcpClient_getDefaultNoDelay = gets s_defaultNoDelay"

definition TcpClient_setLocalPortStart :: "u16 \<Rightarrow> ('h, unit) cprog" where
  "TcpClient_setLocalPortStart port = modify (\<lambda>w. w\<lparr>s_localPort := port\<rparr>)"

definition TcpClient_new :: "('h, addr) cprog" where
  "TcpClient_new =
     new_client \<lparr>cl_received_bridge = None, cl_connected_bridge = None, cl_fin_bridge = None,
       cl_error_bridge = None, cl_poll_bridge = None, cl_ack_bridge = None, cl_ctx = None,
       cl_sync_accessor = None, cl_client_id = 0, cl_timeout = 5000, cl_write_callback = None\<rparr>"

text \<open>The destructor: \<open>delete _ctx\<close>, then the members, of which the sync accessor is an object of this library.\<close>

definition TcpClient_delete :: "'h platform \<Rightarrow> addr \<Rightarrow> ('h, unit) cprog" where
  "TcpClient_delete P cl =
     pbind (get_client cl) (\<lambda>k.
     pseq (when_some (cl_ctx k) (TcpClientContext_delete P))
    (pseq (when_some (cl_sync_accessor k) (\<lambda>a. modify (\<lambda>w. w\<lparr>accessors := (accessors w)(a := None)\<rparr>)))
          (modify (\<lambda>w. w\<lparr>clients := (clients w)(cl := None)\<rparr>))))"

definition TcpClient_setNoDelay :: "'h platform \<Rightarrow> addr \<Rightarrow> bool \<Rightarrow> ('h, unit) cprog" where
  "TcpClient_setNoDelay P cl no_delay =
     pbind (get_client cl) (\<lambda>k. when_some (cl_ctx k) (\<lambda>c. TcpClientContext_setNoDelay P c no_delay))"

definition TcpClient_getNoDelay :: "'h platform \<Rightarrow> addr \<Rightarrow> ('h, bool) cprog" where
  "TcpClient_getNoDelay P cl =
     pbind (get_client cl) (\<lambda>k. case cl_ctx k of None \<Rightarrow> ret False | Some c \<Rightarrow> TcpClientContext_getNoDelay P c)"

section \<open>Connecting\<close>

text \<open>\<open>if (_localPort > 0) pcb->local_port = _localPort++;\<close>\<close>

definition TcpClient_assignPort :: "addr \<Rightarrow> ('h, unit) cprog" where
  "TcpClient_assignPort pcb =
     pbind (gets s_localPort) (\<lambda>port.
     when_p (port > 0)
       (pbind (get_pcb pcb) (\<lambda>b.
        pseq (modify (\<lambda>w. w\<lparr>s_localPort := port + 1\<rparr>))
             (put_pcb pcb (b\<lparr>local_port := port\<rparr>)))))"

text \<open>The settings and callbacks the client gives its new context.\<close>

definition TcpClient_attach :: "addr \<Rightarrow> addr \<Rightarrow> ('h, unit) cprog" where
  "TcpClient_attach cl c =
     pbind (get_client cl) (\<lambda>k.
     pseq (TcpClientContext_setClientId c (cl_client_id k))
    (pseq (TcpClientContext_setTimeout c (cl_timeout k))
    (pseq (TcpClientContext_setOnConnectCallback c (Some (Client_connect cl)))
    (pseq (TcpClientContext_setOnErrorCallback c (Some (Client_error cl)))
    (pseq (TcpClientContext_setOnFinCallback c (Some (Client_fin cl)))
    (pseq (TcpClientContext_setOnReceivedCallback c (Some (Client_receive cl)))
    (pseq (TcpClientContext_setOnPollCallback c (Some (Client_poll cl)))
          (TcpClientContext_setOnAckCallback c (Some (Client_ack cl))))))))))"

definition TcpClient_ts_connect :: "'h platform \<Rightarrow> addr \<Rightarrow> ip_addr \<Rightarrow> u16 \<Rightarrow> ('h, cint) cprog" where
  "TcpClient_ts_connect P cl ip port =
     pbind (get_client cl) (\<lambda>k.
     if cl_ctx k \<noteq> None then ret (PICO_ERROR_RESOURCE_IN_USE P)
     else
       pbind (ext_val Tcp_new (tcp_new P)) (\<lambda>new.
       case new of
         None \<Rightarrow> ret (PICO_ERROR_IO P)
       | Some pcb \<Rightarrow>
           pseq (TcpClient_assignPort pcb)
          (pbind (TcpClientContext_new P pcb) (\<lambda>c.
           pseq (upd_client cl (cl_ctx_update (\<lambda>_. Some c)))
          (pseq (TcpClient_attach cl c)
          (pbind (TcpClientContext_connect P c ip port) (\<lambda>res.
           if res \<noteq> ERR_OK P then
             pseq (TcpClientContext_delete P c)
            (pseq (upd_client cl (cl_ctx_update (\<lambda>_. None)))
                  (ret (scast res)))
           else
             pbind (gets s_defaultNoDelay) (\<lambda>d.
             pseq (TcpClient_setNoDelay P cl d)
                  (ret (PICO_OK P))))))))))"

section \<open>Writing\<close>

text \<open>
  The write callback is the application's: \<open>app f\<close> is the function object number \<open>f\<close>, called with the
  writer, the buffer and the size.
\<close>

type_synonym 'h app = "user_fn \<Rightarrow> addr option \<Rightarrow> u8 list \<Rightarrow> size_t \<Rightarrow> ('h, unit) cprog"

definition TcpClient_write :: "'h app \<Rightarrow> addr \<Rightarrow> u8 list option \<Rightarrow> size_t \<Rightarrow> ('h, unit) cprog" where
  "TcpClient_write app cl buf sz =
     pbind (deref Assertion_failed buf) (\<lambda>d.
     pseq (require (sz > 0) Assertion_failed)
    (pbind (get_client cl) (\<lambda>k.
     when_some (cl_ctx k) (\<lambda>c.
       pbind (TcpClientContext_getTxWriter c) (\<lambda>tx.
       pbind (deref Assertion_failed (cl_write_callback k)) (\<lambda>f.
       app f tx d sz))))))"

definition TcpClient_write_byte :: "'h app \<Rightarrow> addr \<Rightarrow> u8 \<Rightarrow> ('h, unit) cprog" where
  "TcpClient_write_byte app cl b = TcpClient_write app cl (Some [b]) 1"

definition TcpClient_setWriteCallback :: "addr \<Rightarrow> user_fn option \<Rightarrow> ('h, unit) cprog" where
  "TcpClient_setWriteCallback cl f = upd_client cl (cl_write_callback_update (\<lambda>_. f))"

definition TcpClient_writeChunk :: "'h platform \<Rightarrow> addr \<Rightarrow> u8 list option \<Rightarrow> size_t \<Rightarrow> ('h, unit) cprog" where
  "TcpClient_writeChunk P cl data sz =
     pbind (get_client cl) (\<lambda>k.
     case cl_ctx k of
       None \<Rightarrow> ret ()
     | Some c \<Rightarrow> if data = None \<or> sz = 0 then ret () else TcpClientContext_writeChunk P c data sz)"

section \<open>Ending\<close>

definition TcpClient_stop :: "'h platform \<Rightarrow> addr \<Rightarrow> ('h, bool) cprog" where
  "TcpClient_stop P cl =
     pbind (get_client cl) (\<lambda>k.
     case cl_ctx k of
       None \<Rightarrow> ret True
     | Some c \<Rightarrow> pbind (TcpClientContext_close P c) (\<lambda>err. ret (err = ERR_OK P)))"

definition TcpClient_stop_void :: "'h platform \<Rightarrow> addr \<Rightarrow> ('h, unit) cprog" where
  "TcpClient_stop_void P cl = pbind (TcpClient_stop P cl) (\<lambda>_. ret ())"

definition TcpClient_shutdown :: "'h platform \<Rightarrow> addr \<Rightarrow> ('h, bool) cprog" where
  "TcpClient_shutdown P cl =
     pbind (TcpClient_stop P cl) (\<lambda>res.
     pbind (get_client cl) (\<lambda>k.
     pseq (when_some (cl_ctx k) (\<lambda>c.
             pseq (TcpClientContext_delete P c)
                  (upd_client cl (cl_ctx_update (\<lambda>_. None)))))
          (ret res)))"

section \<open>Accessors\<close>

definition TcpClient_ts_status :: "'h platform \<Rightarrow> addr \<Rightarrow> ('h, u8) cprog" where
  "TcpClient_ts_status P cl =
     pbind (get_client cl) (\<lambda>k.
     case cl_ctx k of None \<Rightarrow> ret (CLOSED P) | Some c \<Rightarrow> TcpClientContext_state P c)"

definition TcpClient_remotePort :: "addr \<Rightarrow> ('h, u16) cprog" where
  "TcpClient_remotePort cl =
     pbind (get_client cl) (\<lambda>k. case cl_ctx k of None \<Rightarrow> ret 0 | Some c \<Rightarrow> TcpClientContext_getRemotePort c)"

definition TcpClient_localIP :: "'h platform \<Rightarrow> addr \<Rightarrow> ('h, ip_addr) cprog" where
  "TcpClient_localIP P cl =
     pbind (get_client cl) (\<lambda>k.
     case cl_ctx k of
       None \<Rightarrow> ret (ip_zero P)
     | Some c \<Rightarrow>
         pbind (TcpClientContext_getLocalAddress c) (\<lambda>a.
         if a = None then ret (ip_zero P)
         else
           pbind (TcpClientContext_getLocalAddress c) (\<lambda>a'.
           pbind (deref Null_deref a') (\<lambda>p. pbind (get_pcb p) (\<lambda>b. ret (local_ip b))))))"

definition TcpClient_localPort :: "addr \<Rightarrow> ('h, u16) cprog" where
  "TcpClient_localPort cl =
     pbind (get_client cl) (\<lambda>k. case cl_ctx k of None \<Rightarrow> ret 0 | Some c \<Rightarrow> TcpClientContext_getLocalPort c)"

text \<open>The keep-alive members use \<open>_ctx\<close> without a test.\<close>

definition the_ctx :: "addr \<Rightarrow> ('h, addr) cprog" where
  "the_ctx cl = pbind (get_client cl) (\<lambda>k. deref Null_deref (cl_ctx k))"

definition TcpClient_keepAlive :: "'h platform \<Rightarrow> addr \<Rightarrow> u16 \<Rightarrow> u16 \<Rightarrow> u8 \<Rightarrow> ('h, unit) cprog" where
  "TcpClient_keepAlive P cl idle_sec intv_sec count =
     pbind (the_ctx cl) (\<lambda>c. TcpClientContext_keepAlive P c idle_sec intv_sec count)"

text \<open>The call without arguments.\<close>

definition TcpClient_keepAlive_default :: "'h platform \<Rightarrow> addr \<Rightarrow> ('h, unit) cprog" where
  "TcpClient_keepAlive_default P cl = TcpClient_keepAlive P cl TCP_DEFAULT_KEEP_ALIVE_IDLE_SEC
     TCP_DEFAULT_KEEP_ALIVE_INTERVAL_SEC TCP_DEFAULT_KEEP_ALIVE_COUNT"

definition TcpClient_disableKeepAlive :: "'h platform \<Rightarrow> addr \<Rightarrow> ('h, unit) cprog" where
  "TcpClient_disableKeepAlive P cl = TcpClient_keepAlive P cl 0 0 0"

definition TcpClient_isKeepAliveEnabled :: "'h platform \<Rightarrow> addr \<Rightarrow> ('h, bool) cprog" where
  "TcpClient_isKeepAliveEnabled P cl = pbind (the_ctx cl) (TcpClientContext_isKeepAliveEnabled P)"

definition TcpClient_getKeepAliveIdle :: "'h platform \<Rightarrow> addr \<Rightarrow> ('h, u16) cprog" where
  "TcpClient_getKeepAliveIdle P cl = pbind (the_ctx cl) (TcpClientContext_getKeepAliveIdle P)"

definition TcpClient_getKeepAliveInterval :: "'h platform \<Rightarrow> addr \<Rightarrow> ('h, u16) cprog" where
  "TcpClient_getKeepAliveInterval P cl = pbind (the_ctx cl) (TcpClientContext_getKeepAliveInterval P)"

definition TcpClient_getKeepAliveCount :: "'h platform \<Rightarrow> addr \<Rightarrow> ('h, u8) cprog" where
  "TcpClient_getKeepAliveCount P cl = pbind (the_ctx cl) (TcpClientContext_getKeepAliveCount P)"

definition TcpClient_setOnReceivedCallback :: "addr \<Rightarrow> addr option \<Rightarrow> ('h, unit) cprog" where
  "TcpClient_setOnReceivedCallback cl b = upd_client cl (cl_received_bridge_update (\<lambda>_. b))"

definition TcpClient_setOnConnectedCallback :: "addr \<Rightarrow> addr option \<Rightarrow> ('h, unit) cprog" where
  "TcpClient_setOnConnectedCallback cl b = upd_client cl (cl_connected_bridge_update (\<lambda>_. b))"

definition TcpClient_setOnFinCallback :: "addr \<Rightarrow> addr option \<Rightarrow> ('h, unit) cprog" where
  "TcpClient_setOnFinCallback cl b = upd_client cl (cl_fin_bridge_update (\<lambda>_. b))"

definition TcpClient_setOnErrorCallback :: "addr \<Rightarrow> addr option \<Rightarrow> ('h, unit) cprog" where
  "TcpClient_setOnErrorCallback cl b = upd_client cl (cl_error_bridge_update (\<lambda>_. b))"

definition TcpClient_setOnPollCallback :: "addr \<Rightarrow> addr option \<Rightarrow> ('h, unit) cprog" where
  "TcpClient_setOnPollCallback cl b = upd_client cl (cl_poll_bridge_update (\<lambda>_. b))"

definition TcpClient_setOnAckCallback :: "addr \<Rightarrow> addr option \<Rightarrow> ('h, unit) cprog" where
  "TcpClient_setOnAckCallback cl b = upd_client cl (cl_ack_bridge_update (\<lambda>_. b))"

definition TcpClient_setClientId :: "addr \<Rightarrow> u8 \<Rightarrow> ('h, unit) cprog" where
  "TcpClient_setClientId cl i = upd_client cl (cl_client_id_update (\<lambda>_. i))"

definition TcpClient_getClientId :: "addr \<Rightarrow> ('h, u8) cprog" where
  "TcpClient_getClientId cl = pbind (get_client cl) (\<lambda>k. ret (cl_client_id k))"

definition TcpClient_getContext :: "addr \<Rightarrow> ('h, addr option) cprog" where
  "TcpClient_getContext cl = pbind (get_client cl) (\<lambda>k. ret (cl_ctx k))"

definition TcpClient_getSyncAccessor :: "addr \<Rightarrow> ('h, addr option) cprog" where
  "TcpClient_getSyncAccessor cl = pbind (get_client cl) (\<lambda>k. ret (cl_sync_accessor k))"

definition TcpClient_setSyncAccessor :: "addr \<Rightarrow> addr option \<Rightarrow> ('h, unit) cprog" where
  "TcpClient_setSyncAccessor cl accessor =
     pbind (get_client cl) (\<lambda>k.
     pseq (require (cl_sync_accessor k = None) Assertion_failed)
          (upd_client cl (cl_sync_accessor_update (\<lambda>_. accessor))))"

section \<open>Evaluation\<close>

lemma upd_client_apply [prog_simps]:
  "upd_client cl f w = (case clients w cl of None \<Rightarrow> Inl (Dangling_object cl)
     | Some k \<Rightarrow> Inr ((), w\<lparr>clients := (clients w)(cl \<mapsto> f k)\<rparr>))"
  by (simp add: upd_client_def prog_simps split: option.splits)

text \<open>A context after \<open>attach\<close>.\<close>

definition attached :: "addr \<Rightarrow> TcpClient \<Rightarrow> TcpClientContext \<Rightarrow> TcpClientContext" where
  "attached cl k x = x\<lparr>ctx_client_id := cl_client_id k, ctx_timeout_ms := cl_timeout k,
     ctx_connectCb := Some (Client_connect cl), ctx_errorCb := Some (Client_error cl),
     ctx_finCb := Some (Client_fin cl), ctx_receiveCb := Some (Client_receive cl),
     ctx_pollCb := Some (Client_poll cl), ctx_ackCb := Some (Client_ack cl)\<rparr>"

lemma attached_simps [simp]:
  "wired cl (attached cl k x)" "ctx_pcb (attached cl k x) = ctx_pcb x" "ctx_rx (attached cl k x) = ctx_rx x"
  "ctx_tx (attached cl k x) = ctx_tx x"
  by (simp_all add: attached_def wired_def)

lemma TcpClient_attach_run:
  assumes "clients w cl = Some k" "contexts w c = Some x"
  shows "TcpClient_attach cl c w = Inr ((), w\<lparr>contexts := (contexts w)(c \<mapsto> attached cl k x)\<rparr>)"
  using assms
  by (simp add: TcpClient_attach_def TcpClientContext_setClientId_def TcpClientContext_setTimeout_def
      TcpClientContext_setOnConnectCallback_def TcpClientContext_setOnErrorCallback_def
      TcpClientContext_setOnFinCallback_def TcpClientContext_setOnReceivedCallback_def
      TcpClientContext_setOnPollCallback_def TcpClientContext_setOnAckCallback_def prog_simps attached_def)

definition next_port :: "u16 \<Rightarrow> u16" where
  "next_port port = (if port > 0 then port + 1 else port)"

lemma TcpClient_assignPort_run:
  assumes "pcbs (net w) p \<noteq> None"
  shows "\<exists>N. TcpClient_assignPort p w = Inr ((), w\<lparr>net := N, s_localPort := next_port (s_localPort w)\<rparr>) \<and>
    net_frame (net w) N \<and>
    (s_localPort w > 0 \<longrightarrow> (\<exists>b. pcbs N p = Some b \<and> local_port b = s_localPort w))"
proof -
  from assms obtain b where b: "pcbs (net w) p = Some b" by auto
  show ?thesis
  proof (cases "s_localPort w > 0")
    case True
    with b show ?thesis
      by (intro exI [of _ "(net w)\<lparr>pcbs := (pcbs (net w))(p \<mapsto> b\<lparr>local_port := s_localPort w\<rparr>)\<rparr>"])
        (simp add: TcpClient_assignPort_def prog_simps next_port_def net_frame_def pcb_regs_def)
  next
    case False
    then show ?thesis
      by (intro exI [of _ "net w"]) (simp add: TcpClient_assignPort_def prog_simps next_port_def)
  qed
qed

lemma TcpClient_keepAlive_default_run:
  assumes "clients w cl = Some k" "cl_ctx k = Some c" "contexts w c = Some x" "ctx_pcb x = Some p" "pcbs (net w) p = Some b"
  shows "TcpClient_keepAlive_default P cl w = Inr ((), w\<lparr>net := (net w)\<lparr>pcbs := (pcbs (net w))(p \<mapsto>
    b\<lparr>so_options := so_options b OR SOF_KEEPALIVE P, keep_idle := 7200000, keep_intvl := 75000, keep_cnt := 9\<rparr>)\<rparr>\<rparr>)"
  using assms by (simp add: TcpClient_keepAlive_default_def TcpClient_keepAlive_def the_ctx_def TcpClientContext_keepAlive_def
      TCP_DEFAULT_KEEP_ALIVE_IDLE_SEC_def TCP_DEFAULT_KEEP_ALIVE_INTERVAL_SEC_def TCP_DEFAULT_KEEP_ALIVE_COUNT_def prog_simps)

lemma TcpClient_assignPort_exact:
  "s_localPort w = 0 \<Longrightarrow> TcpClient_assignPort p w = Inr ((), w)"
  "0 < s_localPort w \<Longrightarrow> pcbs (net w) p = Some b \<Longrightarrow> TcpClient_assignPort p w = Inr ((), w\<lparr>
     net := (net w)\<lparr>pcbs := (pcbs (net w))(p \<mapsto> b\<lparr>local_port := s_localPort w\<rparr>)\<rparr>, s_localPort := s_localPort w + 1\<rparr>)"
  by (simp_all add: TcpClient_assignPort_def prog_simps)

lemma unat_u16_Suc: "unat (x + 1 :: u16) = (if unat x + 1 < 2 ^ 16 then unat x + 1 else 0)"
proof (cases "unat x + 1 < 2 ^ 16")
  case False
  then have "unat x = 2 ^ 16 - 1" using unat_u16_less [of x] by simp
  then show ?thesis by (simp add: unat_word_ariths)
qed (simp add: unat_word_ariths)

section \<open>Opening a connection\<close>

text \<open>The state when \<open>_ts_connect\<close> has set up the context for the PCB \<open>p\<close> and is about to connect.\<close>

definition opened :: "'h platform \<Rightarrow> addr \<Rightarrow> TcpClient \<Rightarrow> addr \<Rightarrow> 'h net \<Rightarrow> 'h world \<Rightarrow> 'h world" where
  "opened P cl k p N w = (let c = fresh w in
     w\<lparr>net := N, clients := (clients w)(cl \<mapsto> k\<lparr>cl_ctx := Some c\<rparr>),
       contexts := (contexts w)(c \<mapsto> attached cl k (fresh_ctx p c)),
       rx_bufs := (rx_bufs w)(Suc c \<mapsto> fresh_rx c), writers := (writers w)(Suc (Suc c) \<mapsto> fresh_tx p),
       fresh := Suc (Suc (Suc c)), s_localPort := next_port (s_localPort w),
       calls := calls w @ Tcp_new # register_calls P p c\<rparr>)"

text \<open>The calls of an attempt to connect that lwIP accepts.\<close>

definition connect_calls :: "'h platform \<Rightarrow> addr \<Rightarrow> addr \<Rightarrow> ip_addr \<Rightarrow> u16 \<Rightarrow> bool \<Rightarrow> ext_call list" where
  "connect_calls P p c a port d = Tcp_new # register_calls P p c @
     [Tcp_connect p a port, if d then Tcp_nagle_disable p else Tcp_nagle_enable p]"

definition opened_net :: "addr \<Rightarrow> addr \<Rightarrow> 'h net \<Rightarrow> 'h net \<Rightarrow> bool" where
  "opened_net c p n N \<longleftrightarrow> pbufs N = pbufs n \<and> (\<exists>b. pcbs N p = Some b \<and> pcb_regs b = ctx_regs c) \<and>
     (\<forall>q. q \<noteq> p \<longrightarrow> map_option pcb_regs (pcbs N q) = map_option pcb_regs (pcbs n q))"

lemma opened_net_frame: "opened_net c p n N \<Longrightarrow> net_frame N N' \<Longrightarrow> opened_net c p n N'"
  unfolding opened_net_def net_frame_def
  by (metis (no_types, lifting) option.simps(9) map_option_eq_Some)

lemma opened_net_live: "opened_net c p n N \<Longrightarrow> pcbs N p \<noteq> None"
  by (auto simp: opened_net_def)

lemma opened_simps:
  "net (opened P cl k p N w) = N" "contexts (opened P cl k p N w) (fresh w) = Some (attached cl k (fresh_ctx p (fresh w)))"
  "clients (opened P cl k p N w) = (clients w)(cl \<mapsto> k\<lparr>cl_ctx := Some (fresh w)\<rparr>)"
  "rx_bufs (opened P cl k p N w) = (rx_bufs w)(Suc (fresh w) \<mapsto> fresh_rx (fresh w))"
  "writers (opened P cl k p N w) = (writers w)(Suc (Suc (fresh w)) \<mapsto> fresh_tx p)"
  "s_defaultNoDelay (opened P cl k p N w) = s_defaultNoDelay w"
  by (simp_all add: opened_def Let_def)

lemma opened_conn:
  "conn cl (k\<lparr>cl_ctx := Some (fresh w)\<rparr>) (fresh w) (attached cl k (fresh_ctx p (fresh w))) (Suc (fresh w))
     (fresh_rx (fresh w)) (Suc (Suc (fresh w))) (opened P cl k p N w)"
  by (simp add: conn_def opened_simps) (simp add: fresh_ctx_def fresh_rx_def)

lemma opened_rep: "rx_rep (Suc (fresh w)) [] [] (opened P cl k p N w)"
  by (simp add: rx_rep_def rx_owns_def cursor_ok_def unread_def opened_simps) (simp add: fresh_rx_def)

text \<open>What remains of \<open>_ts_connect\<close> then.\<close>

definition finish_connect :: "'h platform \<Rightarrow> addr \<Rightarrow> addr \<Rightarrow> ip_addr \<Rightarrow> u16 \<Rightarrow> ('h, cint) cprog" where
  "finish_connect P cl c ip port =
     pbind (TcpClientContext_connect P c ip port) (\<lambda>res.
     if res \<noteq> ERR_OK P then
       pseq (TcpClientContext_delete P c)
      (pseq (upd_client cl (cl_ctx_update (\<lambda>_. None)))
            (ret (scast res)))
     else
       pbind (gets s_defaultNoDelay) (\<lambda>d.
       pseq (TcpClient_setNoDelay P cl d)
            (ret (PICO_OK P))))"

lemma attached_ctx [simp]: "attached cl (k\<lparr>cl_ctx := a\<rparr>) x = attached cl k x"
  by (simp add: attached_def)

lemma tcp_new_result:
  assumes "open_contract P"
  shows "fst (tcp_new P n) = None \<Longrightarrow> net_frame n (snd (tcp_new P n))"
    "fst (tcp_new P n) = Some p \<Longrightarrow> pcbs n p = None"
    "fst (tcp_new P n) = Some p \<Longrightarrow> pbufs (snd (tcp_new P n)) = pbufs n \<and> (\<exists>b. pcbs (snd (tcp_new P n)) = (pcbs n)(p \<mapsto> b))"
proof -
  have "pbufs (snd (tcp_new P n)) = pbufs n \<and>
      (case fst (tcp_new P n) of None \<Rightarrow> pcbs (snd (tcp_new P n)) = pcbs n | Some p \<Rightarrow> pcbs n p = None \<and>
         (\<exists>c. pcbs (snd (tcp_new P n)) = (pcbs n)(p \<mapsto> c) \<and> pcb_regs c = (None, None, None, None, None)))"
    using assms unfolding open_contract_def by blast
  then show "fst (tcp_new P n) = None \<Longrightarrow> net_frame n (snd (tcp_new P n))"
    "fst (tcp_new P n) = Some p \<Longrightarrow> pcbs n p = None"
    "fst (tcp_new P n) = Some p \<Longrightarrow> pbufs (snd (tcp_new P n)) = pbufs n \<and> (\<exists>b. pcbs (snd (tcp_new P n)) = (pcbs n)(p \<mapsto> b))"
    by (auto simp: net_frame_def)
qed

lemma ts_connect_opens:
  fixes P :: "'h platform"
  assumes O: "open_contract P" and R: "reg_contract P" and k: "clients w cl = Some k" "cl_ctx k = None"
    and new: "fst (tcp_new P (net w)) = Some p"
  shows "\<exists>N. TcpClient_ts_connect P cl ip port w = finish_connect P cl (fresh w) ip port (opened P cl k p N w) \<and>
    opened_net (fresh w) p (net w) N"
proof -
  define N0 where "N0 = snd (tcp_new P (net w))"
  define w0 where "w0 = w\<lparr>net := N0, calls := calls w @ [Tcp_new]\<rparr>"
  from tcp_new_result(3) [OF O new] obtain b0 where N0: "pbufs N0 = pbufs (net w)" "pcbs N0 = (pcbs (net w))(p \<mapsto> b0)"
    by (auto simp: N0_def)
  then have live0: "pcbs (net w0) p \<noteq> None" by (simp add: w0_def)
  from TcpClient_assignPort_run [OF live0] obtain N1 where
    N1: "TcpClient_assignPort p w0 = Inr ((), w0\<lparr>net := N1, s_localPort := next_port (s_localPort w0)\<rparr>)"
      "net_frame N0 N1" by (auto simp: w0_def)
  define w1 where "w1 = w0\<lparr>net := N1, s_localPort := next_port (s_localPort w0)\<rparr>"
  have live1: "pcbs (net w1) p \<noteq> None"
    using live0 net_frame_live [OF N1(2), of p] by (simp add: w1_def w0_def)
  from TcpClientContext_new_run [OF O R live1] obtain N where
    N: "TcpClientContext_new P p w1 = Inr (fresh w1, w1\<lparr>net := N,
      contexts := (contexts w1)(fresh w1 \<mapsto> fresh_ctx p (fresh w1)),
      rx_bufs := (rx_bufs w1)(Suc (fresh w1) \<mapsto> fresh_rx (fresh w1)),
      writers := (writers w1)(Suc (Suc (fresh w1)) \<mapsto> fresh_tx p), fresh := Suc (Suc (Suc (fresh w1))),
      calls := calls w1 @ register_calls P p (fresh w1)\<rparr>)" (is "_ = Inr (_, ?w2)")
    "opened_net (fresh w1) p N1 N"
    unfolding opened_net_def by (auto simp: w1_def)
  have c: "fresh w1 = fresh w" by (simp add: w1_def w0_def)
  have on: "opened_net (fresh w) p (net w) N"
    using N(2) N1(2) N0 by (simp add: opened_net_def net_frame_def c)
  have att: "TcpClient_attach cl (fresh w) (?w2\<lparr>clients := (clients w)(cl \<mapsto> k\<lparr>cl_ctx := Some (fresh w)\<rparr>)\<rparr>) =
      Inr ((), opened P cl k p N w)"
    by (subst TcpClient_attach_run) (auto simp: c opened_def w1_def w0_def Let_def)
  have ext: "ext_val Tcp_new (tcp_new P) w = Inr (Some p, w0)" using new by (simp add: w0_def N0_def)
  have "TcpClient_ts_connect P cl ip port w = finish_connect P cl (fresh w) ip port (opened P cl k p N w)"
  proof -
    have upd: "upd_client cl (cl_ctx_update (\<lambda>_. Some (fresh w))) ?w2 =
        Inr ((), ?w2\<lparr>clients := (clients w)(cl \<mapsto> k\<lparr>cl_ctx := Some (fresh w)\<rparr>)\<rparr>)"
      using k by (simp add: prog_simps w1_def w0_def)
    show ?thesis
      unfolding TcpClient_ts_connect_def finish_connect_def [symmetric] using k
      by (simp add: pbind_apply pseq_apply lookup_obj_def ext N1(1) w1_def [symmetric] N(1) c upd [unfolded c] att [unfolded c]
          del: ext_val_apply)
  qed
  with on show ?thesis by blast
qed

text \<open>lwIP's immediate answer to an attempt to connect.\<close>

definition connect_answers :: "'h platform \<Rightarrow> addr \<Rightarrow> u16 \<Rightarrow> err_t \<Rightarrow> bool" where
  "connect_answers P p port e \<longleftrightarrow> (\<forall>n a. fst (tcp_connect P p a port Fn_s_connected n) = e)"

lemma TcpClientContext_connect_run:
  fixes P :: "'h platform"
  assumes O: "open_contract P" and x: "contexts v c = Some x" "ctx_pcb x = Some p" and live: "pcbs (net v) p \<noteq> None"
  shows "\<exists>e a N. TcpClientContext_connect P c ip port v =
      Inr (e, v\<lparr>net := N, calls := calls v @ [Tcp_connect p a port]\<rparr>) \<and> net_frame (net v) N \<and>
    (\<forall>e'. connect_answers P p port e' \<longrightarrow> e = e')"
proof -
  let ?a = "if LWIP_IPV6 P \<and> ip_is_v6 P ip \<and> ip6_lacks_zone P ip then ip6_assign_zone P ip (net v) else ip"
  let ?res = "tcp_connect P p ?a port Fn_s_connected (net v)"
  have "TcpClientContext_connect P c ip port v = Inr (fst ?res, v\<lparr>net := snd ?res, calls := calls v @ [Tcp_connect p ?a port]\<rparr>)"
    using x live by (auto simp: TcpClientContext_connect_def prog_simps)
  moreover have "net_frame (net v) (snd ?res)" using O live by (simp add: open_contract_def)
  moreover have "\<forall>e'. connect_answers P p port e' \<longrightarrow> fst ?res = e'" by (auto simp: connect_answers_def)
  ultimately show ?thesis by blast
qed

lemma TcpClient_setNoDelay_run:
  fixes P :: "'h platform"
  assumes O: "open_contract P" and x: "clients v cl = Some k" "cl_ctx k = Some c" "contexts v c = Some x" "ctx_pcb x = Some p"
    and live: "pcbs (net v) p \<noteq> None"
  shows "\<exists>N. TcpClient_setNoDelay P cl d v =
      Inr ((), v\<lparr>net := N, calls := calls v @ [if d then Tcp_nagle_disable p else Tcp_nagle_enable p]\<rparr>) \<and>
    net_frame (net v) N"
proof -
  let ?N = "if d then tcp_nagle_disable P p (net v) else tcp_nagle_enable P p (net v)"
  have "net_frame (net v) ?N" using O live by (simp add: open_contract_def)
  with x live show ?thesis
    by (intro exI [of _ ?N])
      (auto simp: TcpClient_setNoDelay_def TcpClientContext_setNoDelay_def prog_simps)
qed

text \<open>lwIP's answer in the state of \<open>opened\<close>, and the two ways in which \<open>_ts_connect\<close> goes on.\<close>

lemma opened_pcb: "ctx_pcb (attached cl k (fresh_ctx p c)) = Some p" "ctx_rx (attached cl k (fresh_ctx p c)) = Some (Suc c)"
  "ctx_tx (attached cl k (fresh_ctx p c)) = Some (Suc (Suc c))"
  by (simp_all add: fresh_ctx_def TcpClientContext_init_def)

lemma opened_connects:
  fixes P :: "'h platform"
  assumes O: "open_contract P" and N: "opened_net (fresh w) p n N"
  obtains e a M where "TcpClientContext_connect P (fresh w) ip port (opened P cl k p N w) =
      Inr (e, (opened P cl k p N w)\<lparr>net := M, calls := calls (opened P cl k p N w) @ [Tcp_connect p a port]\<rparr>)"
    "net_frame N M" "\<And>e'. connect_answers P p port e' \<Longrightarrow> e = e'"
proof -
  have "pcbs (net (opened P cl k p N w)) p \<noteq> None" using opened_net_live [OF N] by (simp add: opened_simps)
  from TcpClientContext_connect_run [OF O opened_simps(2) opened_pcb(1) this, of ip port] show ?thesis
    using that by (auto simp: opened_simps)
qed

lemma finish_connect_ok:
  fixes P :: "'h platform"
  assumes O: "open_contract P" and N: "opened_net (fresh w) p n N"
    and c: "TcpClientContext_connect P (fresh w) ip port (opened P cl k p N w) =
      Inr (ERR_OK P, (opened P cl k p N w)\<lparr>net := M1, calls := calls (opened P cl k p N w) @ [Tcp_connect p a port]\<rparr>)"
      (is "_ = Inr (_, ?v1)") "net_frame N M1"
  shows "\<exists>M. finish_connect P cl (fresh w) ip port (opened P cl k p N w) =
      Inr (PICO_OK P, (opened P cl k p N w)\<lparr>net := M, calls := calls (opened P cl k p N w) @
        [Tcp_connect p a port, if s_defaultNoDelay w then Tcp_nagle_disable p else Tcp_nagle_enable p]\<rparr>) \<and>
    net_frame N M"
proof -
  have live1: "pcbs (net ?v1) p \<noteq> None" using opened_net_live [OF N] net_frame_live [OF c(2), of p] by simp
  have "clients ?v1 cl = Some (k\<lparr>cl_ctx := Some (fresh w)\<rparr>)" "contexts ?v1 (fresh w) = Some (attached cl k (fresh_ctx p (fresh w)))"
    by (simp_all add: opened_simps)
  from TcpClient_setNoDelay_run [OF O this(1) _ this(2) opened_pcb(1) live1, of "s_defaultNoDelay w"] obtain M where
    d: "TcpClient_setNoDelay P cl (s_defaultNoDelay w) ?v1 = Inr ((), ?v1\<lparr>net := M, calls := calls ?v1 @
        [if s_defaultNoDelay w then Tcp_nagle_disable p else Tcp_nagle_enable p]\<rparr>)" "net_frame M1 M"
    by auto
  have "finish_connect P cl (fresh w) ip port (opened P cl k p N w) = Inr (PICO_OK P, ?v1\<lparr>net := M, calls := calls ?v1 @
        [if s_defaultNoDelay w then Tcp_nagle_disable p else Tcp_nagle_enable p]\<rparr>)"
    using d(1) by (simp add: finish_connect_def pbind_apply pseq_apply c(1) opened_simps)
  with net_frame_trans [OF c(2) d(2)] show ?thesis by (intro exI [of _ M]) simp
qed

text \<open>After a rejection the objects are gone again; the PCB and its registrations are not.\<close>

definition rejected_world :: "addr \<Rightarrow> TcpClient \<Rightarrow> 'h world \<Rightarrow> 'h world \<Rightarrow> bool" where
  "rejected_world cl k w w' \<longleftrightarrow> clients w' = (clients w)(cl \<mapsto> k\<lparr>cl_ctx := None\<rparr>) \<and>
     contexts w' = (contexts w)(fresh w := None) \<and> rx_bufs w' = (rx_bufs w)(Suc (fresh w) := None) \<and>
     writers w' = (writers w)(Suc (Suc (fresh w)) := None) \<and> fresh w' = Suc (Suc (Suc (fresh w)))"

lemma finish_connect_fails:
  fixes P :: "'h platform"
  assumes B: "pbuf_contract P" and N: "opened_net (fresh w) p n N" and e: "e \<noteq> ERR_OK P"
    and c: "TcpClientContext_connect P (fresh w) ip port (opened P cl k p N w) =
      Inr (e, (opened P cl k p N w)\<lparr>net := M, calls := calls (opened P cl k p N w) @ [Tcp_connect p a port]\<rparr>)"
      (is "_ = Inr (_, ?v1)") "net_frame N M"
  shows "\<exists>w'. finish_connect P cl (fresh w) ip port (opened P cl k p N w) = Inr (scast e, w') \<and>
    rejected_world cl k w w' \<and> opened_net (fresh w) p n (net w')"
proof -
  let ?c = "fresh w"
  have "rx_rep (Suc ?c) [] [] ?v1"
    using opened_rep [of w P cl k p N] by (subst rx_rep_cong [where w = "opened P cl k p N w"]) simp_all
  from TcpClientContext_delete_run [OF B _ opened_pcb(2,3) this, of ?c cl k p "fresh_rx ?c" "fresh_tx p"] obtain M1 where
    d: "TcpClientContext_delete P ?c ?v1 = Inr ((), ?v1\<lparr>net := M1, contexts := (contexts ?v1)(?c := None),
      rx_bufs := (rx_bufs ?v1)(Suc ?c := None), writers := (writers ?v1)(Suc (Suc ?c) := None),
      calls := calls ?v1 @ rx_reset_calls (fresh_rx ?c)\<rparr>)" "pbufs M1 = pbufs M" "pcbs M1 = pcbs M"
    by (auto simp: opened_simps)
  have "opened_net ?c p n M1"
    using opened_net_frame [OF N c(2)] d(2,3) by (simp add: opened_net_def)
  then show ?thesis using e
    by (simp add: finish_connect_def pbind_apply pseq_apply c(1) d(1) upd_client_apply opened_simps rejected_world_def)
      (simp add: opened_def Let_def)
qed

text \<open>Every outcome of \<open>_ts_connect\<close> for an idle client that gets a PCB.\<close>

lemma ts_connect_run:
  fixes P :: "'h platform"
  assumes O: "open_contract P" and R: "reg_contract P"
    and k: "clients w cl = Some k" "cl_ctx k = None" and new: "fst (tcp_new P (net w)) = Some p"
  obtains (accepted) w' N M cs where "TcpClient_ts_connect P cl ip port w = Inr (PICO_OK P, w')"
      "w' = (opened P cl k p N w)\<lparr>net := M, calls := cs\<rparr>" "opened_net (fresh w) p (net w) M"
      "\<And>e. connect_answers P p port e \<Longrightarrow> e = ERR_OK P"
      "\<exists>a. cs = calls w @ connect_calls P p (fresh w) a port (s_defaultNoDelay w)"
  | (turned_down) e where "e \<noteq> ERR_OK P" "\<And>e'. connect_answers P p port e' \<Longrightarrow> e = e'"
      "pbuf_contract P \<Longrightarrow> \<exists>w'. TcpClient_ts_connect P cl ip port w = Inr (scast e, w') \<and>
        rejected_world cl k w w' \<and> opened_net (fresh w) p (net w) (net w')"
proof -
  from ts_connect_opens [OF O R k new, of ip port] obtain N where
    N: "TcpClient_ts_connect P cl ip port w = finish_connect P cl (fresh w) ip port (opened P cl k p N w)"
      "opened_net (fresh w) p (net w) N" by blast
  obtain e a M where c: "TcpClientContext_connect P (fresh w) ip port (opened P cl k p N w) =
      Inr (e, (opened P cl k p N w)\<lparr>net := M, calls := calls (opened P cl k p N w) @ [Tcp_connect p a port]\<rparr>)"
    "net_frame N M" "\<And>e'. connect_answers P p port e' \<Longrightarrow> e = e'" using opened_connects [OF O N(2), of ip port cl k] by blast
  show ?thesis
  proof (cases "e = ERR_OK P")
    case True
    from finish_connect_ok [OF O N(2) c(1,2) [unfolded True]] obtain M' where
      M': "finish_connect P cl (fresh w) ip port (opened P cl k p N w) =
        Inr (PICO_OK P, (opened P cl k p N w)\<lparr>net := M', calls := calls (opened P cl k p N w) @
        [Tcp_connect p a port, if s_defaultNoDelay w then Tcp_nagle_disable p else Tcp_nagle_enable p]\<rparr>)" "net_frame N M'" by blast
    show ?thesis
      using N(1) M'(1) c(3) True
      by (intro accepted [OF _ refl opened_net_frame [OF N(2) M'(2)]]) (auto simp: opened_def connect_calls_def Let_def)
  next
    case False
    then show ?thesis
      using N(1) c(3) by (intro turned_down [OF False]) (auto intro: finish_connect_fails [OF _ N(2) False c(1,2)])
  qed
qed

text \<open>
  A complete connection: client, context, receive buffer and writer point to each other, every callback
  leads to the client, lwIP has the context and the library's functions registered for the PCB, the
  receive buffer is empty and the writer uses the same PCB.
\<close>

definition established :: "addr \<Rightarrow> TcpClient \<Rightarrow> addr \<Rightarrow> 'h world \<Rightarrow> bool" where
  "established cl k p w \<longleftrightarrow> (\<exists>c x r y t z b. conn cl (k\<lparr>cl_ctx := Some c\<rparr>) c x r y t w \<and> ctx_pcb x = Some p \<and>
     rx_rep r [] [] w \<and> rx_pcb y = None \<and> pcbs (net w) p = Some b \<and> pcb_regs b = ctx_regs c \<and>
     writers w t = Some z \<and> tx_pcb z = Some p)"

lemma ts_connect_ok_run:
  fixes P :: "'h platform"
  assumes "open_contract P" and "reg_contract P" and "clients w cl = Some k" and "cl_ctx k = None"
    and "fst (tcp_new P (net w)) = Some p" and "connect_answers P p port (ERR_OK P)"
  shows "\<exists>w' a. TcpClient_ts_connect P cl ip port w = Inr (PICO_OK P, w') \<and> established cl k p w' \<and>
    (\<forall>q. q \<noteq> p \<longrightarrow> map_option pcb_regs (pcbs (net w') q) = map_option pcb_regs (pcbs (net w) q)) \<and>
    calls w' = calls w @ connect_calls P p (fresh w) a port (s_defaultNoDelay w)"
proof (rule ts_connect_run [OF assms(1-5), of ip port])
  fix w' N M cs
  assume run: "TcpClient_ts_connect P cl ip port w = Inr (PICO_OK P, w')" and w': "w' = (opened P cl k p N w)\<lparr>net := M, calls := cs\<rparr>"
    and on: "opened_net (fresh w) p (net w) M" and cs: "\<exists>a. cs = calls w @ connect_calls P p (fresh w) a port (s_defaultNoDelay w)"
  have "conn cl (k\<lparr>cl_ctx := Some (fresh w)\<rparr>) (fresh w) (attached cl k (fresh_ctx p (fresh w)))
      (Suc (fresh w)) (fresh_rx (fresh w)) (Suc (Suc (fresh w))) w'"
    using opened_conn [where cl = cl and k = k and w = w and p = p and P = P and N = N] w' by (simp add: conn_def)
  moreover have "rx_rep (Suc (fresh w)) [] [] w'"
    using opened_rep [of w P cl k p N] w' by (subst rx_rep_cong [where w = "opened P cl k p N w"]) simp_all
  moreover have "writers w' (Suc (Suc (fresh w))) = Some (fresh_tx p)" "tx_pcb (fresh_tx p) = Some p"
    using w' by (simp_all add: opened_simps) (simp add: fresh_tx_def)
  moreover obtain b where "pcbs (net w') p = Some b" "pcb_regs b = ctx_regs (fresh w)"
    and other: "\<forall>q. q \<noteq> p \<longrightarrow> map_option pcb_regs (pcbs (net w') q) = map_option pcb_regs (pcbs (net w) q)"
    using on w' by (auto simp: opened_net_def)
  moreover have "rx_pcb (fresh_rx (fresh w)) = None" by (simp add: fresh_rx_def)
  ultimately have "established cl k p w'" unfolding established_def using opened_pcb(1) by blast
  with run other w' cs show ?thesis by auto
qed (use assms(6) in blast)

section \<open>Ending a connection\<close>

lemma conn_is_open:
  assumes "conn cl k c x r y t w" "ctx_pcb x = Some p" "pcbs (net w) p \<noteq> None" "rx_rep r ps bs w"
  shows "conn_open c p r ps w"
  using assms by (auto simp: conn_def conn_open_def)

lemma TcpClient_stop_run:
  assumes E: "end_contracts P" and C: "conn cl k c x r y t w" and op: "conn_open c p r ps w"
  shows "\<exists>res w'. TcpClient_stop P cl w = Inr (res, w') \<and> conn_ended c p r ps w w'"
proof -
  from closing.ends [OF E op] obtain e w' where "TcpClientContext_close P c w = Inr (e, w')" "conn_ended c p r ps w w'"
    by blast
  with C show ?thesis by (simp add: TcpClient_stop_def conn_def prog_simps)
qed

lemma conn_ended_conn:
  assumes "conn cl k c x r y t w" "conn_ended c p r ps w w'"
  shows "conn cl k c (x\<lparr>ctx_pcb := None\<rparr>) r (rx_reset_obj y) t w'"
  using assms by (auto simp: conn_simps conn_ended_def)

lemma conn_ended_rep: "rx_rep r ps bs w \<Longrightarrow> conn_ended c p r qs w w' \<Longrightarrow> rx_rep r [] [] w'"
  by (auto simp: conn_ended_def intro: rx_rep_reset_obj)

text \<open>\<open>conn_released\<close>: the connection's PCB, objects and pbufs are gone, the client is as before it connected.\<close>

definition conn_released ::
  "addr \<Rightarrow> TcpClient \<Rightarrow> addr \<Rightarrow> addr \<Rightarrow> addr \<Rightarrow> addr \<Rightarrow> addr list \<Rightarrow> 'h world \<Rightarrow> 'h world \<Rightarrow> bool" where
  "conn_released cl k c p r t ps w w' \<longleftrightarrow> clients w' = (clients w)(cl \<mapsto> k\<lparr>cl_ctx := None\<rparr>) \<and>
     contexts w' = (contexts w)(c := None) \<and> rx_bufs w' = (rx_bufs w)(r := None) \<and>
     writers w' = (writers w)(t := None) \<and> pcbs (net w') = (pcbs (net w))(p := None) \<and>
     pbufs (net w') = pbufs (net w) |` (- set ps) \<and> fresh w' = fresh w"

lemma TcpClient_shutdown_run:
  fixes w :: "'h world"
  assumes E: "end_contracts P" and C: "conn cl k c x r y t w" and pcb: "ctx_pcb x = Some p" "pcbs (net w) p \<noteq> None"
    and rep: "rx_rep r ps bs w" and tx: "writers w t = Some z"
  shows "\<exists>res w'. TcpClient_shutdown P cl w = Inr (res, w') \<and> conn_released cl k c p r t ps w w'"
proof -
  from TcpClient_stop_run [OF E C conn_is_open [OF C pcb rep]] obtain res w1 where
    stop: "TcpClient_stop P cl w = Inr (res, w1)" and ended: "conn_ended c p r ps w w1" by blast
  have C1: "conn cl k c (x\<lparr>ctx_pcb := None\<rparr>) r (rx_reset_obj y) t w1" by (rule conn_ended_conn [OF C ended])
  have "pbuf_contract P" using E by (simp add: end_contracts_def)
  moreover have "contexts w1 c = Some (x\<lparr>ctx_pcb := None\<rparr>)" "rx_bufs w1 r = Some (rx_reset_obj y)" "clients w1 cl = Some k"
    using C1 by (simp_all add: conn_def)
  moreover have "ctx_rx (x\<lparr>ctx_pcb := None\<rparr>) = Some r" "ctx_tx (x\<lparr>ctx_pcb := None\<rparr>) = Some t"
    using C by (simp_all add: conn_def)
  moreover have "rx_rep r [] [] w1" by (rule conn_ended_rep [OF rep ended])
  moreover have "writers w1 t = Some z" using ended tx by (auto simp: conn_ended_def)
  ultimately obtain N where
    del: "TcpClientContext_delete P c w1 = Inr ((), w1\<lparr>net := N, contexts := (contexts w1)(c := None),
      rx_bufs := (rx_bufs w1)(r := None), writers := (writers w1)(t := None),
      calls := calls w1 @ rx_reset_calls (rx_reset_obj y)\<rparr>)" "pbufs N = pbufs (net w1)" "pcbs N = pcbs (net w1)"
    using TcpClientContext_delete_run [of P w1 c "x\<lparr>ctx_pcb := None\<rparr>" r t "[]" "[]" "rx_reset_obj y" z] by auto
  let ?w' = "w1\<lparr>net := N, contexts := (contexts w1)(c := None), rx_bufs := (rx_bufs w1)(r := None),
      writers := (writers w1)(t := None), calls := calls w1 @ rx_reset_calls (rx_reset_obj y),
      clients := (clients w1)(cl \<mapsto> k\<lparr>cl_ctx := None\<rparr>)\<rparr>"
  have "TcpClient_shutdown P cl w = Inr (res, ?w')"
    using stop del(1) C1 by (simp add: TcpClient_shutdown_def conn_def prog_simps)
  moreover have "conn_released cl k c p r t ps w ?w'"
    using ended del(2,3) by (auto simp: conn_released_def conn_ended_def)
  ultimately show ?thesis by blast
qed

text \<open>A freed PCB: every operation that looks at it is a use after free.\<close>

lemma close_dangling:
  assumes P: "pbuf_contract P" and C: "conn cl k c x r y t w" and pcb: "ctx_pcb x = Some p" "pcbs (net w) p = None"
    and rep: "rx_rep r ps bs w"
  shows "TcpClientContext_close P c w = Inl (Dangling_pcb p)"
proof -
  have y: "rx_bufs w r = Some y" using C by (simp add: conn_def)
  from IoRxBuffer_reset_exact [OF P rep y] obtain N where
    N: "IoRxBuffer_reset P r w = Inr ((), w\<lparr>net := N, rx_bufs := (rx_bufs w)(r \<mapsto> rx_reset_obj y),
      calls := calls w @ rx_reset_calls y\<rparr>)" "pcbs N = pcbs (net w)" by blast
  then have "TcpClientContext_detach P (Some r) p w = Inl (Dangling_pcb p)"
    using pcb(2) by (simp add: TcpClientContext_detach_def pseq_apply pbind_apply on_pcb_def get_pcb_def)
  with C pcb show ?thesis
    by (simp add: TcpClientContext_close_def conn_def pseq_apply pbind_apply lookup_obj_def)
qed

lemma writeData_dangling:
  assumes "writers w t = Some z" "tx_pcb z = Some p" "pcbs (net w) p = None" "0 < sz"
  shows "TcpWriter_writeData P t (Some d) sz w = Inl (Dangling_pcb p)"
proof -
  have "TcpWriter_writeStep P t d sz 0 w = Inl (Dangling_pcb p)"
    using assms by (simp add: TcpWriter_writeStep_def TcpWriter_getOptimalChunkSize_def
        TcpWriter_availableForWrite_def prog_simps)
  then have "run_loop Diverges (TcpWriter_writeStep P t d sz) 0 w = Inl (Dangling_pcb p)"
    by (subst run_loop_unfold) simp
  with assms show ?thesis by (auto simp: TcpWriter_writeData_def pbind_apply lookup_obj_def)
qed

section \<open>Properties\<close>

text \<open>A client at address 30 without a connection, and a platform whose \<open>tcp_connect\<close> reports an error.\<close>

definition sample_idle_world :: "size_t world" where
  "sample_idle_world = (sample_world (sample_net Map.empty Map.empty 1000))
     \<lparr>clients := [30 \<mapsto> sample_client\<lparr>cl_ctx := None\<rparr>]\<rparr>"

definition refusing :: "size_t platform" where
  "refusing = sample\<lparr>tcp_connect := (\<lambda>p a k f n. (ERR_ABRT sample, n))\<rparr>"

lemma refusing_sel:
  "tcp_new refusing = tcp_new sample" "tcp_setprio refusing = tcp_setprio sample"
  "tcp_nagle_disable refusing = tcp_nagle_disable sample" "tcp_nagle_enable refusing = tcp_nagle_enable sample"
  "tcp_connect refusing = (\<lambda>p a k f n. (ERR_ABRT sample, n))"
  by (simp_all add: refusing_def)

lemma refusing_contracts: "open_contract refusing" "reg_contract refusing" "pbuf_contract refusing"
  "connect_answers refusing p port (ERR_ABRT refusing)" "ERR_ABRT refusing \<noteq> ERR_OK refusing"
proof -
  show "open_contract refusing" using sample_open_contract unfolding open_contract_def refusing_sel by simp
  show "reg_contract refusing" using sample_reg_contract by (simp add: reg_contract_def refusing_def)
  show "pbuf_contract refusing"
    using sample_pbuf_contract
    by (simp add: pbuf_contract_def pbuf_free_contract_def pbuf_ref_contract_def pbuf_cat_contract_def refusing_def)
  show "connect_answers refusing p port (ERR_ABRT refusing)" by (simp add: connect_answers_def refusing_def)
  show "ERR_ABRT refusing \<noteq> ERR_OK refusing" by (simp add: refusing_def) (simp add: sample_def)
qed

lemma sample_connect_answers: "connect_answers sample p port (ERR_OK sample)"
  by (simp add: connect_answers_def sample_def)

lemma sample_new_pcb: "pcbs n 7 = None \<Longrightarrow> fst (tcp_new sample n) = Some 7" "pcbs n 7 = None \<Longrightarrow> fst (tcp_new refusing n) = Some 7"
  by (simp_all add: refusing_def) (simp_all add: sample_def)

lemma sample_idle: "clients sample_idle_world 30 = Some (sample_client\<lparr>cl_ctx := None\<rparr>)"
  "pcbs (net sample_idle_world) 7 = None"
  by (simp_all add: sample_idle_world_def sample_world_def sample_net_def)

text \<open>
  C18. \<open>_ts_connect\<close> of an idle client, when lwIP has a PCB and accepts the attempt, returns \<open>PICO_OK\<close>
  and leaves a complete connection: client, context, receive buffer and writer point to each other,
  every callback leads to the client, lwIP has the context and the library's functions registered for
  the new PCB, the receive buffer is empty and the writer uses the same PCB. The registrations of other
  PCBs are as before.
\<close>

theorem ts_connect_establishes:
  assumes "open_contract P" and "reg_contract P" and "clients w cl = Some k" and "cl_ctx k = None"
    and "fst (tcp_new P (net w)) = Some p" and "connect_answers P p port (ERR_OK P)"
  shows "\<exists>w'. TcpClient_ts_connect P cl ip port w = Inr (PICO_OK P, w') \<and> established cl k p w' \<and>
    (\<forall>q. q \<noteq> p \<longrightarrow> map_option pcb_regs (pcbs (net w') q) = map_option pcb_regs (pcbs (net w) q))"
  using ts_connect_ok_run [OF assms] by blast

theorem ts_connect_establishes_witness:
  "\<exists>w'. TcpClient_ts_connect sample 30 1 80 sample_idle_world = Inr (PICO_OK sample, w') \<and>
    established 30 (sample_client\<lparr>cl_ctx := None\<rparr>) 7 w'"
  using ts_connect_establishes [OF sample_open_contract sample_reg_contract sample_idle(1) _
      sample_new_pcb(1) [OF sample_idle(2)] sample_connect_answers, of 1 80]
  by auto

text \<open>
  \<open>_ts_connect\<close> of a client that has a context returns \<open>PICO_ERROR_RESOURCE_IN_USE\<close> and changes
  nothing; without a free PCB it returns \<open>PICO_ERROR_IO\<close>, having called only \<open>tcp_new\<close>.
\<close>

theorem ts_connect_refuses:
  assumes "clients w cl = Some k" and "cl_ctx k \<noteq> None \<or> fst (tcp_new P (net w)) = None"
  shows "TcpClient_ts_connect P cl ip port w =
    (if cl_ctx k \<noteq> None then Inr (PICO_ERROR_RESOURCE_IN_USE P, w)
     else Inr (PICO_ERROR_IO P, w\<lparr>net := snd (tcp_new P (net w)), calls := calls w @ [Tcp_new]\<rparr>))"
  using assms by (auto simp: TcpClient_ts_connect_def prog_simps)

theorem ts_connect_refuses_witness:
  "TcpClient_ts_connect sample 30 1 80 sample_conn_world =
    Inr (PICO_ERROR_RESOURCE_IN_USE sample, sample_conn_world)"
  using ts_connect_refuses [of sample_conn_world 30 sample_client sample 1 80] by (simp add: sample_conn_simps)

text \<open>
  C35. When \<open>tcp_connect\<close> reports an error, \<open>_ts_connect\<close> returns it, sign-extended to an \<open>int\<close>, and the
  client is idle again; but the PCB has been neither closed nor aborted, and lwIP still has the
  deleted context as its callback argument.
\<close>

theorem ts_connect_failure_leaks:
  fixes P :: "'h platform"
  assumes "open_contract P" and "reg_contract P" and "pbuf_contract P" and "clients w cl = Some k" and "cl_ctx k = None"
    and "fst (tcp_new P (net w)) = Some p" and "connect_answers P p port e" and "e \<noteq> ERR_OK P"
  shows "\<exists>w' c b. TcpClient_ts_connect P cl ip port w = Inr (scast e, w') \<and>
    clients w' cl = Some k \<and> contexts w' c = None \<and>
    pcbs (net w') p = Some b \<and> callback_arg b = Some c \<and> cb_err b = Some Fn_s_error"
proof (rule ts_connect_run [OF assms(1,2,4-6), of ip port])
  fix e'
  assume "\<And>e. connect_answers P p port e \<Longrightarrow> e' = e" and "pbuf_contract P \<Longrightarrow> \<exists>w'. TcpClient_ts_connect P cl ip port w =
    Inr (scast e', w') \<and> rejected_world cl k w w' \<and> opened_net (fresh w) p (net w) (net w')"
  with assms(3,7) obtain w' where w': "TcpClient_ts_connect P cl ip port w = Inr (scast e, w')" "rejected_world cl k w w'"
    "opened_net (fresh w) p (net w) (net w')" by metis
  have "k\<lparr>cl_ctx := None\<rparr> = k" using assms(5) by simp
  moreover from w'(3) obtain b where "pcbs (net w') p = Some b" "callback_arg b = Some (fresh w)" "cb_err b = Some Fn_s_error"
    by (auto simp: opened_net_def pcb_regs_def ctx_regs_def)
  ultimately show ?thesis using w'(1,2) by (auto simp: rejected_world_def)
qed (use assms(7,8) in blast)

theorem ts_connect_failure_leaks_witness:
  "\<exists>w' c b. TcpClient_ts_connect refusing 30 1 80 sample_idle_world = Inr (scast (ERR_ABRT refusing), w') \<and>
    clients w' 30 = Some (sample_client\<lparr>cl_ctx := None\<rparr>) \<and> contexts w' c = None \<and>
    pcbs (net w') 7 = Some b \<and> callback_arg b = Some c \<and> cb_err b = Some Fn_s_error"
  by (rule ts_connect_failure_leaks [OF refusing_contracts(1-3) sample_idle(1) _
      sample_new_pcb(2) [OF sample_idle(2)] refusing_contracts(4,5)]) simp

text \<open>
  C19. \<open>shutdown\<close> of a connected client releases everything the connection had: the PCB, the context,
  the receive buffer with exactly the pbufs it owned, and the writer; the client is idle and nothing
  of other connections has changed.
\<close>

theorem shutdown_releases:
  assumes "end_contracts P" and "conn cl k c x r y t w" and "ctx_pcb x = Some p" and "pcbs (net w) p \<noteq> None"
    and "rx_rep r ps bs w" and "writers w t = Some z"
  shows "\<exists>res w'. TcpClient_shutdown P cl w = Inr (res, w') \<and> conn_released cl k c p r t ps w w'"
  by (rule TcpClient_shutdown_run [OF assms])

theorem shutdown_releases_witness:
  "\<exists>res w'. TcpClient_shutdown sample 30 sample_conn_world = Inr (res, w') \<and>
    conn_released 30 sample_client 40 7 50 60 [1, 2] sample_conn_world w'"
  by (rule shutdown_releases [OF sample_end_contracts sample_conn _ _ sample_conn_rep])
    (simp_all add: sample_conn_simps)

text \<open>
  C37. \<open>stop\<close> leaves the context, whose writer still has the PCB that is gone: a later \<open>writeData\<close>
  of that writer is a use of a freed PCB, and the keep-alive members dereference a null pointer.
\<close>

theorem stop_leaves_dangling_writer:
  assumes "end_contracts P" and "conn cl k c x r y t w" and "ctx_pcb x = Some p" and "pcbs (net w) p \<noteq> None"
    and "rx_rep r ps bs w" and "writers w t = Some z" and "tx_pcb z = Some p" and "0 < sz"
  shows "\<exists>res w'. TcpClient_stop P cl w = Inr (res, w') \<and>
    TcpWriter_writeData P t (Some d) sz w' = Inl (Dangling_pcb p) \<and>
    TcpClient_isKeepAliveEnabled P cl w' = Inl Null_deref"
proof -
  from TcpClient_stop_run [OF assms(1,2) conn_is_open [OF assms(2-5)]] obtain res w' where
    w': "TcpClient_stop P cl w = Inr (res, w')" "conn_ended c p r ps w w'" by blast
  then have "writers w' t = Some z" "pcbs (net w') p = None" using assms(6) by (auto simp: conn_ended_def)
  then have "TcpWriter_writeData P t (Some d) sz w' = Inl (Dangling_pcb p)"
    using assms(7,8) by (intro writeData_dangling)
  moreover have "TcpClient_isKeepAliveEnabled P cl w' = Inl Null_deref"
    using conn_ended_conn [OF assms(2) w'(2)]
    by (simp add: conn_def TcpClient_isKeepAliveEnabled_def the_ctx_def TcpClientContext_isKeepAliveEnabled_def prog_simps)
  ultimately show ?thesis using w'(1) by blast
qed

theorem stop_leaves_dangling_writer_witness:
  "\<exists>res w'. TcpClient_stop sample 30 sample_conn_world = Inr (res, w') \<and>
    TcpWriter_writeData sample 60 (Some [1]) 1 w' = Inl (Dangling_pcb 7) \<and>
    TcpClient_isKeepAliveEnabled sample 30 w' = Inl Null_deref"
  by (rule stop_leaves_dangling_writer [OF sample_end_contracts sample_conn _ _ sample_conn_rep, where z = "fresh_tx 7"])
    (simp_all add: sample_conn_simps, simp_all add: fresh_tx_def)

text \<open>
  C31. A write of the client whose write callback passes the data to \<open>TcpWriter::writeData\<close>. If lwIP accepts every
  chunk, exactly the bytes of the message are handed to it, in order, and flushed. If it does not, because its send
  buffer is full or \<open>tcp_write\<close> reports an error such as \<open>ERR_MEM\<close>, a part of the message is with lwIP, nothing is
  flushed and \<open>write\<close> returns all the same.
\<close>

theorem client_write_sends:
  assumes "send_contract P" and "conn cl k c x r y t w" and "cl_write_callback k = Some f"
    and "\<And>d n. app f (Some t) d n = pbind (TcpWriter_writeData P t (Some d) n) (\<lambda>_. ret ())"
    and "writers w t = Some z" and "tx_pcb z = Some p" and "pcbs (net w) p \<noteq> None" and "unat sz = length d" and "0 < sz"
  shows "case send_message P p d (net w) of (sent, cks, N) \<Rightarrow>
    TcpClient_write app cl (Some d) sz w = Inr ((), w\<lparr>net := if sent then tcp_output P p N else N,
      calls := calls w @ write_calls p cks @ (if sent then [Tcp_output p] else [])\<rparr>) \<and>
    send_outcome P p d (net w) sent cks N"
proof -
  obtain sent cks N where m: "send_message P p d (net w) = (sent, cks, N)" by (cases "send_message P p d (net w)")
  have "d \<noteq> []" using assms(8,9) by (auto simp: word_gt_0 unat_eq_0)
  with m send_message_outcome have out: "send_outcome P p d (net w) sent cks N" by blast
  from writeData_run [OF assms(1,5-7) _ assms(9), of d] assms(8) m
  have "TcpWriter_writeData P t (Some d) sz w =
      (if sent then Inr (sz, w\<lparr>net := tcp_output P p N, calls := calls w @ write_calls p cks @ [Tcp_output p]\<rparr>)
       else Inr (0, w\<lparr>net := N, calls := calls w @ write_calls p cks\<rparr>))" by simp
  with assms(2-4,9) have "TcpClient_write app cl (Some d) sz w = Inr ((), w\<lparr>net := if sent then tcp_output P p N else N,
      calls := calls w @ write_calls p cks @ (if sent then [Tcp_output p] else [])\<rparr>)"
    by (simp add: TcpClient_write_def conn_def TcpClientContext_getTxWriter_def prog_simps)
  with m out show ?thesis by simp
qed

text \<open>The sample stack, and one whose queue of segments is full.\<close>

definition queue_full :: "size_t platform" where
  "queue_full = sample\<lparr>tcp_write := (\<lambda>p d f n. (ERR_MEM sample, n))\<rparr>"

theorem client_write_sends_witness:
  "(\<exists>w'. TcpClient_write (\<lambda>f tx d n. pbind (TcpWriter_writeData sample 60 (Some d) n) (\<lambda>_. ret ())) 30
      (Some [1, 2, 3]) 3 sample_conn_world = Inr ((), w') \<and> calls w' = [Tcp_write 7 [1, 2, 3] 0, Tcp_output 7]) \<and>
   (\<exists>w'. TcpClient_write (\<lambda>f tx d n. pbind (TcpWriter_writeData queue_full 60 (Some d) n) (\<lambda>_. ret ())) 30
      (Some [1, 2, 3]) 3 sample_conn_world = Inr ((), w') \<and> calls w' = [Tcp_write 7 [1, 2, 3] 0])"
proof -
  have Q: "send_contract queue_full"
    using sample_send_contract by (simp add: send_contract_def queue_full_def)
  have "send_message sample 7 [1, 2, 3] (net sample_conn_world) =
      (True, [([1, 2, 3], 0)], snd (tcp_write sample 7 [1, 2, 3] 0 (net sample_conn_world)))"
    by (subst send_message.simps) (simp add: sample_conn_simps sample_def)
  moreover have "send_message queue_full 7 [1, 2, 3] (net sample_conn_world) =
      (False, [([1, 2, 3], 0)], net sample_conn_world)"
    by (subst send_message.simps) (simp add: sample_conn_simps queue_full_def sample_def)
  moreover note client_write_sends [OF sample_send_contract sample_conn, where f = 0 and z = "fresh_tx 7" and p = 7 and sz = 3
      and d = "[1, 2, 3]" and app = "\<lambda>f tx d n. pbind (TcpWriter_writeData sample 60 (Some d) n) (\<lambda>_. ret ())"]
    client_write_sends [OF Q sample_conn, where f = 0 and z = "fresh_tx 7" and p = 7 and sz = 3
      and d = "[1, 2, 3]" and app = "\<lambda>f tx d n. pbind (TcpWriter_writeData queue_full 60 (Some d) n) (\<lambda>_. ret ())"]
  moreover have "writers sample_conn_world 60 = Some (fresh_tx 7)" "tx_pcb (fresh_tx 7) = Some 7" "calls sample_conn_world = []"
    "pcbs (net sample_conn_world) 7 \<noteq> None" "cl_write_callback sample_client = Some 0" "unat (3 :: size_t) = length [1, 2, 3 :: u8]"
    by (simp_all add: sample_conn_simps) (simp add: fresh_tx_def)
  ultimately show ?thesis by simp
qed

end
