(* ===== verification/Connection_Spec.thy ===== *)
theory Connection_Spec
  imports Tcp_Prelude
begin

text \<open>
  What the library promises its users, without objects, pointers or pbufs: each client is in one of
  four phases, an open connection is a stream of bytes with a reading position, and a step concerns
  one client. What it does not promise is there as well: the PCBs it has lost. The theory of the life cycle shows that the library's objects implement this automaton.
\<close>

section \<open>States\<close>

text \<open>
  \<open>Open p dl n\<close>: the connection uses the PCB \<open>p\<close>, lwIP has delivered the bytes \<open>dl\<close> on it, and the
  application has consumed the first \<open>n\<close> of them. \<open>Closed\<close>: stopped, but not shut down. \<open>Failed\<close>: lwIP has
  reported a fatal error and freed the PCB.
\<close>

datatype phase = Idle | Open addr "u8 list" nat | Closed | Failed addr "u8 list" nat

text \<open>The bytes a reader would get.\<close>

fun unread_of :: "phase \<Rightarrow> u8 list" where
  "unread_of (Open p dl n) = drop n dl"
| "unread_of (Failed p dl n) = drop n dl"
| "unread_of _ = []"

text \<open>The PCB that a client in this phase would leave behind.\<close>

fun held_pcb :: "phase \<Rightarrow> addr set" where
  "held_pcb (Open p dl n) = {p}"
| "held_pcb _ = {}"

text \<open>
  The clients that exist, with their phases; and the lost PCBs, which are still alive in lwIP but belong
  to no client any more.
\<close>

type_synonym phases = "addr \<rightharpoonup> phase"
type_synonym spec = "phases \<times> addr set"

section \<open>Steps\<close>

datatype label =
    L_new addr | L_delete addr | L_connect addr | L_stop addr | L_shutdown addr
  | L_consume addr nat | L_receive addr "u8 list" | L_error addr | L_quiet

fun stopped :: "phase \<Rightarrow> phase" where
  "stopped (Open p dl n) = Closed"
| "stopped s = s"

fun advanced :: "nat \<Rightarrow> phase \<Rightarrow> phase" where
  "advanced k (Open p dl n) = Open p dl (min (n + k) (length dl))"
| "advanced k s = s"

text \<open>
  Connecting gives an idle client a PCB that is neither in use nor lost, or finds none, or loses the one it
  got because lwIP rejects the attempt; it leaves other clients as they are. After a failure a client can
  only be destroyed. Destroying a client loses the PCB of its connection. Nothing else loses a PCB, and
  nothing ever finds a lost one again.
\<close>

definition unused :: "addr \<Rightarrow> spec \<Rightarrow> bool" where
  "unused p A \<longleftrightarrow> p \<notin> snd A \<and> (\<forall>cl dl n. fst A cl \<noteq> Some (Open p dl n))"

inductive spec_step :: "label \<Rightarrow> spec \<Rightarrow> spec \<Rightarrow> bool" where
  new: "S cl = None \<Longrightarrow> spec_step (L_new cl) (S, Q) (S(cl \<mapsto> Idle), Q)"
| delete: "S cl = Some s \<Longrightarrow> spec_step (L_delete cl) (S, Q) (S(cl := None), Q \<union> held_pcb s)"
| connect: "S cl = Some Idle \<Longrightarrow> unused p (S, Q) \<Longrightarrow> spec_step (L_connect cl) (S, Q) (S(cl \<mapsto> Open p [] 0), Q)"
| no_pcb: "S cl = Some Idle \<Longrightarrow> spec_step (L_connect cl) (S, Q) (S, Q)"
| rejected: "S cl = Some Idle \<Longrightarrow> unused p (S, Q) \<Longrightarrow> spec_step (L_connect cl) (S, Q) (S, insert p Q)"
| busy: "S cl = Some s \<Longrightarrow> s \<noteq> Idle \<Longrightarrow> spec_step (L_connect cl) (S, Q) (S, Q)"
| stop: "S cl = Some s \<Longrightarrow> spec_step (L_stop cl) (S, Q) (S(cl \<mapsto> stopped s), Q)"
| shutdown: "S cl = Some s \<Longrightarrow> spec_step (L_shutdown cl) (S, Q) (S(cl \<mapsto> Idle), Q)"
| consume: "S cl = Some s \<Longrightarrow> spec_step (L_consume cl k) (S, Q) (S(cl \<mapsto> advanced k s), Q)"
| receive: "S cl = Some (Open p dl n) \<Longrightarrow> spec_step (L_receive p d) (S, Q) (S(cl \<mapsto> Open p (dl @ d) n), Q)"
| error: "S cl = Some (Open p dl n) \<Longrightarrow> spec_step (L_error p) (S, Q) (S(cl \<mapsto> Failed p dl n), Q)"
| quiet: "spec_step L_quiet (S, Q) (S, Q)"

inductive_simps spec_step_new [simp]: "spec_step (L_new cl) (S, Q) A"
inductive_simps spec_step_delete [simp]: "spec_step (L_delete cl) (S, Q) A"
inductive_simps spec_step_stop [simp]: "spec_step (L_stop cl) (S, Q) A"
inductive_simps spec_step_shutdown [simp]: "spec_step (L_shutdown cl) (S, Q) A"
inductive_simps spec_step_consume [simp]: "spec_step (L_consume cl k) (S, Q) A"
inductive_simps spec_step_quiet [simp]: "spec_step L_quiet (S, Q) A"
inductive_cases spec_step_connectE: "spec_step (L_connect cl) (S, Q) A"
inductive_cases spec_step_receiveE: "spec_step (L_receive p d) (S, Q) A"
inductive_cases spec_step_errorE: "spec_step (L_error p) (S, Q) A"

inductive spec_run :: "label list \<Rightarrow> spec \<Rightarrow> spec \<Rightarrow> bool" where
  stay: "spec_run [] A A"
| snoc: "spec_run ls A A' \<Longrightarrow> spec_step l A' A'' \<Longrightarrow> spec_run (ls @ [l]) A A''"

section \<open>Invariants of the automaton\<close>

text \<open>No two open connections share a PCB, none uses a lost one, and no reader is ahead of what was delivered.\<close>

fun phase_ok :: "phase \<Rightarrow> bool" where
  "phase_ok (Open p dl n) \<longleftrightarrow> n \<le> length dl"
| "phase_ok (Failed p dl n) \<longleftrightarrow> n \<le> length dl"
| "phase_ok _ \<longleftrightarrow> True"

definition spec_ok :: "spec \<Rightarrow> bool" where
  "spec_ok A \<longleftrightarrow> (\<forall>cl s. fst A cl = Some s \<longrightarrow> phase_ok s) \<and>
     (\<forall>cl cl' p dl n dl' n'. fst A cl = Some (Open p dl n) \<longrightarrow> fst A cl' = Some (Open p dl' n') \<longrightarrow> cl = cl') \<and>
     (\<forall>cl p dl n. fst A cl = Some (Open p dl n) \<longrightarrow> p \<notin> snd A)"

lemma spec_ok_position: "spec_ok A \<Longrightarrow> fst A cl = Some (Open p dl n) \<Longrightarrow> n \<le> length dl"
  unfolding spec_ok_def by (metis phase_ok.simps(1))

lemma phase_ok_advanced: "phase_ok s \<Longrightarrow> phase_ok (advanced k s)"
  by (cases s) auto

lemma phase_ok_stopped: "phase_ok s \<Longrightarrow> phase_ok (stopped s)"
  by (cases s) auto

lemma advanced_Open: "advanced k s = Open p dl n \<longleftrightarrow> (\<exists>m. s = Open p dl m \<and> n = min (m + k) (length dl))"
  by (cases s) auto

lemma stopped_Open [simp]: "stopped s \<noteq> Open p dl n"
  by (cases s) auto

lemma held_pcb_iff [simp]: "p \<in> held_pcb s \<longleftrightarrow> (\<exists>dl n. s = Open p dl n)"
  by (cases s) auto

lemma spec_okD:
  assumes "spec_ok A" "fst A cl = Some (Open p dl n)"
  shows "n \<le> length dl" "p \<notin> snd A" "fst A cl' = Some (Open p dl' n') \<Longrightarrow> cl' = cl"
  using assms spec_ok_position [OF assms] unfolding spec_ok_def by blast+

lemma spec_step_ok:
  assumes "spec_step l A A'" "spec_ok A"
  shows "spec_ok A'"
  using assms spec_okD [OF assms(2)]
  by (cases rule: spec_step.cases)
    (auto simp: spec_ok_def unused_def trans_le_add1 advanced_Open phase_ok_advanced phase_ok_stopped split: if_splits)

text \<open>Only destroying a connected client and a rejected attempt to connect lose a PCB.\<close>

lemma spec_step_lost:
  assumes "spec_step l (S, Q) (S', Q')" "q \<in> Q'" "q \<notin> Q"
  shows "(\<exists>cl dl n. l = L_delete cl \<and> S cl = Some (Open q dl n)) \<or> (\<exists>cl. l = L_connect cl \<and> S cl = Some Idle \<and> S' = S)"
  using assms(1)
proof cases
  case (delete cl s)
  with assms(2,3) show ?thesis by auto
qed (use assms(2,3) in auto)

lemma spec_step_lost_mono: "spec_step l (S, Q) (S', Q') \<Longrightarrow> Q \<subseteq> Q'"
  by (cases rule: spec_step.cases) auto

text \<open>The client a step concerns, if any; the others keep their phases.\<close>

fun concerns :: "phases \<Rightarrow> label \<Rightarrow> addr \<Rightarrow> bool" where
  "concerns S (L_new cl) c = (c = cl)"
| "concerns S (L_delete cl) c = (c = cl)"
| "concerns S (L_connect cl) c = (c = cl)"
| "concerns S (L_stop cl) c = (c = cl)"
| "concerns S (L_shutdown cl) c = (c = cl)"
| "concerns S (L_consume cl k) c = (c = cl)"
| "concerns S (L_receive p d) c = (case S c of Some (Open q dl n) \<Rightarrow> q = p | _ \<Rightarrow> False)"
| "concerns S (L_error p) c = (case S c of Some (Open q dl n) \<Rightarrow> q = p | _ \<Rightarrow> False)"
| "concerns S L_quiet c = False"

lemma spec_step_others: "spec_step l (S, Q) (S', Q') \<Longrightarrow> \<not> concerns S l c \<Longrightarrow> S' c = S c"
  by (cases rule: spec_step.cases) (auto split: option.splits phase.splits)

section \<open>The stream of a connection\<close>

text \<open>What a sequence of steps delivers on a PCB and what it asks to consume for a client.\<close>

primrec received :: "addr \<Rightarrow> label list \<Rightarrow> u8 list" where
  "received p [] = []"
| "received p (l # ls) = (case l of L_receive q d \<Rightarrow> if q = p then d else [] | _ \<Rightarrow> []) @ received p ls"

lemma received_append [simp]: "received p (xs @ ys) = received p xs @ received p ys"
  by (induction xs) simp_all

primrec requested :: "addr \<Rightarrow> label list \<Rightarrow> nat" where
  "requested cl [] = 0"
| "requested cl (l # ls) = (case l of L_consume c k \<Rightarrow> if c = cl then k else 0 | _ \<Rightarrow> 0) + requested cl ls"

lemma requested_append [simp]: "requested cl (xs @ ys) = requested cl xs + requested cl ys"
  by (induction xs) simp_all

text \<open>The steps that end the connection \<open>p\<close> of the client \<open>cl\<close>.\<close>

fun ends_conn :: "addr \<Rightarrow> addr \<Rightarrow> label \<Rightarrow> bool" where
  "ends_conn cl p (L_delete c) = (c = cl)"
| "ends_conn cl p (L_stop c) = (c = cl)"
| "ends_conn cl p (L_shutdown c) = (c = cl)"
| "ends_conn cl p (L_error q) = (q = p)"
| "ends_conn cl p _ = False"

text \<open>One step of an open connection: the stream grows by what is delivered, the position advances by
  at most what is asked for.\<close>

lemma spec_step_stream:
  assumes "spec_step l (S, Q) (S', Q')" "spec_ok (S, Q)" "S cl = Some (Open p dl n)" "\<not> ends_conn cl p l"
  shows "\<exists>m. S' cl = Some (Open p (dl @ received p [l]) m) \<and> n \<le> m \<and> m \<le> n + requested cl [l]"
proof -
  have pos: "n \<le> length dl" using spec_ok_position [OF assms(2)] assms(3) by simp
  have only: "S c = Some (Open p dl' n') \<Longrightarrow> c = cl" for c dl' n'
    using assms(2,3) unfolding spec_ok_def fst_conv by blast
  from assms(1) show ?thesis
  proof cases
    case (receive c q dl' n' d)
    show ?thesis
    proof (cases "c = cl")
      case True
      with receive assms(3) show ?thesis by simp
    next
      case False
      with receive only have "q \<noteq> p" by blast
      with receive False assms(3) show ?thesis by simp
    qed
  qed (use assms(3,4) pos in auto)
qed

lemma spec_run_stream:
  assumes "spec_run ls A A'" "spec_ok A" "fst A cl = Some (Open p dl n)" "\<And>l. l \<in> set ls \<Longrightarrow> \<not> ends_conn cl p l"
  shows "spec_ok A' \<and> (\<exists>m. fst A' cl = Some (Open p (dl @ received p ls) m) \<and> n \<le> m \<and> m \<le> n + requested cl ls)"
  using assms
proof (induction arbitrary: dl n rule: spec_run.induct)
  case (stay A)
  then show ?case by simp
next
  case (snoc ls A A' l A'')
  then obtain m where m: "spec_ok A'" "fst A' cl = Some (Open p (dl @ received p ls) m)" "n \<le> m" "m \<le> n + requested cl ls"
    by fastforce
  have "\<not> ends_conn cl p l" using snoc.prems(3) by simp
  from spec_step_stream [of l "fst A'" "snd A'" "fst A''" "snd A''", unfolded prod.collapse, OF snoc.hyps(2) m(1,2) this] obtain m' where
    "fst A'' cl = Some (Open p (dl @ received p (ls @ [l])) m')" "m \<le> m'" "m' \<le> m + requested cl [l]" by auto
  moreover have "spec_ok A''" by (rule spec_step_ok [OF snoc.hyps(2) m(1)])
  ultimately show ?case using m(3,4) by (intro conjI exI [of _ m']) simp_all
qed

end
