(* ===== verification/Separation.thy ===== *)
theory Separation
  imports Tcp_Client Connection_Spec
begin

text \<open>
  How the objects of several clients lie in the state: what belongs to a client's connection, the
  phase of the specification that a client's objects stand for, and why a change to one client's
  objects does not disturb another's. The relation \<open>sys_rel\<close> at the end is the simulation relation of
  the life cycle.
\<close>

section \<open>The parts of a connection\<close>

record parts =
  pk :: TcpClient
  pc :: addr
  px :: TcpClientContext
  pr :: addr
  py :: IoRxBuffer
  pt :: addr
  pz :: TcpWriter
  pps :: "addr list"

text \<open>The client \<open>cl\<close> has the context, receive buffer and writer of \<open>F\<close>; the unread bytes are \<open>bs\<close>.\<close>

definition linked :: "addr \<Rightarrow> parts \<Rightarrow> u8 list \<Rightarrow> 'h world \<Rightarrow> bool" where
  "linked cl F bs w \<longleftrightarrow> conn cl (pk F) (pc F) (px F) (pr F) (py F) (pt F) w \<and> writers w (pt F) = Some (pz F) \<and>
     rx_rep (pr F) (pps F) bs w"

lemma linkedD:
  assumes "linked cl F bs w"
  shows "conn cl (pk F) (pc F) (px F) (pr F) (py F) (pt F) w" "writers w (pt F) = Some (pz F)"
    "rx_rep (pr F) (pps F) bs w" "clients w cl = Some (pk F)" "cl_ctx (pk F) = Some (pc F)"
    "contexts w (pc F) = Some (px F)" "wired cl (px F)" "ctx_rx (px F) = Some (pr F)" "ctx_tx (px F) = Some (pt F)"
    "rx_bufs w (pr F) = Some (py F)" "rx_finCb (py F) = Some (Ctx_fin (pc F))"
  using assms by (simp_all add: linked_def conn_def)

lemma rx_rep_unique: "rx_rep r ps bs w \<Longrightarrow> rx_rep r ps' bs' w \<Longrightarrow> ps' = ps \<and> bs' = bs"
  by (auto simp: rx_rep_def rx_owns_def dest: chain_unique split: option.splits)

lemma linked_unique: "linked cl F bs w \<Longrightarrow> linked cl F' bs' w \<Longrightarrow> F' = F \<and> bs' = bs"
  using rx_rep_unique [of "pr F" "pps F" bs w] by (cases F; cases F') (auto simp: linked_def conn_def)

text \<open>Contexts and receive buffers lead back to their owners, so two clients never share one.\<close>

lemma linked_distinct:
  assumes "linked cl F bs w" "linked cl' F' bs' w" "cl \<noteq> cl'"
  shows "pc F \<noteq> pc F'" "pr F \<noteq> pr F'"
  using linkedD [OF assms(1)] linkedD [OF assms(2)] assms(3) by (auto simp: wired_def)

text \<open>The registrations of a PCB, and that they are those of the parts' context.\<close>

definition regs_at :: "'h world \<Rightarrow> addr \<Rightarrow> (addr option \<times> lwip_fn option \<times> lwip_fn option \<times> lwip_fn option \<times> lwip_fn option) option" where
  "regs_at w p = map_option pcb_regs (pcbs (net w) p)"

lemma ctx_regs_inject [simp]: "ctx_regs a = ctx_regs b \<longleftrightarrow> a = b"
  by (simp add: ctx_regs_def)

lemma regs_at_Some: "regs_at w p = Some g \<longleftrightarrow> (\<exists>b. pcbs (net w) p = Some b \<and> pcb_regs b = g)"
  by (auto simp: regs_at_def)

lemma regs_at_live: "regs_at w p \<noteq> None \<longleftrightarrow> pcbs (net w) p \<noteq> None"
  by (simp add: regs_at_def)

definition pcb_attached :: "parts \<Rightarrow> addr \<Rightarrow> 'h world \<Rightarrow> bool" where
  "pcb_attached F p w \<longleftrightarrow> ctx_pcb (px F) = Some p \<and> regs_at w p = Some (ctx_regs (pc F)) \<and>
     tx_pcb (pz F) = Some p \<and> (rx_pcb (py F) = Some p \<or> rx_pcb (py F) = None \<and> pps F = [])"

lemma pcb_attachedD:
  assumes "pcb_attached F p w"
  shows "ctx_pcb (px F) = Some p" "pcbs (net w) p \<noteq> None" "tx_pcb (pz F) = Some p"
    "regs_at w p = Some (ctx_regs (pc F))"
  using assms by (auto simp: pcb_attached_def regs_at_Some)

lemma pcb_attached_rx: "linked cl F bs w \<Longrightarrow> pcb_attached F p w \<Longrightarrow> rx_pcb_live (pr F) w"
  using pcb_attachedD(2) [of F p w] linkedD(10) [of cl F bs w] by (auto simp: pcb_attached_def rx_pcb_live_def)

section \<open>Phases\<close>

fun client_at :: "addr \<Rightarrow> phase \<Rightarrow> 'h world \<Rightarrow> bool" where
  "client_at cl Idle w \<longleftrightarrow> (\<exists>k. clients w cl = Some k \<and> cl_ctx k = None)"
| "client_at cl (Open p dl n) w \<longleftrightarrow> n \<le> length dl \<and> (\<exists>F. linked cl F (drop n dl) w \<and> pcb_attached F p w)"
| "client_at cl Closed w \<longleftrightarrow> (\<exists>F. linked cl F [] w \<and> pps F = [] \<and> ctx_pcb (px F) = None)"
| "client_at cl (Failed p dl n) w \<longleftrightarrow> n \<le> length dl \<and>
     (\<exists>F. linked cl F (drop n dl) w \<and> ctx_pcb (px F) = Some p \<and> regs_at w p \<noteq> Some (ctx_regs (pc F)))"

lemma client_at_exists: "client_at cl s w \<Longrightarrow> \<exists>k. clients w cl = Some k"
  by (cases s) (auto dest: linkedD(4))

lemma client_at_linked:
  assumes "client_at cl s w" "s \<noteq> Idle"
  obtains F where "linked cl F (unread_of s) w"
  using assms by (cases s) auto

lemma client_at_idle: "client_at cl Idle w \<Longrightarrow> \<not> linked cl F bs w"
  by (auto simp: linked_def conn_def)

text \<open>A client is in one phase only, up to the history that the objects do not record.\<close>

lemma client_at_Open_unique:
  assumes "client_at cl (Open p dl n) w" "linked cl F bs w"
  shows "bs = drop n dl" "pcb_attached F p w"
  using assms by (auto dest: linked_unique)

section \<open>The whole state\<close>

text \<open>Every address below \<open>fresh\<close> has been handed out, no object is at another one.\<close>

definition bounded :: "'h world \<Rightarrow> bool" where
  "bounded w \<longleftrightarrow> (\<forall>a. fresh w \<le> a \<longrightarrow>
     rx_bufs w a = None \<and> writers w a = None \<and> contexts w a = None \<and> clients w a = None)"

text \<open>Two connections have different writers and no pbuf in common.\<close>

definition separated :: "'h world \<Rightarrow> bool" where
  "separated w \<longleftrightarrow> (\<forall>cl cl' F F' bs bs'. linked cl F bs w \<longrightarrow> linked cl' F' bs' w \<longrightarrow> cl \<noteq> cl' \<longrightarrow>
     pt F \<noteq> pt F' \<and> set (pps F) \<inter> set (pps F') = {})"

text \<open>
  A PCB that has lost its client: lwIP still has the library's callbacks for it, with a context that has
  been deleted as their argument. Addresses are not handed out twice, so the context never comes back.
\<close>

definition orphan :: "addr \<Rightarrow> 'h world \<Rightarrow> bool" where
  "orphan q w \<longleftrightarrow> (\<exists>a<fresh w. regs_at w q = Some (ctx_regs a) \<and> contexts w a = None)"

lemma orphan_mono:
  assumes "orphan q w" "regs_at w' q = regs_at w q" "fresh w \<le> fresh w'"
    "\<And>a. a < fresh w \<Longrightarrow> contexts w a = None \<Longrightarrow> contexts w' a = None"
  shows "orphan q w'"
  using assms unfolding orphan_def by (metis order_less_le_trans)

text \<open>lwIP holds a callback argument only for the PCB of an open connection and for the orphans \<open>Q\<close>.\<close>

definition args_owned :: "phases \<Rightarrow> addr set \<Rightarrow> 'h world \<Rightarrow> bool" where
  "args_owned S Q w \<longleftrightarrow> (\<forall>q g. regs_at w q = Some g \<longrightarrow> fst g \<noteq> None \<longrightarrow>
     q \<in> Q \<or> (\<exists>cl dl n. S cl = Some (Open q dl n))) \<and> (\<forall>q\<in>Q. orphan q w)"

definition sys_rel :: "phases \<Rightarrow> addr set \<Rightarrow> 'h world \<Rightarrow> bool" where
  "sys_rel S Q w \<longleftrightarrow> (\<forall>cl. S cl = None \<longleftrightarrow> clients w cl = None) \<and> (\<forall>cl s. S cl = Some s \<longrightarrow> client_at cl s w) \<and>
     separated w \<and> args_owned S Q w \<and> bounded w"

lemma sys_relD:
  assumes "sys_rel S Q w"
  shows "S cl = Some s \<Longrightarrow> client_at cl s w" "separated w" "args_owned S Q w" "bounded w" "S cl = None \<longleftrightarrow> clients w cl = None"
  using assms by (simp_all add: sys_rel_def)

lemma sys_rel_client:
  assumes "sys_rel S Q w" "linked cl F bs w"
  obtains s where "S cl = Some s" "client_at cl s w" "s \<noteq> Idle" "unread_of s = bs"
proof -
  have "clients w cl \<noteq> None" using linkedD(4) [OF assms(2)] by simp
  then obtain s where s: "S cl = Some s" using sys_relD(5) [OF assms(1), of cl] by (cases "S cl") auto
  from sys_relD(1) [OF assms(1) this] have at: "client_at cl s w" .
  moreover have "s \<noteq> Idle" using at client_at_idle assms(2) by blast
  moreover from client_at_linked [OF at this] obtain F' where "linked cl F' (unread_of s) w" .
  with linked_unique [OF assms(2)] have "unread_of s = bs" by blast
  ultimately show ?thesis using that s by blast
qed

lemma sys_rel_Open_unique:
  assumes "sys_rel S Q w" "S cl = Some (Open p dl n)" "S cl' = Some (Open p dl' n')"
  shows "cl = cl'"
proof (rule ccontr)
  assume "cl \<noteq> cl'"
  from sys_relD(1) [OF assms(1,2)] sys_relD(1) [OF assms(1,3)] obtain F F' where
    "linked cl F (drop n dl) w" "pcb_attached F p w" "linked cl' F' (drop n' dl') w" "pcb_attached F' p w"
    by auto
  with linked_distinct(1) [of cl F _ w cl' F'] \<open>cl \<noteq> cl'\<close> show False by (simp add: pcb_attached_def)
qed

text \<open>The orphans are exactly the lost PCBs of the specification; no open connection uses one.\<close>

lemma orphan_not_open:
  assumes "client_at cl (Open p dl n) w"
  shows "\<not> orphan p w"
  using assms by (auto simp: orphan_def pcb_attached_def linkedD)

lemma orphan_live: "orphan q w \<Longrightarrow> pcbs (net w) q \<noteq> None"
  by (auto simp: orphan_def regs_at_def)

lemma sys_rel_orphan:
  assumes "sys_rel S Q w"
  shows "q \<in> Q \<longleftrightarrow> orphan q w"
proof
  show "orphan q w" if "q \<in> Q" using sys_relD(3) [OF assms] that by (simp add: args_owned_def)
next
  assume o: "orphan q w"
  then obtain a where "regs_at w q = Some (ctx_regs a)" by (auto simp: orphan_def)
  then have "q \<in> Q \<or> (\<exists>cl dl n. S cl = Some (Open q dl n))"
    using sys_relD(3) [OF assms] unfolding args_owned_def by (metis ctx_regs_def fst_conv option.distinct(1))
  with o sys_relD(1) [OF assms] orphan_not_open show "q \<in> Q" by blast
qed

text \<open>The specification's own invariant holds of every phase assignment the relation allows.\<close>

lemma sys_rel_spec_ok: "sys_rel S Q w \<Longrightarrow> spec_ok (S, Q)"
  unfolding spec_ok_def fst_conv snd_conv
proof (intro conjI allI impI)
  fix cl s assume "sys_rel S Q w" "S cl = Some s"
  then have "client_at cl s w" by (rule sys_relD(1))
  then show "phase_ok s" by (cases s) auto
next
  fix cl p dl n assume "sys_rel S Q w" "S cl = Some (Open p dl n)"
  then show "p \<notin> Q" using sys_rel_orphan orphan_not_open sys_relD(1) by blast
qed (rule sys_rel_Open_unique)

section \<open>Changes confined to one client\<close>

text \<open>
  From \<open>w\<close> to \<open>w'\<close> nothing has changed but the client \<open>cl\<close>, the objects and pbufs of \<open>F\<close>, and the
  registrations of the PCBs \<open>A\<close>.
\<close>

definition confined :: "addr \<Rightarrow> parts \<Rightarrow> addr set \<Rightarrow> 'h world \<Rightarrow> 'h world \<Rightarrow> bool" where
  "confined cl F A w w' \<longleftrightarrow>
     (\<forall>a. a \<noteq> cl \<longrightarrow> clients w' a = clients w a) \<and> (\<forall>a. a \<noteq> pc F \<longrightarrow> contexts w' a = contexts w a) \<and>
     (\<forall>a. a \<noteq> pr F \<longrightarrow> rx_bufs w' a = rx_bufs w a) \<and> (\<forall>a. a \<noteq> pt F \<longrightarrow> writers w' a = writers w a) \<and>
     (\<forall>a. a \<notin> set (pps F) \<longrightarrow> pbufs (net w') a = pbufs (net w) a) \<and> (\<forall>a. a \<notin> A \<longrightarrow> regs_at w' a = regs_at w a)"

definition apart :: "parts \<Rightarrow> parts \<Rightarrow> bool" where
  "apart F F' \<longleftrightarrow> pc F \<noteq> pc F' \<and> pr F \<noteq> pr F' \<and> pt F \<noteq> pt F' \<and> set (pps F) \<inter> set (pps F') = {}"

text \<open>The parts \<open>F\<close> are not those of another client.\<close>

definition own_parts :: "addr \<Rightarrow> parts \<Rightarrow> 'h world \<Rightarrow> bool" where
  "own_parts cl F w \<longleftrightarrow> (\<forall>cl' F' bs. cl' \<noteq> cl \<longrightarrow> linked cl' F' bs w \<longrightarrow> apart F F')"

lemma own_partsI:
  assumes "separated w" "linked cl F bs w"
  shows "own_parts cl F w"
  unfolding own_parts_def apart_def
proof (intro allI impI)
  fix cl' F' bs' assume "cl' \<noteq> cl" and L: "linked cl' F' bs' w"
  with linked_distinct [OF assms(2) L] assms
  show "pc F \<noteq> pc F' \<and> pr F \<noteq> pr F' \<and> pt F \<noteq> pt F' \<and> set (pps F) \<inter> set (pps F') = {}"
    unfolding separated_def by metis
qed

lemma linked_confined:
  assumes "linked cl' F' bs w" "confined cl F A w w'" "cl' \<noteq> cl" "apart F F'"
  shows "linked cl' F' bs w'"
proof -
  have "rx_rep (pr F') (pps F') bs w' = rx_rep (pr F') (pps F') bs w"
    using assms(2,4) by (intro rx_rep_cong) (auto simp: confined_def apart_def)
  with assms show ?thesis by (simp add: linked_def conn_def confined_def apart_def)
qed

lemma client_at_confined:
  assumes at: "client_at cl' s w" and conf: "confined cl F A w w'" and cl': "cl' \<noteq> cl" and own: "own_parts cl F w"
    and free: "\<And>p dl n. p \<in> A \<Longrightarrow> s \<noteq> Open p dl n"
    and regs: "\<And>p. p \<in> A \<Longrightarrow> regs_at w' p = None \<or> regs_at w' p = Some (ctx_regs (pc F))"
  shows "client_at cl' s w'"
proof (cases "s = Idle")
  case True
  with at conf cl' show ?thesis by (auto simp: confined_def)
next
  case False
  from client_at_linked [OF at this] obtain F' where L: "linked cl' F' (unread_of s) w" .
  with own cl' have ap: "apart F F'" by (auto simp: own_parts_def)
  from linked_confined [OF L conf cl' ap] have L': "linked cl' F' (unread_of s) w'" .
  have only: "F'' = F'" if "linked cl' F'' bs w" for F'' bs using linked_unique [OF L that] by simp
  have keep: "regs_at w' p = regs_at w p" if "p \<notin> A" for p using conf that by (simp add: confined_def)
  show ?thesis
  proof (cases s)
    case (Open p dl n)
    with free have "p \<notin> A" by blast
    with Open at L' only keep [of p] show ?thesis by (auto simp: pcb_attached_def)
  next
    case (Failed p dl n)
    have "regs_at w' p \<noteq> Some (ctx_regs (pc F'))"
    proof (cases "p \<in> A")
      case True
      with regs [of p] ap show ?thesis by (auto simp: apart_def)
    next
      case False
      with keep [of p] Failed at only show ?thesis by auto
    qed
    with Failed at L' only show ?thesis by auto
  qed (use at L' only False in auto)
qed

text \<open>The other clients' connections are exactly those they had.\<close>

lemma linked_confined_back:
  assumes rel: "sys_rel S Q w" and conf: "confined cl F A w w'" and own: "own_parts cl F w"
    and L': "linked cl' F' bs w'" and cl': "cl' \<noteq> cl"
  shows "linked cl' F' bs w"
proof -
  have k: "clients w cl' = Some (pk F')" using linkedD(4) [OF L'] conf cl' by (simp add: confined_def)
  then obtain s where s: "S cl' = Some s" using sys_relD(5) [OF rel, of cl'] by (cases "S cl'") auto
  have "s \<noteq> Idle" using sys_relD(1) [OF rel s] k linkedD(5) [OF L'] by auto
  from client_at_linked [OF sys_relD(1) [OF rel s] this] obtain F0 where L: "linked cl' F0 (unread_of s) w" .
  then have "linked cl' F0 (unread_of s) w'"
    using linked_confined [OF L conf cl'] own cl' by (auto simp: own_parts_def)
  with L' L show ?thesis using linked_unique by metis
qed

lemma separated_confined:
  assumes rel: "sys_rel S Q w" and conf: "confined cl F A w w'" and own: "own_parts cl F w"
    and parts: "\<And>F' bs. linked cl F' bs w' \<Longrightarrow> pt F' = pt F \<and> set (pps F') \<subseteq> set (pps F) \<union> B"
    and taken: "\<And>cl' F' bs. cl' \<noteq> cl \<Longrightarrow> linked cl' F' bs w \<Longrightarrow> set (pps F') \<inter> B = {}"
  shows "separated w'"
proof -
  note same = linked_confined_back [OF rel conf own]
  have sep: "pt F1 \<noteq> pt F2 \<and> set (pps F1) \<inter> set (pps F2) = {}"
    if "linked cl F1 b1 w'" "linked cl2 F2 b2 w'" "cl2 \<noteq> cl" for F1 b1 cl2 F2 b2
  proof -
    from same [OF that(2,3)] have L: "linked cl2 F2 b2 w" .
    with own that(3) have "apart F F2" by (auto simp: own_parts_def)
    with parts [OF that(1)] taken [OF that(3) L] show ?thesis by (auto simp: apart_def)
  qed
  show ?thesis
    unfolding separated_def
  proof (intro allI impI)
    fix c1 c2 F1 F2 b1 b2
    assume L: "linked c1 F1 b1 w'" "linked c2 F2 b2 w'" "c1 \<noteq> c2"
    show "pt F1 \<noteq> pt F2 \<and> set (pps F1) \<inter> set (pps F2) = {}"
    proof (cases "c1 = cl \<or> c2 = cl")
      case True
      with sep [of F1 b1 c2 F2 b2] sep [of F2 b2 c1 F1 b1] L show ?thesis by auto
    next
      case False
      with same L sys_relD(2) [OF rel] show ?thesis unfolding separated_def by metis
    qed
  qed
qed

lemma args_owned_confined:
  assumes args: "args_owned S Q w" and conf: "confined cl F A w w'"
    and new: "\<And>q g. q \<in> A \<Longrightarrow> regs_at w' q = Some g \<Longrightarrow> fst g \<noteq> None \<Longrightarrow> q \<in> Q' \<or> (\<exists>dl n. s' = Some (Open q dl n))"
    and held: "\<And>q dl n. S cl = Some (Open q dl n) \<Longrightarrow> q \<in> A \<union> Q' \<or> (\<exists>dl' n'. s' = Some (Open q dl' n'))"
    and lost: "Q \<subseteq> Q'" "A \<inter> Q = {}" "\<And>q. q \<in> Q' - Q \<Longrightarrow> orphan q w'"
    and later: "fresh w \<le> fresh w'" "\<And>a. a < fresh w \<Longrightarrow> contexts w a = None \<Longrightarrow> contexts w' a = None"
  shows "args_owned (S(cl := s')) Q' w'"
  unfolding args_owned_def
proof (intro conjI allI impI ballI)
  have same: "regs_at w' q = regs_at w q" if "q \<notin> A" for q using conf that by (simp add: confined_def)
  fix q
  show "q \<in> Q' \<or> (\<exists>c dl n. (S(cl := s')) c = Some (Open q dl n))" if g: "regs_at w' q = Some g" "fst g \<noteq> None" for g
  proof (cases "q \<in> A")
    case True
    with new [OF True g] show ?thesis by (metis fun_upd_same)
  next
    case False
    with g same args have "q \<in> Q \<or> (\<exists>c dl n. S c = Some (Open q dl n))" unfolding args_owned_def by metis
    with held False lost(1) show ?thesis by (metis UnE fun_upd_other fun_upd_same subsetD)
  qed
  show "orphan q w'" if "q \<in> Q'"
  proof (cases "q \<in> Q")
    case True
    with args lost(2) same show ?thesis by (intro orphan_mono [OF _ _ later]) (auto simp: args_owned_def)
  qed (use that lost(3) in blast)
qed

text \<open>
  The simulation step: one client's objects change, its new phase is shown, and the relation holds
  again. \<open>B\<close> are pbufs the client has taken over.
\<close>

lemma sys_rel_confined:
  assumes rel: "sys_rel S Q w" and conf: "confined cl F A w w'" and own: "own_parts cl F w"
    and regs: "\<And>p. p \<in> A \<Longrightarrow> regs_at w' p = None \<or> regs_at w' p = Some (ctx_regs (pc F))"
    and free: "\<And>p cl' dl n. p \<in> A \<Longrightarrow> cl' \<noteq> cl \<Longrightarrow> S cl' \<noteq> Some (Open p dl n)"
    and phase: "case s' of None \<Rightarrow> clients w' cl = None | Some s \<Rightarrow> client_at cl s w'"
    and parts: "\<And>F' bs. linked cl F' bs w' \<Longrightarrow> pt F' = pt F \<and> set (pps F') \<subseteq> set (pps F) \<union> B"
    and taken: "\<And>cl' F' bs. cl' \<noteq> cl \<Longrightarrow> linked cl' F' bs w \<Longrightarrow> set (pps F') \<inter> B = {}"
    and args: "\<And>q g. q \<in> A \<Longrightarrow> regs_at w' q = Some g \<Longrightarrow> fst g \<noteq> None \<Longrightarrow> q \<in> Q' \<or> (\<exists>dl n. s' = Some (Open q dl n))"
    and held: "\<And>q dl n. S cl = Some (Open q dl n) \<Longrightarrow> q \<in> A \<union> Q' \<or> (\<exists>dl' n'. s' = Some (Open q dl' n'))"
    and lost: "Q \<subseteq> Q'" "A \<inter> Q = {}" "\<And>q. q \<in> Q' - Q \<Longrightarrow> orphan q w'"
    and later: "fresh w \<le> fresh w'" "\<And>a. a < fresh w \<Longrightarrow> contexts w a = None \<Longrightarrow> contexts w' a = None"
    and bound: "bounded w'"
  shows "sys_rel (S(cl := s')) Q' w'"
proof -
  have "client_at c s w'" if "(S(cl := s')) c = Some s" for c s
  proof (cases "c = cl")
    case False
    with that have s: "S c = Some s" by simp
    from client_at_confined [OF sys_relD(1) [OF rel s] conf False own _ regs] free [OF _ False] s show ?thesis by metis
  qed (use that phase in simp)
  moreover have "(S(cl := s')) c = None \<longleftrightarrow> clients w' c = None" for c
    using sys_relD(5) [OF rel, of c] conf phase client_at_exists [of cl _ w']
    by (cases "c = cl"; cases s') (auto simp: confined_def)
  moreover have "separated w'" using separated_confined [OF rel conf own parts taken] .
  moreover have "args_owned (S(cl := s')) Q' w'" using args_owned_confined [OF sys_relD(3) [OF rel] conf args held lost later] .
  ultimately show ?thesis using bound unfolding sys_rel_def by blast
qed

section \<open>Changes that concern no client's objects\<close>

text \<open>A change of the network state that keeps pbufs and registrations.\<close>

definition quiet_change :: "'h world \<Rightarrow> 'h world \<Rightarrow> bool" where
  "quiet_change w w' \<longleftrightarrow> net_frame (net w) (net w') \<and> clients w' = clients w \<and> contexts w' = contexts w \<and>
     rx_bufs w' = rx_bufs w \<and> writers w' = writers w \<and> fresh w' = fresh w"

lemma quiet_change_regs: "quiet_change w w' \<Longrightarrow> regs_at w' p = regs_at w p"
  by (simp add: quiet_change_def net_frame_def regs_at_def)

lemma quiet_change_linked: "quiet_change w w' \<Longrightarrow> linked cl F bs w' = linked cl F bs w"
  using rx_rep_cong [of w' "pr F" w "pps F" bs] by (simp add: linked_def conn_def quiet_change_def net_frame_def)

lemma quiet_change_at: "quiet_change w w' \<Longrightarrow> client_at cl s w' = client_at cl s w"
  by (cases s) (simp_all add: quiet_change_linked quiet_change_regs pcb_attached_def, simp add: quiet_change_def)

lemma sys_rel_quiet:
  assumes "sys_rel S Q w" "quiet_change w w'"
  shows "sys_rel S Q w'"
proof -
  have "orphan q w'" if "orphan q w" for q
    using assms(2) by (intro orphan_mono [OF that quiet_change_regs [OF assms(2)]]) (simp_all add: quiet_change_def)
  then have "args_owned S Q w'"
    using sys_relD(3) [OF assms(1)] by (simp add: args_owned_def quiet_change_regs [OF assms(2)])
  moreover have "bounded w'" "\<And>cl. clients w' cl = None \<longleftrightarrow> S cl = None"
    using assms by (simp_all add: sys_rel_def bounded_def quiet_change_def)
  ultimately show ?thesis
    using assms by (simp add: sys_rel_def separated_def quiet_change_at quiet_change_linked)
qed

text \<open>
  What lwIP may do on its own, between the library's calls and its callbacks: PCBs change their state,
  segments are sent and arrive in new pbufs, memory that has been freed is used again, other users' PCBs
  come and go. It leaves alone the pbufs that receive buffers own, and it does not change the
  registrations of a PCB that has a callback argument, nor register an argument itself.
\<close>

definition lwip_activity :: "'h world \<Rightarrow> 'h net \<Rightarrow> bool" where
  "lwip_activity w N \<longleftrightarrow> (\<forall>r ps bs a. rx_rep r ps bs w \<longrightarrow> a \<in> set ps \<longrightarrow> pbufs N a = pbufs (net w) a) \<and>
     (\<forall>q. Option.bind (pcbs (net w) q) callback_arg \<noteq> None \<or> Option.bind (pcbs N q) callback_arg \<noteq> None \<longrightarrow>
       map_option pcb_regs (pcbs N q) = map_option pcb_regs (pcbs (net w) q))"

lemma lwip_activityD:
  assumes "lwip_activity w N"
  shows "rx_rep r ps bs w \<Longrightarrow> rx_rep r ps bs (w\<lparr>net := N\<rparr>)" "linked cl F bs w \<Longrightarrow> linked cl F bs (w\<lparr>net := N\<rparr>)"
    "regs_at w q = Some g \<Longrightarrow> fst g \<noteq> None \<Longrightarrow> regs_at (w\<lparr>net := N\<rparr>) q = Some g"
    "regs_at (w\<lparr>net := N\<rparr>) q = Some g \<Longrightarrow> fst g \<noteq> None \<Longrightarrow> regs_at w q = Some g"
proof -
  show rep: "rx_rep r ps bs (w\<lparr>net := N\<rparr>)" if "rx_rep r ps bs w" for r ps bs
    using that assms by (subst rx_rep_cong [where w = w]) (auto simp: lwip_activity_def)
  show "linked cl F bs w \<Longrightarrow> linked cl F bs (w\<lparr>net := N\<rparr>)" using rep by (simp add: linked_def conn_def)
  have same: "regs_at (w\<lparr>net := N\<rparr>) q = regs_at w q"
    if "Option.bind (pcbs (net w) q) callback_arg \<noteq> None \<or> Option.bind (pcbs N q) callback_arg \<noteq> None"
    using assms that unfolding lwip_activity_def regs_at_def by simp blast
  have arg: "Option.bind (pcbs (net v) q) callback_arg \<noteq> None" if "regs_at v q = Some g" "fst g \<noteq> None" for v :: "'a world"
    using that by (auto simp: regs_at_def pcb_regs_def)
  show "regs_at (w\<lparr>net := N\<rparr>) q = Some g" if "regs_at w q = Some g" "fst g \<noteq> None" using same arg [OF that] that(1) by simp
  show "regs_at w q = Some g" if "regs_at (w\<lparr>net := N\<rparr>) q = Some g" "fst g \<noteq> None" using same arg [OF that] that(1) by simp
qed

lemma ctx_regs_arg [simp]: "fst (ctx_regs a) = Some a"
  by (simp add: ctx_regs_def)

lemma client_at_activity:
  assumes act: "lwip_activity w N" and at: "client_at cl s w"
  shows "client_at cl s (w\<lparr>net := N\<rparr>)" (is "client_at cl s ?w'")
proof (cases "s = Idle")
  case False
  from client_at_linked [OF at this] obtain F where L: "linked cl F (unread_of s) w" .
  note L' = lwip_activityD(2) [OF act L]
  have only: "F0 = F" if "linked cl F0 bs w" for F0 bs using linked_unique [OF L that] by simp
  have gone: "regs_at ?w' p \<noteq> Some (ctx_regs a)" if "regs_at w p \<noteq> Some (ctx_regs a)" for p a
    using lwip_activityD(4) [OF act] that by fastforce
  show ?thesis
  proof (cases s)
    case (Open p dl n)
    with at only have A: "pcb_attached F p w" "n \<le> length dl" by auto
    then have "pcb_attached F p ?w'" using lwip_activityD(3) [OF act pcb_attachedD(4) [OF A(1)]] by (simp add: pcb_attached_def)
    with L' Open A(2) show ?thesis by auto
  next
    case (Failed p dl n)
    with at only gone [of p "pc F"] have "ctx_pcb (px F) = Some p" "regs_at ?w' p \<noteq> Some (ctx_regs (pc F))" "n \<le> length dl" by auto
    with L' Failed show ?thesis by auto
  qed (use at only L' False in auto)
qed (use at in auto)

lemma linked_activity_iff:
  assumes rel: "sys_rel S Q w" and act: "lwip_activity w N"
  shows "linked cl F bs (w\<lparr>net := N\<rparr>) \<longleftrightarrow> linked cl F bs w"
proof
  assume L': "linked cl F bs (w\<lparr>net := N\<rparr>)"
  from linkedD(4,5) [OF L'] have "clients w cl = Some (pk F)" "cl_ctx (pk F) \<noteq> None" by simp_all
  moreover from this obtain s where s: "S cl = Some s" using sys_relD(5) [OF rel, of cl] by (cases "S cl") auto
  ultimately have "s \<noteq> Idle" using sys_relD(1) [OF rel s] by auto
  from client_at_linked [OF sys_relD(1) [OF rel s] this] obtain F0 where L: "linked cl F0 (unread_of s) w" .
  with linked_unique [OF lwip_activityD(2) [OF act L] L'] show "linked cl F bs w" by simp
qed (rule lwip_activityD(2) [OF act])

lemma sys_rel_activity:
  assumes rel: "sys_rel S Q w" and act: "lwip_activity w N"
  shows "sys_rel S Q (w\<lparr>net := N\<rparr>)" (is "sys_rel S Q ?w'")
proof -
  have "orphan q ?w'" if "orphan q w" for q
    using that lwip_activityD(3) [OF act, of q "ctx_regs _"] by (auto simp: orphan_def)
  then have "args_owned S Q ?w'"
    using sys_relD(3) [OF rel] lwip_activityD(4) [OF act] unfolding args_owned_def by blast
  with rel client_at_activity [OF act] show ?thesis
    by (simp add: sys_rel_def separated_def bounded_def linked_activity_iff [OF rel act])
qed

end
