(* ===== verification/Tcp_Sync_Accessor.thy ===== *)
theory Tcp_Sync_Accessor
  imports Tcp_Client
begin

text \<open>
  Thread-safe access to a client from either core (\<open>include/TcpClientSyncAccessor.hpp\<close>,
  \<open>src/TcpClientSyncAccessor.cpp\<close>, \<open>include/iprs_util.hpp\<close>), and the members of \<open>TcpClient\<close> that go
  through it. On the networking core an operation runs under the lock of the async context; from the
  other core it is packed into a payload and handed to \<open>SyncBridge::execute\<close>, which belongs to the
  bridge library and is a parameter: \<open>exec h p\<close> is \<open>execute(p)\<close> with \<open>h\<close> for \<open>onExecute\<close>.
\<close>

section \<open>Payloads\<close>

datatype Operation = STATUS | CONNECT

record AccessorPayload =
  ap_op :: Operation
  ap_result_ptr :: "addr option"
  ap_ip_ptr :: "addr option"
  ap_port :: u16
  ap_connect_result :: "addr option"

definition AccessorPayload_new :: AccessorPayload where
  "AccessorPayload_new = \<lparr>ap_op = STATUS, ap_result_ptr = None, ap_ip_ptr = None, ap_port = 0, ap_connect_result = None\<rparr>"

type_synonym 'h execute = "(AccessorPayload \<Rightarrow> ('h, u32) cprog) \<Rightarrow> AccessorPayload \<Rightarrow> ('h, u32) cprog"

section \<open>Variables whose address is taken\<close>

definition new_u8 :: "u8 \<Rightarrow> ('h, addr) cprog" where
  "new_u8 v w = Inr (fresh w, w\<lparr>cells_u8 := (cells_u8 w)(fresh w \<mapsto> v), fresh := Suc (fresh w)\<rparr>)"

definition new_int :: "cint \<Rightarrow> ('h, addr) cprog" where
  "new_int v w = Inr (fresh w, w\<lparr>cells_int := (cells_int w)(fresh w \<mapsto> v), fresh := Suc (fresh w)\<rparr>)"

definition new_ip :: "ip_addr \<Rightarrow> ('h, addr) cprog" where
  "new_ip v w = Inr (fresh w, w\<lparr>cells_ip := (cells_ip w)(fresh w \<mapsto> v), fresh := Suc (fresh w)\<rparr>)"

abbreviation store_u8 :: "addr \<Rightarrow> u8 \<Rightarrow> ('h, unit) cprog" where
  "store_u8 a v \<equiv> modify (\<lambda>w. w\<lparr>cells_u8 := (cells_u8 w)(a \<mapsto> v)\<rparr>)"

abbreviation store_int :: "addr \<Rightarrow> cint \<Rightarrow> ('h, unit) cprog" where
  "store_int a v \<equiv> modify (\<lambda>w. w\<lparr>cells_int := (cells_int w)(a \<mapsto> v)\<rparr>)"

section \<open>The accessor\<close>

definition TcpClientSyncAccessor_new :: "addr \<Rightarrow> ('h, addr) cprog" where
  "TcpClientSyncAccessor_new io w =
     Inr (fresh w, w\<lparr>accessors := (accessors w)(fresh w \<mapsto> \<lparr>acc_io = io\<rparr>), fresh := Suc (fresh w)\<rparr>)"

definition TcpClientSyncAccessor_onExecute :: "'h platform \<Rightarrow> addr \<Rightarrow> AccessorPayload \<Rightarrow> ('h, u32) cprog" where
  "TcpClientSyncAccessor_onExecute P a p =
     pbind (get_accessor a) (\<lambda>acc.
     case ap_op p of
       STATUS \<Rightarrow>
         (case ap_result_ptr p of
            None \<Rightarrow> ret (PICO_ERROR_NO_DATA P)
          | Some q \<Rightarrow>
              pbind (TcpClient_ts_status P (acc_io acc)) (\<lambda>v.
              pseq (store_u8 q v) (ret (PICO_OK P))))
     | CONNECT \<Rightarrow>
         (case (ap_ip_ptr p, ap_connect_result p) of
            (Some i, Some q) \<Rightarrow>
              pbind (lookup_obj cells_ip i) (\<lambda>ip.
              pbind (TcpClient_ts_connect P (acc_io acc) ip (ap_port p)) (\<lambda>v.
              pseq (store_int q v) (ret (PICO_OK P))))
          | _ \<Rightarrow> ret (PICO_ERROR_NO_DATA P)))"

text \<open>\<open>ctxLock(); v = m(); ctxUnlock(); return v;\<close>\<close>

definition locked :: "'h platform \<Rightarrow> ('h, 'a) cprog \<Rightarrow> ('h, 'a) cprog" where
  "locked P m =
     pseq (ext Ctx_lock (ctxLock P))
    (pbind m (\<lambda>v.
     pseq (ext Ctx_unlock (ctxUnlock P))
          (ret v)))"

definition TcpClientSyncAccessor_status :: "'h platform \<Rightarrow> 'h execute \<Rightarrow> addr \<Rightarrow> ('h, u8) cprog" where
  "TcpClientSyncAccessor_status P exec a =
     pbind (gets (\<lambda>w. isCrossCore P (net w))) (\<lambda>cross.
     if \<not> cross then pbind (get_accessor a) (\<lambda>acc. locked P (TcpClient_ts_status P (acc_io acc)))
     else
       pbind (new_u8 0) (\<lambda>q.
       pbind (exec (TcpClientSyncAccessor_onExecute P a)
                (AccessorPayload_new\<lparr>ap_op := STATUS, ap_result_ptr := Some q\<rparr>)) (\<lambda>res.
       lookup_obj cells_u8 q)))"

definition TcpClientSyncAccessor_connect ::
  "'h platform \<Rightarrow> 'h execute \<Rightarrow> addr \<Rightarrow> ip_addr \<Rightarrow> u16 \<Rightarrow> ('h, cint) cprog" where
  "TcpClientSyncAccessor_connect P exec a ip port =
     pbind (gets (\<lambda>w. isCrossCore P (net w))) (\<lambda>cross.
     if \<not> cross then pbind (get_accessor a) (\<lambda>acc. locked P (TcpClient_ts_connect P (acc_io acc) ip port))
     else
       pbind (new_ip ip) (\<lambda>i.
       pbind (new_int (PICO_ERROR_GENERIC P)) (\<lambda>q.
       pbind (exec (TcpClientSyncAccessor_onExecute P a)
                (AccessorPayload_new\<lparr>ap_op := CONNECT, ap_ip_ptr := Some i, ap_port := port,
                   ap_connect_result := Some q\<rparr>)) (\<lambda>res.
       if res \<noteq> PICO_OK P then ret res else lookup_obj cells_int q))))"

text \<open>The overrides of the bridge's hooks have empty bodies.\<close>

definition TcpClientSyncAccessor_onWork :: "addr \<Rightarrow> ('h, unit) cprog" where
  "TcpClientSyncAccessor_onWork a = ret ()"

definition TcpClientSyncAccessor_workload :: "addr \<Rightarrow> 'v \<Rightarrow> ('h, unit) cprog" where
  "TcpClientSyncAccessor_workload a data = ret ()"

text \<open>The interrupt number on a host, where there is no such register.\<close>

definition read_ipsr_host :: u32 where
  "read_ipsr_host = 0"

definition is_in_isr :: "'h platform \<Rightarrow> 'h net \<Rightarrow> bool" where
  "is_in_isr P n \<longleftrightarrow> read_ipsr P n \<noteq> 0"

definition TcpClientSyncAccessor_verify_execution_context :: "'h platform \<Rightarrow> ('h, unit) cprog" where
  "TcpClientSyncAccessor_verify_execution_context P =
     pbind (gets (\<lambda>w. isCrossCore P (net w))) (\<lambda>cross.
     pseq (require (\<not> cross) Assertion_failed)
    (pbind (gets (\<lambda>w. is_in_isr P (net w))) (\<lambda>isr.
     require (\<not> isr) Assertion_failed)))"

definition TcpClientSyncAccessor_run_local :: "'h platform \<Rightarrow> ('h, u32) cprog \<Rightarrow> ('h, u32) cprog" where
  "TcpClientSyncAccessor_run_local P callMe =
     pseq (TcpClientSyncAccessor_verify_execution_context P) (locked P callMe)"

text \<open>On a host only the core is checked.\<close>

lemma verify_on_host:
  "read_ipsr P (net w) = read_ipsr_host \<Longrightarrow> TcpClientSyncAccessor_verify_execution_context P w =
    (if isCrossCore P (net w) then Inl Assertion_failed else Inr ((), w))"
  by (cases "isCrossCore P (net w)")
    (simp_all add: TcpClientSyncAccessor_verify_execution_context_def is_in_isr_def read_ipsr_host_def prog_simps)

section \<open>The client's members that use it\<close>

definition TcpClient_status :: "'h platform \<Rightarrow> 'h execute \<Rightarrow> addr \<Rightarrow> ('h, u8) cprog" where
  "TcpClient_status P exec cl =
     pbind (get_client cl) (\<lambda>k.
     pbind (deref Null_deref (cl_sync_accessor k)) (\<lambda>a.
     TcpClientSyncAccessor_status P exec a))"

definition TcpClient_connect :: "'h platform \<Rightarrow> 'h execute \<Rightarrow> addr \<Rightarrow> ip_addr \<Rightarrow> u16 \<Rightarrow> ('h, cint) cprog" where
  "TcpClient_connect P exec cl ip port =
     pbind (get_client cl) (\<lambda>k.
     pbind (deref Assertion_failed (cl_sync_accessor k)) (\<lambda>a.
     TcpClientSyncAccessor_connect P exec a ip port))"

definition TcpClient_connect_host :: "'h platform \<Rightarrow> 'h execute \<Rightarrow> addr \<Rightarrow> string \<Rightarrow> u16 \<Rightarrow> ('h, cint) cprog" where
  "TcpClient_connect_host P exec cl host port =
     pbind (get_client cl) (\<lambda>k.
     pbind (ext_val (HostByName host) (hostByName P host (cl_timeout k))) (\<lambda>remote_addr.
     case remote_addr of
       Some ip \<Rightarrow> TcpClient_connect P exec cl ip port
     | None \<Rightarrow> ret (PICO_ERROR_TIMEOUT P)))"

text \<open>\<open>host.c_str()\<close> ends at the first NUL.\<close>

definition TcpClient_connect_string :: "'h platform \<Rightarrow> 'h execute \<Rightarrow> addr \<Rightarrow> string \<Rightarrow> u16 \<Rightarrow> ('h, cint) cprog" where
  "TcpClient_connect_string P exec cl host port =
     TcpClient_connect_host P exec cl (takeWhile (\<lambda>ch. ch \<noteq> CHR 0x00) host) port"

section \<open>What the bridge library does\<close>

text \<open>
  \<open>exec_runs\<close>: \<open>execute\<close> runs the handler once with the payload and returns its result;
  \<open>exec_fails e\<close>: it returns the code \<open>e\<close> and the handler has not run.
\<close>

definition exec_runs :: "'h execute \<Rightarrow> bool" where
  "exec_runs exec \<longleftrightarrow> (\<forall>h p. exec h p = pseq (ext Bridge_execute (\<lambda>n. n)) (h p))"

definition exec_fails :: "'h execute \<Rightarrow> u32 \<Rightarrow> bool" where
  "exec_fails exec e \<longleftrightarrow> (\<forall>h p. exec h p = pseq (ext Bridge_execute (\<lambda>n. n)) (ret e))"

text \<open>Two states that differ only in variables of calls in progress and in the next free address.\<close>

definition same_objects :: "'h world \<Rightarrow> 'h world \<Rightarrow> bool" where
  "same_objects w w' \<longleftrightarrow> net w' = net w \<and> rx_bufs w' = rx_bufs w \<and> writers w' = writers w \<and>
     contexts w' = contexts w \<and> clients w' = clients w \<and> accessors w' = accessors w \<and>
     s_localPort w' = s_localPort w \<and> s_defaultNoDelay w' = s_defaultNoDelay w \<and> calls w' = calls w"

lemma same_objects_refl [simp]: "same_objects w w"
  by (simp add: same_objects_def)

section \<open>The contract of an operation of the accessor\<close>

text \<open>
  The operation \<open>op\<close> of an accessor does what \<open>direct\<close> does on the networking core: under the lock
  when called there, through the bridge otherwise. \<open>failure e\<close> is its result when the bridge reports
  \<open>e\<close>.
\<close>

locale sync_operation =
  fixes P :: "'h platform" and exec :: "'h execute" and a :: addr
    and op :: "('h, 'v) cprog" and direct :: "addr \<Rightarrow> ('h, 'v) cprog" and failure :: "u32 \<Rightarrow> 'v"
  assumes near: "\<not> isCrossCore P (net w) \<Longrightarrow> accessors w a = Some acc \<Longrightarrow> op w = locked P (direct (acc_io acc)) w"
    and far: "isCrossCore P (net w) \<Longrightarrow> accessors w a = Some acc \<Longrightarrow> exec_runs exec \<Longrightarrow>
      \<exists>w0. same_objects (w\<lparr>calls := calls w @ [Bridge_execute]\<rparr>) w0 \<and>
        (\<forall>v w1. direct (acc_io acc) w0 = Inr (v, w1) \<longrightarrow> (\<exists>w2. op w = Inr (v, w2) \<and> same_objects w1 w2))"
    and unreachable: "isCrossCore P (net w) \<Longrightarrow> exec_fails exec e \<Longrightarrow> e \<noteq> PICO_OK P \<Longrightarrow>
      \<exists>w2. op w = Inr (failure e, w2) \<and> same_objects (w\<lparr>calls := calls w @ [Bridge_execute]\<rparr>) w2"
begin

text \<open>From the networking core the lock is held exactly while the operation runs.\<close>

lemma near_bracketed:
  assumes "\<not> isCrossCore P (net w)" "accessors w a = Some acc"
    and "direct (acc_io acc) (w\<lparr>net := ctxLock P (net w), calls := calls w @ [Ctx_lock]\<rparr>) = Inr (v, w1)"
  shows "op w = Inr (v, w1\<lparr>net := ctxUnlock P (net w1), calls := calls w1 @ [Ctx_unlock]\<rparr>)"
  using near [OF assms(1,2)] assms(3) by (simp add: locked_def prog_simps)

text \<open>A fault of the direct call is a fault of the operation on the networking core.\<close>

lemma near_fault:
  assumes "\<not> isCrossCore P (net w)" "accessors w a = Some acc"
    and "direct (acc_io acc) (w\<lparr>net := ctxLock P (net w), calls := calls w @ [Ctx_lock]\<rparr>) = Inl e"
  shows "op w = Inl e"
  using near [OF assms(1,2)] assms(3) by (simp add: locked_def prog_simps)

end

interpretation sync_status: sync_operation P exec a "TcpClientSyncAccessor_status P exec a"
  "TcpClient_ts_status P" "\<lambda>_. 0" for P exec a
proof (unfold_locales, goal_cases)
  case (1 w acc)
  then show ?case by (simp add: TcpClientSyncAccessor_status_def prog_simps)
next
  case (2 w acc)
  let ?w0 = "w\<lparr>cells_u8 := (cells_u8 w)(fresh w \<mapsto> 0), fresh := Suc (fresh w), calls := calls w @ [Bridge_execute]\<rparr>"
  from 2 have "TcpClientSyncAccessor_status P exec a w =
      (case TcpClient_ts_status P (acc_io acc) ?w0 of Inl e \<Rightarrow> Inl e
       | Inr (v, w1) \<Rightarrow> Inr (v, w1\<lparr>cells_u8 := (cells_u8 w1)(fresh w \<mapsto> v)\<rparr>))"
    by (simp add: TcpClientSyncAccessor_status_def TcpClientSyncAccessor_onExecute_def exec_runs_def
        AccessorPayload_new_def new_u8_def prog_simps split: sum.splits)
  moreover have "same_objects (w\<lparr>calls := calls w @ [Bridge_execute]\<rparr>) ?w0" by (simp add: same_objects_def)
  ultimately show ?case by (intro exI [of _ ?w0]) (simp add: same_objects_def)
next
  case (3 w e)
  then show ?case
    by (simp add: TcpClientSyncAccessor_status_def exec_fails_def new_u8_def prog_simps same_objects_def)
qed

interpretation sync_connect: sync_operation P exec a "TcpClientSyncAccessor_connect P exec a ip port"
  "\<lambda>cl. TcpClient_ts_connect P cl ip port" "\<lambda>e. e" for P exec a ip port
proof (unfold_locales, goal_cases)
  case (1 w acc)
  then show ?case by (simp add: TcpClientSyncAccessor_connect_def prog_simps)
next
  case (2 w acc)
  let ?w0 = "w\<lparr>cells_ip := (cells_ip w)(fresh w \<mapsto> ip),
    cells_int := (cells_int w)(Suc (fresh w) \<mapsto> PICO_ERROR_GENERIC P), fresh := Suc (Suc (fresh w)),
    calls := calls w @ [Bridge_execute]\<rparr>"
  from 2 have "TcpClientSyncAccessor_connect P exec a ip port w =
      (case TcpClient_ts_connect P (acc_io acc) ip port ?w0 of Inl e \<Rightarrow> Inl e
       | Inr (v, w1) \<Rightarrow> Inr (v, w1\<lparr>cells_int := (cells_int w1)(Suc (fresh w) \<mapsto> v)\<rparr>))"
    by (simp add: TcpClientSyncAccessor_connect_def TcpClientSyncAccessor_onExecute_def exec_runs_def
        AccessorPayload_new_def new_ip_def new_int_def prog_simps split: sum.splits)
  moreover have "same_objects (w\<lparr>calls := calls w @ [Bridge_execute]\<rparr>) ?w0" by (simp add: same_objects_def)
  ultimately show ?case by (intro exI [of _ ?w0]) (simp add: same_objects_def)
next
  case (3 w e)
  then show ?case
    by (simp add: TcpClientSyncAccessor_connect_def exec_fails_def new_ip_def new_int_def prog_simps same_objects_def)
qed

section \<open>Reading and connecting through the accessor\<close>

text \<open>Taking and giving back the lock neither frees nor changes PCBs and received pbufs.\<close>

definition lock_contract :: "'h platform \<Rightarrow> bool" where
  "lock_contract P \<longleftrightarrow> (\<forall>n. pcbs (ctxLock P n) = pcbs n \<and> pbufs (ctxLock P n) = pbufs n \<and>
     pcbs (ctxUnlock P n) = pcbs n \<and> pbufs (ctxUnlock P n) = pbufs n)"

lemma ts_status_cong:
  assumes "TcpClient_ts_status P cl w = Inr (v, w)" "clients w' = clients w" "contexts w' = contexts w"
    "pcbs (net w') = pcbs (net w)"
  shows "TcpClient_ts_status P cl w' = Inr (v, w')"
  using assms
  by (auto simp: TcpClient_ts_status_def TcpClientContext_state_def prog_simps split: option.splits if_splits)

lemma established_cong:
  assumes "established cl k p w" "clients w' = clients w" "contexts w' = contexts w" "rx_bufs w' = rx_bufs w"
    "writers w' = writers w" "pcbs (net w') = pcbs (net w)" "pbufs (net w') = pbufs (net w)"
  shows "established cl k p w'"
proof -
  have "rx_rep r ps bs w' = rx_rep r ps bs w" for r ps bs using assms by (intro rx_rep_cong) simp_all
  with assms show ?thesis by (simp add: established_def conn_def)
qed

lemma established_same: "same_objects w w' \<Longrightarrow> established cl k p w \<Longrightarrow> established cl k p w'"
  by (rule established_cong) (simp_all add: same_objects_def)

text \<open>
  The state in which the operation runs: on the networking core the one that taking the lock has led to, which may
  have had to wait for other work; and the state after it.
\<close>

definition entered :: "'h platform \<Rightarrow> 'h world \<Rightarrow> 'h world" where
  "entered P w = (if isCrossCore P (net w) then w\<lparr>calls := calls w @ [Bridge_execute]\<rparr>
     else w\<lparr>net := ctxLock P (net w), calls := calls w @ [Ctx_lock]\<rparr>)"

definition exited :: "'h platform \<Rightarrow> 'h world \<Rightarrow> 'h world \<Rightarrow> 'h world" where
  "exited P w w1 = (if isCrossCore P (net w) then w1
     else w1\<lparr>net := ctxUnlock P (net w1), calls := calls w1 @ [Ctx_unlock]\<rparr>)"

lemma entered_same: "clients (entered P w) = clients w" "contexts (entered P w) = contexts w"
  "s_defaultNoDelay (entered P w) = s_defaultNoDelay w" "fresh (entered P w) = fresh w"
  by (simp_all add: entered_def)

section \<open>Properties\<close>

text \<open>An \<open>execute\<close> that works and one that fails; platforms that run on the other core and in an interrupt.\<close>

definition sample_exec :: "'h execute" where
  "sample_exec h p = pseq (ext Bridge_execute (\<lambda>n. n)) (h p)"

definition failing_exec :: "'h execute" where
  "failing_exec h p = pseq (ext Bridge_execute (\<lambda>n. n)) (ret (PICO_ERROR_GENERIC sample))"

definition other_core :: "size_t platform" where
  "other_core = sample\<lparr>isCrossCore := (\<lambda>n. True)\<rparr>"

lemma exec_facts: "exec_runs sample_exec" "exec_fails failing_exec (PICO_ERROR_GENERIC sample)"
  by (auto simp: exec_runs_def sample_exec_def exec_fails_def failing_exec_def)

lemma lock_facts: "lock_contract sample" "lock_contract other_core"
  by (simp_all add: lock_contract_def sample_def other_core_def)

definition sample_acc_world :: "size_t world" where
  "sample_acc_world = sample_conn_world\<lparr>clients := [30 \<mapsto> sample_client\<lparr>cl_sync_accessor := Some 20\<rparr>],
     accessors := [20 \<mapsto> \<lparr>acc_io = 30\<rparr>]\<rparr>"

definition sample_acc_idle :: "size_t world" where
  "sample_acc_idle = sample_idle_world\<lparr>clients := [30 \<mapsto> sample_client\<lparr>cl_ctx := None, cl_sync_accessor := Some 20\<rparr>],
     accessors := [20 \<mapsto> \<lparr>acc_io = 30\<rparr>]\<rparr>"

lemmas sample_acc_simps = sample_acc_world_def sample_acc_idle_def sample_idle_world_def sample_conn_simps

text \<open>
  C23. \<open>status()\<close> looks in the networking context: on the networking core its answer is that of a look in the
  state that taking the lock has led to, before the lock is given back, whatever happens while it waits for the lock
  and when it gives it back; from the other core it is the answer of a look that the bridge has been asked for, once.
  Only the calls for this are made and no object changes. So where the lock changes no PCB, the answer is on both
  cores the one a direct look gives.
\<close>

theorem status_looks_in_context:
  assumes "clients w cl = Some k" and "cl_sync_accessor k = Some a" and "accessors w a = Some \<lparr>acc_io = cl\<rparr>"
    and "exec_runs exec" and "TcpClient_ts_status P cl (entered P w) = Inr (v, entered P w)"
  shows "(\<exists>w'. TcpClient_status P exec cl w = Inr (v, w') \<and> same_objects (exited P w (entered P w)) w') \<and>
    (lock_contract P \<longrightarrow> TcpClient_ts_status P cl w = Inr (v, w))"
proof (intro conjI impI)
  have status: "TcpClient_status P exec cl w = TcpClientSyncAccessor_status P exec a w"
    using assms(1,2) by (simp add: TcpClient_status_def prog_simps)
  show "\<exists>w'. TcpClient_status P exec cl w = Inr (v, w') \<and> same_objects (exited P w (entered P w)) w'"
  proof (cases "isCrossCore P (net w)")
    case True
    from sync_status.far [OF True assms(3,4)] obtain w0 where w0: "same_objects (entered P w) w0"
      and op: "\<And>v w1. TcpClient_ts_status P cl w0 = Inr (v, w1) \<Longrightarrow>
        \<exists>w2. TcpClientSyncAccessor_status P exec a w = Inr (v, w2) \<and> same_objects w1 w2"
      using True by (auto simp: entered_def)
    have "TcpClient_ts_status P cl w0 = Inr (v, w0)"
      using w0 by (intro ts_status_cong [OF assms(5)]) (simp_all add: same_objects_def)
    from op [OF this] w0 True status show ?thesis by (auto simp: same_objects_def exited_def)
  next
    case False
    with sync_status.near_bracketed [OF False assms(3)] assms(5) status show ?thesis
      by (simp add: entered_def exited_def)
  qed
  assume "lock_contract P"
  then show "TcpClient_ts_status P cl w = Inr (v, w)"
    by (intro ts_status_cong [OF assms(5)]) (simp_all add: entered_def lock_contract_def)
qed

text \<open>
  A lock that has to wait for the stack to leave the state \<open>ESTABLISHED\<close> of PCB 7, and lets it go on when it is
  given back.
\<close>

definition waiting_lock :: "size_t platform" where
  "waiting_lock = sample\<lparr>ctxLock := upd_pcb 7 (\<lambda>b. b\<lparr>pcb_state := 5\<rparr>), ctxUnlock := upd_pcb 7 (\<lambda>b. b\<lparr>pcb_state := 6\<rparr>)\<rparr>"

theorem status_looks_in_context_witness:
  "(\<exists>w'. TcpClient_status waiting_lock sample_exec 30 sample_acc_world = Inr (5, w') \<and> calls w' = [Ctx_lock, Ctx_unlock]) \<and>
   (\<exists>w'. TcpClient_status other_core sample_exec 30 sample_acc_world = Inr (4, w') \<and> calls w' = [Bridge_execute])"
proof -
  have facts: "clients sample_acc_world 30 = Some (sample_client\<lparr>cl_sync_accessor := Some 20\<rparr>)"
    "accessors sample_acc_world 20 = Some \<lparr>acc_io = 30\<rparr>" "calls sample_acc_world = []"
    by (simp_all add: sample_acc_simps)
  have cross: "\<not> isCrossCore waiting_lock n" "isCrossCore other_core n" for n
    by (simp_all add: other_core_def waiting_lock_def) (simp add: sample_def)
  have st: "TcpClient_ts_status waiting_lock 30 (entered waiting_lock sample_acc_world) = Inr (5, entered waiting_lock sample_acc_world)"
    "TcpClient_ts_status other_core 30 (entered other_core sample_acc_world) = Inr (4, entered other_core sample_acc_world)"
    by (simp_all add: TcpClient_ts_status_def TcpClientContext_state_def prog_simps sample_acc_simps sample_pcb_def entered_def cross
        upd_pcb_def) (simp_all add: waiting_lock_def other_core_def upd_pcb_def, simp_all add: sample_def)
  from status_looks_in_context [OF facts(1) _ facts(2) exec_facts(1) st(1)]
    status_looks_in_context [OF facts(1) _ facts(2) exec_facts(1) st(2)] facts(3)
  show ?thesis by (auto simp: same_objects_def entered_def exited_def cross)
qed

text \<open>
  C22. \<open>connect()\<close> works from either core: for an idle client, when lwIP has a PCB and accepts the
  attempt, it returns \<open>PICO_OK\<close> and the connection is complete. On the networking core all calls to lwIP are made
  between taking the lock and giving it back; from the other core they are all made by the bridge, which has been
  asked once.
\<close>

theorem connect_from_either_core:
  fixes P :: "'h platform"
  assumes "clients w cl = Some k" and "cl_sync_accessor k = Some a" and "accessors w a = Some \<lparr>acc_io = cl\<rparr>"
    and "exec_runs exec" and "lock_contract P" and "open_contract P" and "reg_contract P" and "cl_ctx k = None"
    and "fst (tcp_new P (net (entered P w))) = Some p" and "connect_answers P p port (ERR_OK P)"
  shows "\<exists>w' c b. TcpClient_connect P exec cl ip port w = Inr (PICO_OK P, w') \<and> established cl k p w' \<and>
    calls w' = calls w @ (if isCrossCore P (net w) then Bridge_execute # connect_calls P p c b port (s_defaultNoDelay w)
      else Ctx_lock # connect_calls P p c b port (s_defaultNoDelay w) @ [Ctx_unlock])"
proof -
  have connect: "TcpClient_connect P exec cl ip port w = TcpClientSyncAccessor_connect P exec a ip port w"
    using assms(1,2) by (simp add: TcpClient_connect_def prog_simps)
  show ?thesis
  proof (cases "isCrossCore P (net w)")
    case True
    from sync_connect.far [OF True assms(3,4), of ip port] obtain w0 where w0: "same_objects (entered P w) w0"
      and op: "\<And>v w1. TcpClient_ts_connect P cl ip port w0 = Inr (v, w1) \<Longrightarrow>
        \<exists>w2. TcpClientSyncAccessor_connect P exec a ip port w = Inr (v, w2) \<and> same_objects w1 w2"
      using True by (auto simp: entered_def)
    have "clients w0 cl = Some k" "fst (tcp_new P (net w0)) = Some p"
      using w0 assms(1,9) by (simp_all add: same_objects_def entered_same)
    from ts_connect_ok_run [OF assms(6,7) this(1) assms(8) this(2) assms(10), of ip] obtain w1 b where
      w1: "TcpClient_ts_connect P cl ip port w0 = Inr (PICO_OK P, w1)" "established cl k p w1"
        "calls w1 = calls w0 @ connect_calls P p (fresh w0) b port (s_defaultNoDelay w0)" by blast
    from op [OF w1(1)] obtain w2 where "TcpClientSyncAccessor_connect P exec a ip port w = Inr (PICO_OK P, w2)" "same_objects w1 w2"
      by blast
    moreover from this(2) have "established cl k p w2" by (rule established_same [OF _ w1(2)])
    ultimately show ?thesis using True w0 w1(3) connect by (auto simp: same_objects_def entered_def)
  next
    case False
    have "clients (entered P w) cl = Some k" using assms(1) by (simp add: entered_same)
    from ts_connect_ok_run [OF assms(6,7) this assms(8-10), of ip] obtain w1 b where
      w1: "TcpClient_ts_connect P cl ip port (entered P w) = Inr (PICO_OK P, w1)" "established cl k p w1"
        "calls w1 = calls (entered P w) @ connect_calls P p (fresh w) b port (s_defaultNoDelay w)"
      by (auto simp: entered_same)
    have "TcpClient_connect P exec cl ip port w = Inr (PICO_OK P, exited P w w1)"
      using sync_connect.near_bracketed [OF False assms(3)] w1(1) False connect by (simp add: entered_def exited_def)
    moreover have "established cl k p (exited P w w1)"
      using assms(5) by (intro established_cong [OF w1(2)]) (simp_all add: lock_contract_def exited_def)
    ultimately show ?thesis using False w1(3) by (auto simp: entered_def exited_def)
  qed
qed

lemma other_core_connects: "open_contract other_core" "reg_contract other_core"
  "connect_answers other_core p port (ERR_OK other_core)" "tcp_new other_core = tcp_new sample"
  using sample_open_contract sample_reg_contract sample_connect_answers [of p port]
  by (simp_all add: other_core_def open_contract_def reg_contract_def connect_answers_def cong: option.case_cong)

theorem connect_from_either_core_witness:
  "(\<exists>w' c b. TcpClient_connect sample sample_exec 30 1 80 sample_acc_idle = Inr (PICO_OK sample, w') \<and>
      established 30 (sample_client\<lparr>cl_ctx := None, cl_sync_accessor := Some 20\<rparr>) 7 w' \<and>
      calls w' = Ctx_lock # connect_calls sample 7 c b 80 (s_defaultNoDelay sample_acc_idle) @ [Ctx_unlock]) \<and>
   (\<exists>w' c b. TcpClient_connect other_core sample_exec 30 1 80 sample_acc_idle = Inr (PICO_OK other_core, w') \<and>
      established 30 (sample_client\<lparr>cl_ctx := None, cl_sync_accessor := Some 20\<rparr>) 7 w' \<and>
      calls w' = Bridge_execute # connect_calls other_core 7 c b 80 (s_defaultNoDelay sample_acc_idle))"
proof -
  have cross: "\<not> isCrossCore sample n" "isCrossCore other_core n" for n
    by (simp_all add: other_core_def) (simp add: sample_def)
  have "pcbs (net sample_acc_idle) 7 = None" by (simp add: sample_acc_simps)
  then have new: "fst (tcp_new sample (net (entered sample sample_acc_idle))) = Some 7"
    "fst (tcp_new other_core (net (entered other_core sample_acc_idle))) = Some 7"
    using sample_new_pcb(1) by (simp_all add: entered_def other_core_connects(4) cross) (simp add: sample_def)
  have facts: "clients sample_acc_idle 30 = Some (sample_client\<lparr>cl_ctx := None, cl_sync_accessor := Some 20\<rparr>)"
    "accessors sample_acc_idle 20 = Some \<lparr>acc_io = 30\<rparr>" "calls sample_acc_idle = []"
    by (simp_all add: sample_acc_simps)
  from connect_from_either_core [where a = 20, OF facts(1) _ facts(2) exec_facts(1) lock_facts(1) sample_open_contract
        sample_reg_contract _ new(1) sample_connect_answers, of 1 80]
    connect_from_either_core [where a = 20, OF facts(1) _ facts(2) exec_facts(1) lock_facts(2) other_core_connects(1,2) _ new(2)
        other_core_connects(3), of 1 80] facts(3)
  show ?thesis by (simp add: cross)
qed

text \<open>
  When the bridge cannot reach the networking core, \<open>connect()\<close> returns the bridge's code and
  \<open>status()\<close> returns 0; neither touches the client.
\<close>

theorem bridge_failure_is_reported:
  assumes "clients w cl = Some k" and "cl_sync_accessor k = Some a" and "isCrossCore P (net w)"
    and "exec_fails exec e" and "e \<noteq> PICO_OK P"
  shows "(\<exists>w'. TcpClient_connect P exec cl ip port w = Inr (e, w') \<and> same_objects (w\<lparr>calls := calls w @ [Bridge_execute]\<rparr>) w') \<and>
    (\<exists>w'. TcpClient_status P exec cl w = Inr (0, w') \<and> same_objects (w\<lparr>calls := calls w @ [Bridge_execute]\<rparr>) w')"
  using assms(1,2) sync_connect.unreachable [OF assms(3-5), of a ip port] sync_status.unreachable [OF assms(3-5), of a]
  by (simp add: TcpClient_connect_def TcpClient_status_def prog_simps)

theorem bridge_failure_is_reported_witness:
  "\<exists>w'. TcpClient_connect other_core failing_exec 30 1 80 sample_acc_idle = Inr (PICO_ERROR_GENERIC sample, w') \<and>
    clients w' = clients sample_acc_idle"
proof -
  have "isCrossCore other_core (net sample_acc_idle)" "PICO_ERROR_GENERIC sample \<noteq> PICO_OK other_core"
    by (simp_all add: other_core_def) (simp add: sample_def)
  from bridge_failure_is_reported [OF _ _ this(1) exec_facts(2) this(2), of 30
      "sample_client\<lparr>cl_ctx := None, cl_sync_accessor := Some 20\<rparr>" 20 1 80]
  show ?thesis by (auto simp: same_objects_def) (auto simp: sample_acc_idle_def)
qed

text \<open>
  \<open>run_local\<close> runs its argument exactly once, under the lock, and returns its value on the
  networking core outside interrupts; anywhere else it fails an assertion before taking the lock.
\<close>

theorem run_local_checks_context:
  "TcpClientSyncAccessor_run_local P callMe w =
    (if \<not> isCrossCore P (net w) \<and> read_ipsr P (net w) = 0 then locked P callMe w else Inl Assertion_failed)"
  by (cases "isCrossCore P (net w)"; cases "read_ipsr P (net w) = 0")
    (simp_all add: TcpClientSyncAccessor_run_local_def TcpClientSyncAccessor_verify_execution_context_def
      is_in_isr_def prog_simps)

end
