(* ===== verification/Queries.thy ===== *)
theory Queries
  imports Separation Tcp_Sync_Accessor
begin

text \<open>
  The members of a client, its receive buffer and its writer that only look: addresses, ports, options,
  the keep-alive settings, the state and the room in the send buffer. They change nothing in any state;
  in each phase of the specification their answers are determined.
\<close>

section \<open>Programs that change nothing\<close>

definition observes :: "('h, 'a) cprog \<Rightarrow> bool" where
  "observes m \<longleftrightarrow> (\<forall>w v w'. m w = Inr (v, w') \<longrightarrow> w' = w)"

named_theorems observes_intros \<open>programs that change nothing\<close>

lemma observesD: "observes m \<Longrightarrow> m w = Inr (v, w') \<Longrightarrow> w' = w"
  unfolding observes_def by blast

lemma observes_basic [observes_intros]:
  "observes (ret x)" "observes (fail e)" "observes (gets f)" "observes (require b e)" "observes (deref e v)"
  "observes (lookup_obj store a)" "observes (get_pbuf p)" "observes (get_pcb p)"
  by (cases b; cases v; simp add: observes_def lookup_obj_def get_pbuf_def get_pcb_def split: option.splits)+

lemma observes_pbind [observes_intros]: "observes m \<Longrightarrow> (\<And>x. observes (f x)) \<Longrightarrow> observes (pbind m f)"
  by (fastforce simp: observes_def pbind_eq_Inr)

lemma observes_pseq [observes_intros]: "observes m \<Longrightarrow> observes k \<Longrightarrow> observes (pseq m k)"
  unfolding pseq_def by (intro observes_pbind)

lemma observes_on_pcb [observes_intros]: "observes m \<Longrightarrow> observes (on_pcb p m)"
  unfolding on_pcb_def by (intro observes_intros)

lemma observes_branches [observes_intros]:
  "observes m \<Longrightarrow> observes k \<Longrightarrow> observes (if b then m else k)"
  "observes n \<Longrightarrow> (\<And>a. observes (f a)) \<Longrightarrow> observes (case v of None \<Rightarrow> n | Some a \<Rightarrow> f a)"
  by (cases b; cases v; simp)+

section \<open>The queries\<close>

text \<open>The receive buffer and the writer of the client, as an application gets at them.\<close>

definition client_part :: "(TcpClientContext \<Rightarrow> addr option) \<Rightarrow> addr \<Rightarrow> ('h, addr) cprog" where
  "client_part part cl =
     pbind (the_ctx cl) (\<lambda>c. pbind (get_ctx c) (\<lambda>x. deref Null_deref (part x)))"

text \<open>The result of a program that is not looked at.\<close>

definition drop_val :: "('h, 'a) cprog \<Rightarrow> ('h, unit) cprog" where
  "drop_val m = pbind m (\<lambda>_. ret ())"

lemma drop_val_Inr: "m w = Inr (v, w') \<Longrightarrow> drop_val m w = Inr ((), w')"
  by (simp add: drop_val_def prog_simps)

lemma client_part_run:
  assumes "linked cl F bs w"
  shows "client_part ctx_rx cl w = Inr (pr F, w)" "client_part ctx_tx cl w = Inr (pt F, w)"
  using assms by (simp_all add: client_part_def the_ctx_def prog_simps linkedD)

datatype query =
    No_delay | Remote_IP | Remote_port | Local_IP | Local_port | Client_id
  | Keep_alive_enabled | Keep_alive_idle | Keep_alive_interval | Keep_alive_count
  | Peek_buffer | Send_space | Can_write | Best_chunk size_t

fun ask :: "'h platform \<Rightarrow> addr \<Rightarrow> query \<Rightarrow> ('h, unit) cprog" where
  "ask P cl No_delay = drop_val (TcpClient_getNoDelay P cl)"
| "ask P cl Remote_IP = drop_val (TcpClient_remoteIP P cl)"
| "ask P cl Remote_port = drop_val (TcpClient_remotePort cl)"
| "ask P cl Local_IP = drop_val (TcpClient_localIP P cl)"
| "ask P cl Local_port = drop_val (TcpClient_localPort cl)"
| "ask P cl Client_id = drop_val (TcpClient_getClientId cl)"
| "ask P cl Keep_alive_enabled = drop_val (TcpClient_isKeepAliveEnabled P cl)"
| "ask P cl Keep_alive_idle = drop_val (TcpClient_getKeepAliveIdle P cl)"
| "ask P cl Keep_alive_interval = drop_val (TcpClient_getKeepAliveInterval P cl)"
| "ask P cl Keep_alive_count = drop_val (TcpClient_getKeepAliveCount P cl)"
| "ask P cl Peek_buffer = pbind (client_part ctx_rx cl) (\<lambda>r. drop_val (IoRxBuffer_peekBuffer r))"
| "ask P cl Send_space = pbind (client_part ctx_tx cl) (\<lambda>t. drop_val (TcpWriter_availableForWrite P t))"
| "ask P cl Can_write = pbind (client_part ctx_tx cl) (\<lambda>t. drop_val (TcpWriter_canWriteNow P t))"
| "ask P cl (Best_chunk n) = pbind (client_part ctx_tx cl) (\<lambda>t. drop_val (TcpWriter_getOptimalChunkSize P t n))"

lemmas client_query_defs = TcpClient_getNoDelay_def TcpClientContext_getNoDelay_def TcpClient_remoteIP_def
  TcpClientContext_getRemoteAddress_def TcpClient_remotePort_def TcpClientContext_getRemotePort_def TcpClient_localIP_def
  TcpClientContext_getLocalAddress_def TcpClient_localPort_def TcpClientContext_getLocalPort_def TcpClient_getClientId_def

lemmas keep_alive_query_defs = TcpClient_isKeepAliveEnabled_def TcpClientContext_isKeepAliveEnabled_def
  TcpClient_getKeepAliveIdle_def TcpClientContext_getKeepAliveIdle_def TcpClient_getKeepAliveInterval_def
  TcpClientContext_getKeepAliveInterval_def TcpClient_getKeepAliveCount_def TcpClientContext_getKeepAliveCount_def
  keepAlive_field_def the_ctx_def

lemmas part_query_defs = IoRxBuffer_peekBuffer_def TcpWriter_availableForWrite_def TcpWriter_canWriteNow_def
  TcpWriter_getOptimalChunkSize_def

lemmas query_defs = client_query_defs keep_alive_query_defs part_query_defs client_part_def drop_val_def

lemma ask_observes: "observes (ask P cl q)"
  by (cases q) (auto simp: query_defs intro!: observes_intros)

text \<open>
  What a client in a phase sees of the PCB: \<open>f\<close> of it while the connection is open, the default \<open>d\<close> when
  there is no connection.
\<close>

fun pcb_view :: "'v \<Rightarrow> (addr \<Rightarrow> tcp_pcb \<Rightarrow> 'v) \<Rightarrow> phase \<Rightarrow> 'h world \<Rightarrow> 'v" where
  "pcb_view d f (Open p dl n) w = (case pcbs (net w) p of None \<Rightarrow> d | Some b \<Rightarrow> f p b)"
| "pcb_view d f _ w = d"

text \<open>The state that \<open>_ts_status\<close> reports: a connection the peer has closed counts as closed.\<close>

definition shown_status :: "'h platform \<Rightarrow> phase \<Rightarrow> 'h world \<Rightarrow> u8" where
  "shown_status P = pcb_view (CLOSED P)
     (\<lambda>p b. if pcb_state b = CLOSE_WAIT P \<or> pcb_state b = CLOSING P then CLOSED P else pcb_state b)"

fun failed :: "phase \<Rightarrow> bool" where
  "failed (Failed p dl n) = True"
| "failed _ = False"

lemma open_pcb:
  assumes "client_at cl (Open p dl n) w"
  obtains F b where "linked cl F (drop n dl) w" "ctx_pcb (px F) = Some p" "pcbs (net w) p = Some b"
    "writers w (pt F) = Some (pz F)" "tx_pcb (pz F) = Some p"
  using assms pcb_attachedD linkedD(2) by fastforce

lemma pcb_seen:
  assumes "client_at cl s w" "\<not> failed s"
  obtains (idle) k where "s = Idle" "clients w cl = Some k" "cl_ctx k = None"
  | (closed) k c x where "s = Closed" "clients w cl = Some k" "cl_ctx k = Some c" "contexts w c = Some x" "ctx_pcb x = None"
  | (live) k c x p dl n b where "s = Open p dl n" "clients w cl = Some k" "cl_ctx k = Some c" "contexts w c = Some x"
      "ctx_pcb x = Some p" "pcbs (net w) p = Some b"
proof (cases s)
  case (Open p dl n)
  with assms(1) obtain F b where F: "linked cl F (drop n dl) w" "ctx_pcb (px F) = Some p" "pcbs (net w) p = Some b"
    by (metis open_pcb)
  with Open linkedD(4-6) [OF F(1)] show ?thesis using live by blast
next
  case Closed
  with assms(1) obtain F where F: "linked cl F [] w" "ctx_pcb (px F) = None" by auto
  with Closed linkedD(4-6) [OF F(1)] show ?thesis using closed by blast
qed (use assms idle in auto)

lemma client_queries_run:
  assumes "client_at cl s w" "\<not> failed s"
  shows "TcpClient_getNoDelay P cl w = Inr (pcb_view False (\<lambda>p b. tcp_nagle_disabled P p (net w)) s w, w)"
    "TcpClient_remoteIP P cl w = Inr (pcb_view (ip_zero P) (\<lambda>p. remote_ip) s w, w)"
    "TcpClient_remotePort cl w = Inr (pcb_view 0 (\<lambda>p. remote_port) s w, w)"
    "TcpClient_localIP P cl w = Inr (pcb_view (ip_zero P) (\<lambda>p. local_ip) s w, w)"
    "TcpClient_localPort cl w = Inr (pcb_view 0 (\<lambda>p. local_port) s w, w)"
    "TcpClient_ts_status P cl w = Inr (shown_status P s w, w)"
  by (rule pcb_seen [OF assms];
      simp add: client_query_defs shown_status_def TcpClient_ts_status_def TcpClientContext_state_def prog_simps)+

text \<open>
  When a query may be asked: the keep-alive members and the writer need an open connection, the receive
  buffer needs to be there, and the other members must not be asked after a failure.
\<close>

fun may_ask :: "query \<Rightarrow> phase \<Rightarrow> bool" where
  "may_ask Client_id s \<longleftrightarrow> True"
| "may_ask Peek_buffer s \<longleftrightarrow> s \<noteq> Idle"
| "may_ask No_delay s \<longleftrightarrow> \<not> failed s"
| "may_ask Remote_IP s \<longleftrightarrow> \<not> failed s"
| "may_ask Remote_port s \<longleftrightarrow> \<not> failed s"
| "may_ask Local_IP s \<longleftrightarrow> \<not> failed s"
| "may_ask Local_port s \<longleftrightarrow> \<not> failed s"
| "may_ask _ s \<longleftrightarrow> (\<exists>p dl n. s = Open p dl n)"

lemma peekBuffer_runs:
  assumes "rx_rep r ps bs w"
  shows "\<exists>v. IoRxBuffer_peekBuffer r w = Inr (v, w)"
  using assms by (auto simp: IoRxBuffer_peekBuffer_def rx_rep_def rx_owns_def chain_Some prog_simps split: option.splits)

lemma open_queries_run:
  assumes "client_at cl (Open p dl n) w" "may_ask q (Open p dl n)"
  shows "ask P cl q w = Inr ((), w)"
proof -
  from assms(1) obtain F b where F: "linked cl F (drop n dl) w" "ctx_pcb (px F) = Some p" "pcbs (net w) p = Some b"
    "writers w (pt F) = Some (pz F)" "tx_pcb (pz F) = Some p" by (rule open_pcb)
  show ?thesis
  proof (cases q)
    case Peek_buffer
    with peekBuffer_runs [OF linkedD(3) [OF F(1)]] show ?thesis by (auto simp: pbind_apply client_part_run [OF F(1)] drop_val_def)
  qed (use F(2-5) linkedD(4-6) [OF F(1)] in
      \<open>simp_all add: client_query_defs keep_alive_query_defs part_query_defs drop_val_def client_part_run [OF F(1)] prog_simps\<close>)
qed

lemma ask_run:
  assumes at: "client_at cl s w" and may: "may_ask q s"
  shows "ask P cl q w = Inr ((), w)"
proof (cases "\<exists>p dl n. s = Open p dl n")
  case True
  with open_queries_run at may show ?thesis by blast
next
  case False
  from client_at_exists [OF at] obtain k where "clients w cl = Some k" by blast
  then have id: "ask P cl Client_id w = Inr ((), w)" by (simp add: TcpClient_getClientId_def drop_val_def prog_simps)
  show ?thesis
  proof (cases "q = Peek_buffer")
    case True
    with may have "s \<noteq> Idle" by simp
    from client_at_linked [OF at this] obtain F where F: "linked cl F (unread_of s) w" .
    from peekBuffer_runs [OF linkedD(3) [OF F]] True show ?thesis by (auto simp: pbind_apply client_part_run [OF F] drop_val_def)
  next
    case other: False
    show ?thesis
    proof (cases "q = Client_id")
      case True
      with id show ?thesis by simp
    next
      case False
      with other may \<open>\<nexists>p dl n. s = Open p dl n\<close> have "\<not> failed s" by (cases q) auto
      note c = client_queries_run [OF at this]
      from False other may \<open>\<nexists>p dl n. s = Open p dl n\<close> show ?thesis
        by (cases q) (simp_all add: drop_val_def c prog_simps)
    qed
  qed
qed

end
