(* ===== verification/Actions.thy ===== *)
theory Actions
  imports Queries
begin

text \<open>
  The life of any number of clients as a state machine: creation, the operations an application may
  call, the events lwIP may report (the fatal error included), what lwIP does on its own, and
  destruction, in any order. This theory has the actions, when they are admissible, and the runs they make.
\<close>

section \<open>Events of lwIP\<close>

text \<open>
  How lwIP reports an event for the PCB \<open>p\<close>: it calls the function registered for it, if any, with the
  registered argument.
\<close>

definition lwip_recv_event :: "'h platform \<Rightarrow> addr \<Rightarrow> addr option \<Rightarrow> ('h, unit) cprog" where
  "lwip_recv_event P p pb =
     pbind (get_pcb p) (\<lambda>b.
     if cb_recv b = Some Fn_lwip_receive_callback
     then pbind (lwip_receive_callback P (callback_arg b) p pb (ERR_OK P)) (\<lambda>_. ret ()) else ret ())"

definition lwip_sent_event :: "'h platform \<Rightarrow> addr \<Rightarrow> u16 \<Rightarrow> ('h, unit) cprog" where
  "lwip_sent_event P p len =
     pbind (get_pcb p) (\<lambda>b.
     if cb_sent b = Some Fn_lwip_sent_cb
     then pbind (lwip_sent_cb P (callback_arg b) p len) (\<lambda>_. ret ()) else ret ())"

definition lwip_poll_event :: "'h platform \<Rightarrow> addr \<Rightarrow> ('h, unit) cprog" where
  "lwip_poll_event P p =
     pbind (get_pcb p) (\<lambda>b.
     if cb_poll b = Some Fn_s_poll
     then pbind (TcpClientContext_s_poll P (callback_arg b) p) (\<lambda>_. ret ()) else ret ())"

definition lwip_connected_event :: "'h platform \<Rightarrow> addr \<Rightarrow> ('h, unit) cprog" where
  "lwip_connected_event P p =
     pbind (get_pcb p) (\<lambda>b.
     pbind (TcpClientContext_s_connected P (callback_arg b) p (ERR_OK P)) (\<lambda>_. ret ()))"

text \<open>A fatal error: lwIP frees the PCB and then reports the error to the registered function.\<close>

definition lwip_error_event :: "'h platform \<Rightarrow> addr \<Rightarrow> err_t \<Rightarrow> ('h, unit) cprog" where
  "lwip_error_event P p e =
     pbind (get_pcb p) (\<lambda>b.
     pseq (modify (\<lambda>w. w\<lparr>net := (net w)\<lparr>pcbs := (pcbs (net w))(p := None)\<rparr>\<rparr>))
    (if cb_err b = Some Fn_s_error then TcpClientContext_s_error P (callback_arg b) e else ret ()))"

section \<open>Actions\<close>

datatype bridge_slot = Received_slot | Connected_slot | Fin_slot | Error_slot | Poll_slot | Ack_slot

fun set_bridge :: "bridge_slot \<Rightarrow> addr \<Rightarrow> addr option \<Rightarrow> ('h, unit) cprog" where
  "set_bridge Received_slot = TcpClient_setOnReceivedCallback"
| "set_bridge Connected_slot = TcpClient_setOnConnectedCallback"
| "set_bridge Fin_slot = TcpClient_setOnFinCallback"
| "set_bridge Error_slot = TcpClient_setOnErrorCallback"
| "set_bridge Poll_slot = TcpClient_setOnPollCallback"
| "set_bridge Ack_slot = TcpClient_setOnAckCallback"

datatype op =
    Connect ip_addr u16 | Stop | Shutdown | Status | Available | Peek | Consume size_t
  | Write "u8 list" size_t | Write_chunk "u8 list" size_t | Set_no_delay bool | Keep_alive u16 u16 u8
  | Set_bridge bridge_slot "addr option" | Set_client_id u8 | Set_write_callback "user_fn option" | Set_accessor
  | Ask query | Destroy

text \<open>The pbufs of arriving data are listed in the order of their chain.\<close>

datatype event = Data "addr list" | Fin | Sent u16 | Poll | Connected | Error err_t

text \<open>
  Besides operations of a client and events there are the constructor, the settings that all clients
  share, and what lwIP does without telling the library.
\<close>

datatype 'h action = New | Port_start u16 | Default_no_delay bool | Call addr op | Event addr event | Network "'h net"

text \<open>Giving a client its accessor: \<open>setSyncAccessor(make_unique<TcpClientSyncAccessor>(ctx, client))\<close>.\<close>

definition install_accessor :: "addr \<Rightarrow> ('h, unit) cprog" where
  "install_accessor cl = pbind (TcpClientSyncAccessor_new cl) (\<lambda>a. TcpClient_setSyncAccessor cl (Some a))"

lemma install_accessor_apply: "install_accessor cl w = (case clients w cl of None \<Rightarrow> Inl (Dangling_object cl)
    | Some k \<Rightarrow> if cl_sync_accessor k = None
        then Inr ((), w\<lparr>accessors := (accessors w)(fresh w \<mapsto> \<lparr>acc_io = cl\<rparr>), fresh := Suc (fresh w),
          clients := (clients w)(cl \<mapsto> k\<lparr>cl_sync_accessor := Some (fresh w)\<rparr>)\<rparr>)
        else Inl Assertion_failed)"
  by (cases "clients w cl")
    (auto simp: install_accessor_def TcpClientSyncAccessor_new_def TcpClient_setSyncAccessor_def prog_simps)

fun call_op :: "'h platform \<Rightarrow> addr \<Rightarrow> op \<Rightarrow> ('h, unit) cprog" where
  "call_op P cl (Connect ip port) = drop_val (TcpClient_ts_connect P cl ip port)"
| "call_op P cl Stop = drop_val (TcpClient_stop P cl)"
| "call_op P cl Shutdown = drop_val (TcpClient_shutdown P cl)"
| "call_op P cl Status = drop_val (TcpClient_ts_status P cl)"
| "call_op P cl Available = pbind (client_part ctx_rx cl) (\<lambda>r. drop_val (IoRxBuffer_peekAvailable r))"
| "call_op P cl Peek = pbind (client_part ctx_rx cl) (\<lambda>r. drop_val (IoRxBuffer_peek r))"
| "call_op P cl (Consume n) = pbind (client_part ctx_rx cl) (\<lambda>r. IoRxBuffer_peekConsume P r n)"
| "call_op P cl (Write d n) = pbind (client_part ctx_tx cl) (\<lambda>t. drop_val (TcpWriter_writeData P t (Some d) n))"
| "call_op P cl (Write_chunk d n) = TcpClient_writeChunk P cl (Some d) n"
| "call_op P cl (Set_no_delay b) = TcpClient_setNoDelay P cl b"
| "call_op P cl (Keep_alive i v k) = TcpClient_keepAlive P cl i v k"
| "call_op P cl (Set_bridge s b) = set_bridge s cl b"
| "call_op P cl (Set_client_id i) = TcpClient_setClientId cl i"
| "call_op P cl (Set_write_callback f) = TcpClient_setWriteCallback cl f"
| "call_op P cl Set_accessor = install_accessor cl"
| "call_op P cl (Ask q) = ask P cl q"
| "call_op P cl Destroy = TcpClient_delete P cl"

fun report :: "'h platform \<Rightarrow> addr \<Rightarrow> event \<Rightarrow> ('h, unit) cprog" where
  "report P p (Data qs) = lwip_recv_event P p (Some (hd qs))"
| "report P p Fin = lwip_recv_event P p None"
| "report P p (Sent len) = lwip_sent_event P p len"
| "report P p Poll = lwip_poll_event P p"
| "report P p Connected = lwip_connected_event P p"
| "report P p (Error e) = lwip_error_event P p e"

fun perform :: "'h platform \<Rightarrow> 'h action \<Rightarrow> ('h, unit) cprog" where
  "perform P New = drop_val TcpClient_new"
| "perform P (Port_start port) = TcpClient_setLocalPortStart port"
| "perform P (Default_no_delay b) = TcpClient_setDefaultNoDelay b"
| "perform P (Call cl oper) = call_op P cl oper"
| "perform P (Event p ev) = report P p ev"
| "perform P (Network N) = modify (\<lambda>w. w\<lparr>net := N\<rparr>)"

text \<open>A list of actions, one after the other.\<close>

fun perform_all :: "'h platform \<Rightarrow> 'h action list \<Rightarrow> ('h, unit) cprog" where
  "perform_all P [] = ret ()"
| "perform_all P (act # acts) = pseq (perform P act) (perform_all P acts)"

section \<open>What the environment may do\<close>

text \<open>The context of a client.\<close>

definition ctx_of :: "addr \<Rightarrow> 'h world \<Rightarrow> (addr \<times> TcpClientContext) option" where
  "ctx_of cl w = Option.bind (clients w cl) (\<lambda>k. Option.bind (cl_ctx k) (\<lambda>c. map_option (Pair c) (contexts w c)))"

text \<open>The client has a connection whose PCB is still its own; it has one whose PCB is gone.\<close>

definition has_open :: "addr \<Rightarrow> 'h world \<Rightarrow> bool" where
  "has_open cl w = (case ctx_of cl w of None \<Rightarrow> False | Some (c, x) \<Rightarrow>
     (case ctx_pcb x of None \<Rightarrow> False | Some p \<Rightarrow> regs_at w p = Some (ctx_regs c)))"

definition has_failed :: "addr \<Rightarrow> 'h world \<Rightarrow> bool" where
  "has_failed cl w = (case ctx_of cl w of None \<Rightarrow> False | Some (c, x) \<Rightarrow>
     (case ctx_pcb x of None \<Rightarrow> False | Some p \<Rightarrow> regs_at w p \<noteq> Some (ctx_regs c)))"

text \<open>The first pbuf of the client's receive buffer is empty.\<close>

definition stalled :: "addr \<Rightarrow> 'h world \<Rightarrow> bool" where
  "stalled cl w = (case ctx_of cl w of None \<Rightarrow> False | Some (c, x) \<Rightarrow>
     (case ctx_rx x of None \<Rightarrow> False | Some r \<Rightarrow> rx_stalled r w))"

text \<open>lwIP has a callback argument for the PCB, and it is a context that exists.\<close>

definition registered :: "addr \<Rightarrow> 'h world \<Rightarrow> bool" where
  "registered p w = (case pcbs (net w) p of None \<Rightarrow> False | Some b \<Rightarrow>
     (case callback_arg b of None \<Rightarrow> False | Some a \<Rightarrow> contexts w a \<noteq> None))"

text \<open>The conditions under which a query may be asked, in terms of the objects.\<close>

fun askable :: "query \<Rightarrow> addr \<Rightarrow> 'h world \<Rightarrow> bool" where
  "askable Client_id cl w = True"
| "askable Peek_buffer cl w = (ctx_of cl w \<noteq> None)"
| "askable No_delay cl w = (\<not> has_failed cl w)"
| "askable Remote_IP cl w = (\<not> has_failed cl w)"
| "askable Remote_port cl w = (\<not> has_failed cl w)"
| "askable Local_IP cl w = (\<not> has_failed cl w)"
| "askable Local_port cl w = (\<not> has_failed cl w)"
| "askable _ cl w = has_open cl w"

text \<open>
  When an application may call an operation: not for a client that does not exist; not for one whose
  connection has failed, except to look at the buffer, to change the client's own settings, to be refused a
  connection or to destroy it; keep-alive and writing need an open connection; \<open>peek\<close> needs a first pbuf that
  is not empty; and the accessor is set only once.
\<close>

fun may_call :: "'h platform \<Rightarrow> addr \<Rightarrow> op \<Rightarrow> 'h world \<Rightarrow> bool" where
  "may_call P cl (Connect ip port) w = True"
| "may_call P cl Stop w = (\<not> has_failed cl w)"
| "may_call P cl Shutdown w = (\<not> has_failed cl w)"
| "may_call P cl Status w = (\<not> has_failed cl w)"
| "may_call P cl Available w = (ctx_of cl w \<noteq> None)"
| "may_call P cl Peek w = (ctx_of cl w \<noteq> None \<and> \<not> stalled cl w)"
| "may_call P cl (Consume n) w = (ctx_of cl w \<noteq> None \<and> \<not> has_failed cl w)"
| "may_call P cl (Write d n) w = (unat n \<le> length d \<and> has_open cl w)"
| "may_call P cl (Write_chunk d n) w = (unat n \<le> length d \<and> \<not> has_failed cl w)"
| "may_call P cl (Set_no_delay b) w = (\<not> has_failed cl w)"
| "may_call P cl (Keep_alive i v k) w = has_open cl w"
| "may_call P cl (Set_bridge s b) w = True"
| "may_call P cl (Set_client_id i) w = True"
| "may_call P cl (Set_write_callback f) w = True"
| "may_call P cl (Ask q) w = askable q cl w"
| "may_call P cl Set_accessor w = (\<forall>k. clients w cl = Some k \<longrightarrow> cl_sync_accessor k = None)"
| "may_call P cl Destroy w = True"

text \<open>
  lwIP reports events for PCBs with a callback argument; data arrives in pbufs no receive buffer owns. An
  event for an orphan is left out: it always faults, which is a theorem of its own.
\<close>

fun may_report :: "addr \<Rightarrow> event \<Rightarrow> 'h world \<Rightarrow> bool" where
  "may_report p (Data qs) w = (registered p w \<and> (\<forall>r ps bs. rx_rep r ps bs w \<longrightarrow> arrived (pbufs (net w)) ps (hd qs) qs))"
| "may_report p ev w = registered p w"

fun admissible :: "'h platform \<Rightarrow> 'h action \<Rightarrow> 'h world \<Rightarrow> bool" where
  "admissible P New w = True"
| "admissible P (Port_start port) w = True"
| "admissible P (Default_no_delay b) w = True"
| "admissible P (Call cl oper) w = (clients w cl \<noteq> None \<and> may_call P cl oper w)"
| "admissible P (Event p ev) w = may_report p ev w"
| "admissible P (Network N) w = lwip_activity w N"

section \<open>Steps\<close>

text \<open>The step of the specification that an action is.\<close>

fun op_label :: "addr \<Rightarrow> op \<Rightarrow> label" where
  "op_label cl (Connect ip port) = L_connect cl"
| "op_label cl Stop = L_stop cl"
| "op_label cl Shutdown = L_shutdown cl"
| "op_label cl (Consume n) = L_consume cl (unat n)"
| "op_label cl Destroy = L_delete cl"
| "op_label cl _ = L_quiet"

fun label_of :: "'h action \<Rightarrow> 'h world \<Rightarrow> label" where
  "label_of New w = L_new (fresh w)"
| "label_of (Port_start port) w = L_quiet"
| "label_of (Default_no_delay b) w = L_quiet"
| "label_of (Call cl oper) w = op_label cl oper"
| "label_of (Event p (Data qs)) w = L_receive p (bytes_of (pbufs (net w)) qs)"
| "label_of (Event p (Error e)) w = L_error p"
| "label_of (Event p ev) w = L_quiet"
| "label_of (Network N) w = L_quiet"

inductive run :: "'h platform \<Rightarrow> 'h world \<Rightarrow> label list \<Rightarrow> 'h world \<Rightarrow> bool" for P w0 where
  stay: "run P w0 [] w0"
| step: "run P w0 ls w \<Longrightarrow> admissible P act w \<Longrightarrow> perform P act w = Inr ((), w') \<Longrightarrow>
    run P w0 (ls @ [label_of act w]) w'"

text \<open>Before the first client: no objects, and no PCB with a callback argument.\<close>

definition initial :: "'h world \<Rightarrow> bool" where
  "initial w \<longleftrightarrow> clients w = Map.empty \<and> contexts w = Map.empty \<and> rx_bufs w = Map.empty \<and> writers w = Map.empty \<and>
     accessors w = Map.empty \<and> (\<forall>q b. pcbs (net w) q = Some b \<longrightarrow> callback_arg b = None)"

definition reachable :: "'h platform \<Rightarrow> 'h world \<Rightarrow> bool" where
  "reachable P w \<longleftrightarrow> (\<exists>w0 ls. initial w0 \<and> run P w0 ls w)"

definition contracts :: "'h platform \<Rightarrow> bool" where
  "contracts P \<longleftrightarrow> pbuf_contract P \<and> recved_contract P \<and> send_contract P \<and> bridge_contract P \<and> reg_contract P \<and>
     close_contract P \<and> open_contract P"

end
