(* ===== verification/Step_Frames.thy ===== *)
theory Step_Frames
  imports Actions
begin

text \<open>
  Facts about the state that hold across every operation and event, whatever the platform does and
  whether or not the call is admissible. The locale \<open>step_frame\<close> states what a relation between states
  must allow: it is a preorder, and it admits the few ways in which the library's code changes the
  state other than by allocating. Every operation but \<open>_ts_connect\<close> and the constructors then takes a
  state only to related ones; \<open>open_frame\<close> adds what these need. The accounting of acknowledged bytes, the
  consistency of the accessors and the count of attempts to connect are instances.
\<close>

section \<open>Members that point to other objects\<close>

text \<open>They are as before or null.\<close>

definition ctx_kept :: "TcpClientContext \<Rightarrow> TcpClientContext \<Rightarrow> bool" where
  "ctx_kept x x' \<longleftrightarrow> (ctx_rx x' = ctx_rx x \<or> ctx_rx x' = None) \<and> (ctx_tx x' = ctx_tx x \<or> ctx_tx x' = None)"

definition client_kept :: "TcpClient \<Rightarrow> TcpClient \<Rightarrow> bool" where
  "client_kept k k' \<longleftrightarrow> (cl_ctx k' = cl_ctx k \<or> cl_ctx k' = None) \<and> cl_sync_accessor k' = cl_sync_accessor k"

lemma kept_rel [simp]: "reflp ctx_kept" "transp ctx_kept" "reflp client_kept" "transp client_kept"
  by (auto simp: reflp_def transp_def ctx_kept_def client_kept_def)

section \<open>Frames\<close>

text \<open>
  \<open>framed R A m\<close>: from a state with \<open>A\<close> the program \<open>m\<close> only returns in a state related to it by \<open>R\<close>, again
  with \<open>A\<close>. The conditions in use are \<open>anywhere\<close> and \<open>present r\<close>: there is a receive buffer at \<open>r\<close>.
\<close>

definition framed :: "('h world \<Rightarrow> 'h world \<Rightarrow> bool) \<Rightarrow> ('h world \<Rightarrow> bool) \<Rightarrow> ('h, 'a) cprog \<Rightarrow> bool" where
  "framed R A m \<longleftrightarrow> (\<forall>w v w'. A w \<longrightarrow> m w = Inr (v, w') \<longrightarrow> R w w' \<and> A w')"

definition anywhere :: "'h world \<Rightarrow> bool" where
  "anywhere w \<longleftrightarrow> True"

definition present :: "addr \<Rightarrow> 'h world \<Rightarrow> bool" where
  "present r w \<longleftrightarrow> r \<in> dom (rx_bufs w)"

abbreviation settled :: "('h world \<Rightarrow> 'h world \<Rightarrow> bool) \<Rightarrow> ('h, 'a) cprog \<Rightarrow> bool" where
  "settled R m \<equiv> framed R anywhere m"

named_theorems frame_intros \<open>programs that stay within a frame\<close>

lemma settledD: "settled R m \<Longrightarrow> m w = Inr (v, w') \<Longrightarrow> R w w'"
  by (simp add: framed_def anywhere_def)

lemma framed_branches [frame_intros]:
  "framed R A m \<Longrightarrow> framed R A k \<Longrightarrow> framed R A (if b then m else k)"
  "framed R A n \<Longrightarrow> (\<And>a. framed R A (f a)) \<Longrightarrow> framed R A (case v of None \<Rightarrow> n | Some a \<Rightarrow> f a)"
  "(\<And>x y. framed R A (g x y)) \<Longrightarrow> framed R A (case z of (x, y) \<Rightarrow> g x y)"
  by (cases b; cases v; cases z; simp)+

locale step_frame =
  fixes R :: "'h world \<Rightarrow> 'h world \<Rightarrow> bool" and logs :: "ext_call \<Rightarrow> bool" and dies :: bool and connects :: bool
  assumes refl: "R w w" and trans: "R u v \<Longrightarrow> R v w \<Longrightarrow> R u w"
    and net: "R w (w\<lparr>net := N\<rparr>)" and log: "logs c \<Longrightarrow> R w (w\<lparr>net := N, calls := calls w @ [c]\<rparr>)"
    and other_calls: "(\<And>p n. c \<noteq> Tcp_recved p n) \<Longrightarrow> (\<And>p ip k. c = Tcp_connect p ip k \<Longrightarrow> connects) \<Longrightarrow> logs c"
    and port: "connects \<Longrightarrow> R w (w\<lparr>s_localPort := lp\<rparr>)" and no_delay: "R w (w\<lparr>s_defaultNoDelay := nd\<rparr>)"
    and rx: "rx_bufs w r = Some x \<Longrightarrow> R w (w\<lparr>rx_bufs := (rx_bufs w)(r \<mapsto> x')\<rparr>)"
    and ctx: "contexts w c' = Some y \<Longrightarrow> ctx_kept y y' \<Longrightarrow> R w (w\<lparr>contexts := (contexts w)(c' \<mapsto> y')\<rparr>)"
    and client: "clients w cl = Some k \<Longrightarrow> client_kept k k' \<Longrightarrow> R w (w\<lparr>clients := (clients w)(cl \<mapsto> k')\<rparr>)"
    and ended: "R w (w\<lparr>rx_bufs := (rx_bufs w)(a := None)\<rparr>)" "R w (w\<lparr>writers := (writers w)(a := None)\<rparr>)"
      "R w (w\<lparr>contexts := (contexts w)(a := None)\<rparr>)"
    and ended_client: "dies \<Longrightarrow> R w (w\<lparr>clients := (clients w)(a := None)\<rparr>)" "dies \<Longrightarrow> R w (w\<lparr>accessors := (accessors w)(a := None)\<rparr>)"
begin

subsection \<open>Composition\<close>

lemma framed_pure [frame_intros]:
  "framed R A (ret x)" "framed R A (fail e)" "framed R A (gets f)" "framed R A (require b e)" "framed R A (deref e v)"
  by (cases b; cases v; simp add: framed_def refl)+

lemma framed_access [frame_intros]:
  "framed R A (lookup_obj store a)" "framed R A (get_pbuf p)" "framed R A (get_pcb p)"
  by (simp_all add: framed_def lookup_obj_def get_pbuf_def get_pcb_def refl split: option.splits)

lemma framed_pbind [frame_intros]: "framed R A m \<Longrightarrow> (\<And>x. framed R A (f x)) \<Longrightarrow> framed R A (pbind m f)"
  unfolding framed_def pbind_eq_Inr using trans by (metis surj_pair)

lemma framed_pseq [frame_intros]: "framed R A m \<Longrightarrow> framed R A k \<Longrightarrow> framed R A (pseq m k)"
  unfolding pseq_def by (intro framed_pbind)

lemma framed_guards [frame_intros]:
  "framed R A m \<Longrightarrow> framed R A (when_p b m)" "(\<And>a. framed R A (f a)) \<Longrightarrow> framed R A (when_some v f)"
  "framed R A n \<Longrightarrow> framed R A (on_pcb p n)" "framed R A k \<Longrightarrow> framed R A (on_pbuf q k)"
  by (cases b; cases v; simp add: frame_intros on_pcb_def on_pbuf_def)+

lemma framed_ploop:
  assumes "ploop body l s = Some y"
  shows "(\<forall>l. framed R A (body l)) \<longrightarrow> A s \<longrightarrow> (\<forall>v s'. y = Inr (v, s') \<longrightarrow> R s s' \<and> A s')"
proof (rule ploop.raw_induct [where P = "\<lambda>body l s y. (\<forall>l. framed R A (body l)) \<longrightarrow> A s \<longrightarrow>
      (\<forall>v s'. y = Inr (v, s') \<longrightarrow> R s s' \<and> A s')", OF _ assms], intro impI allI)
  fix loop body l s y v s'
  assume IH: "\<And>body l s y. loop body l s = Some y \<Longrightarrow>
      (\<forall>l. framed R A (body l)) \<longrightarrow> A s \<longrightarrow> (\<forall>v s'. y = Inr (v, s') \<longrightarrow> R s s' \<and> A s')"
    and step: "(case body l s of Inl e \<Rightarrow> Some (Inl e) | Inr (x, s') \<Rightarrow>
      (case x of Done r \<Rightarrow> Some (Inr (r, s')) | Again l' \<Rightarrow> loop body l' s')) = Some y"
    and st: "\<forall>l. framed R A (body l)" and s: "A s" and y: "y = Inr (v, s')"
  from step y obtain x s1 where x: "body l s = Inr (x, s1)" by (auto split: sum.splits)
  with st s have s1: "R s s1" "A s1" unfolding framed_def by blast+
  show "R s s' \<and> A s'"
  proof (cases x)
    case (Again l')
    with step x have "loop body l' s1 = Some y" by simp
    with IH st s1 y have "R s1 s' \<and> A s'" by blast
    with s1(1) trans show ?thesis by blast
  qed (use step x y s1 in simp)
qed

lemma framed_loop [frame_intros]:
  assumes "\<And>l. framed R A (body l)"
  shows "framed R A (run_loop d body l)"
  unfolding framed_def
proof (intro allI impI)
  fix w v w' assume w: "A w" "run_loop d body l w = Inr (v, w')"
  then have "ploop body l w = Some (Inr (v, w'))" by (simp add: run_loop_def split: option.splits)
  from framed_ploop [OF this, of A] assms w(1) show "R w w' \<and> A w'" by blast
qed

subsection \<open>Changes of the state\<close>

lemma logs_other [frame_intros]:
  "logs (Pbuf_free p)" "logs (Pbuf_ref p)" "logs (Pbuf_cat p q)" "logs Tcp_new" "logs (Tcp_setprio p u)"
  "logs (Tcp_arg p a)" "logs (Tcp_recv p f)" "logs (Tcp_sent p f)" "logs (Tcp_err p f)" "logs (Tcp_poll p f u)"
  "connects \<Longrightarrow> logs (Tcp_connect p ip lp)" "logs (Tcp_close p)" "logs (Tcp_abort p)" "logs (Tcp_write p d u)" "logs (Tcp_output p)"
  "logs (Tcp_nagle_disable p)" "logs (Tcp_nagle_enable p)" "logs (Bridge_workload p l)" "logs (Bridge_run p)"
  by (rule other_calls; simp)+

lemma framed_ext [frame_intros]:
  "logs c \<Longrightarrow> settled R (ext c f)" "logs c \<Longrightarrow> settled R (ext_val c g)"
  "logs c \<Longrightarrow> framed R (present r) (ext c f)" "logs c \<Longrightarrow> framed R (present r) (ext_val c g)"
  by (auto simp: framed_def anywhere_def present_def log)

lemma settled_outside [frame_intros]:
  "settled R (put_pcb p b)" "connects \<Longrightarrow> settled R (modify (\<lambda>w. w\<lparr>s_localPort := lp\<rparr>))"
  "settled R (modify (\<lambda>w. w\<lparr>s_defaultNoDelay := nd\<rparr>))"
  "settled R (modify (\<lambda>w. w\<lparr>net := (net w)\<lparr>pcbs := (pcbs (net w))(p := None)\<rparr>\<rparr>))"
  by (simp_all add: framed_def anywhere_def net port no_delay)

lemma settled_upd [frame_intros]:
  "(\<And>x. ctx_kept x (f x)) \<Longrightarrow> settled R (upd_ctx c f)" "(\<And>k. client_kept k (g k)) \<Longrightarrow> settled R (upd_client cl g)"
  by (auto simp: framed_def anywhere_def upd_ctx_apply upd_client_apply ctx client split: option.splits)

lemma settled_remove [frame_intros]:
  "settled R (modify (\<lambda>w. w\<lparr>rx_bufs := (rx_bufs w)(a := None)\<rparr>))" "settled R (modify (\<lambda>w. w\<lparr>writers := (writers w)(a := None)\<rparr>))"
  "settled R (modify (\<lambda>w. w\<lparr>contexts := (contexts w)(a := None)\<rparr>))"
  "dies \<Longrightarrow> settled R (modify (\<lambda>w. w\<lparr>clients := (clients w)(a := None)\<rparr>))"
  "dies \<Longrightarrow> settled R (modify (\<lambda>w. w\<lparr>accessors := (accessors w)(a := None)\<rparr>))"
  by (simp_all add: framed_def anywhere_def ended ended_client)

lemma framed_put_rx [frame_intros]: "framed R (present r) (put_rx r x)"
  by (auto simp: framed_def present_def rx)

text \<open>After a receive buffer has been looked up it is there.\<close>

lemma settled_get_rx:
  assumes "\<And>x. framed R (present r) (m x)"
  shows "settled R (pbind (get_rx r) m)"
  using assms unfolding framed_def pbind_eq_Inr lookup_obj_def anywhere_def present_def
  by (fastforce split: option.splits)

lemma settled_change_rx:
  assumes "\<And>x. settled R (m x)"
  shows "settled R (pbind (get_rx r) (\<lambda>x. pseq (put_rx r (f x)) (m x)))"
  unfolding framed_def anywhere_def
proof (intro allI impI)
  fix w v w' assume "pbind (get_rx r) (\<lambda>x. pseq (put_rx r (f x)) (m x)) w = Inr (v, w')"
  then obtain x where "rx_bufs w r = Some x" and m: "m x (w\<lparr>rx_bufs := (rx_bufs w)(r \<mapsto> f x)\<rparr>) = Inr (v, w')"
    by (auto simp: pbind_eq_Inr pseq_eq_Inr lookup_obj_def split: option.splits)
  then show "R w w' \<and> True" using trans [OF rx settledD [OF assms m]] by blast
qed

subsection \<open>The receive buffer\<close>

lemma IoRxBuffer_free_present: "framed R (present r) (IoRxBuffer_free P r)"
  unfolding IoRxBuffer_free_def by (intro frame_intros)

lemma IoRxBuffer_reset_settled [frame_intros]: "settled R (IoRxBuffer_reset P r)"
  unfolding IoRxBuffer_reset_def by (intro settled_get_rx frame_intros)

lemma IoRxBuffer_take_settled [frame_intros]: "settled R (IoRxBuffer_take P r q)"
  unfolding IoRxBuffer_take_def by (intro settled_get_rx frame_intros)

text \<open>Consuming acknowledges: it stays within a frame that allows \<open>tcp_recved\<close>.\<close>

lemma IoRxBuffer_toAck_settled:
  assumes "\<And>p n. logs (Tcp_recved p n)"
  shows "settled R (IoRxBuffer_toAck P r n)"
  unfolding IoRxBuffer_toAck_def IoRxBuffer_toAckStep_def Let_def by (intro frame_intros assms)

lemma IoRxBuffer_peekConsume_settled:
  assumes "\<And>p n. logs (Tcp_recved p n)"
  shows "settled R (IoRxBuffer_peekConsume P r n)"
proof -
  have "settled R (IoRxBuffer_fastPath P r n)"
    unfolding IoRxBuffer_fastPath_def Let_def by (intro settled_get_rx frame_intros IoRxBuffer_free_present)
  moreover have "settled R (IoRxBuffer_slowStep P r l)" for l
    unfolding IoRxBuffer_slowStep_def Let_def
    by (cases l) (simp, intro settled_get_rx frame_intros IoRxBuffer_free_present)
  ultimately show ?thesis
    unfolding IoRxBuffer_peekConsume_def IoRxBuffer_slowPath_def Let_def
    by (intro frame_intros IoRxBuffer_toAck_settled assms)
qed

subsection \<open>The other operations and the events\<close>

lemma TcpWriter_writeData_settled: "settled R (TcpWriter_writeData P t d n)"
proof -
  have "settled R (TcpWriter_writeStep P t e n tot)" for e tot
    unfolding TcpWriter_writeStep_def TcpWriter_getOptimalChunkSize_def TcpWriter_availableForWrite_def Let_def
    by (intro frame_intros)
  then show ?thesis
    unfolding TcpWriter_writeData_def by (intro frame_intros) (auto intro!: frame_intros split: option.splits)
qed

lemma TcpClientContext_delete_settled: "settled R (TcpClientContext_delete P c)"
  unfolding TcpClientContext_delete_def TcpClientContext_cleanupRxBuffer_def TcpClientContext_cleanupTxWriter_def
    TcpWriter_delete_def IoRxBuffer_delete_def
  by (intro frame_intros) (simp_all add: ctx_kept_def)

lemma TcpClientContext_close_settled: "settled R (TcpClientContext_close P c)"
  unfolding TcpClientContext_close_def TcpClientContext_detach_def
  by (intro frame_intros) (simp_all add: ctx_kept_def)

lemma TcpClient_attach_settled: "settled R (TcpClient_attach cl c)"
  unfolding TcpClient_attach_def TcpClientContext_setClientId_def TcpClientContext_setTimeout_def
    TcpClientContext_setOnConnectCallback_def TcpClientContext_setOnErrorCallback_def
    TcpClientContext_setOnFinCallback_def TcpClientContext_setOnReceivedCallback_def
    TcpClientContext_setOnPollCallback_def TcpClientContext_setOnAckCallback_def
  by (intro frame_intros) (simp_all add: ctx_kept_def)

lemma TcpClient_setNoDelay_settled: "settled R (TcpClient_setNoDelay P cl b)"
  unfolding TcpClient_setNoDelay_def TcpClientContext_setNoDelay_def by (intro frame_intros)

lemma finish_connect_settled: "connects \<Longrightarrow> settled R (finish_connect P cl c ip port)"
  unfolding finish_connect_def TcpClientContext_connect_def
  by (intro frame_intros TcpClientContext_delete_settled TcpClient_setNoDelay_settled) (simp_all add: client_kept_def)

lemma call_err_settled: "settled R (call_err P cb e)"
  by (cases "(P, cb, e)" rule: call_err.cases)
    (auto simp: TcpClient_onErrorCallback_def give_workload_def run_bridge_def intro!: frame_intros)

lemma call_void_settled: "settled R (call_void P cb)"
  by (cases "(P, cb)" rule: call_void.cases)
    (auto simp: TcpClient_onConnectCallback_def TcpClient_remoteIP_def TcpClientContext_getRemoteAddress_def
      TcpClient_onFinCallback_def TcpClientContext_getTxWriter_def TcpClientContext_getRxBuffer_def TcpWriter_onError_def
      TcpClient_onReceiveCallback_def TcpClient_onPollCallback_def give_workload_def run_bridge_def intro!: frame_intros)

lemma call_rx_settled: "settled R (call_rx P cb)"
  by (cases "(P, cb)" rule: call_rx.cases) (auto intro!: frame_intros call_void_settled)

lemma lwip_receive_callback_settled: "settled R (lwip_receive_callback P arg p q e)"
  unfolding lwip_receive_callback_def IoRxBuffer_onReceivedCallback_def IoRxBuffer_onFinCallback_def
    TcpClientContext_getRxBuffer_def
  by (intro settled_change_rx frame_intros call_rx_settled)

lemma report_settled: "settled R (report P p ev)"
proof (cases ev)
  case (Sent len)
  then show ?thesis
    by (auto simp: lwip_sent_event_def lwip_sent_cb_def TcpClientContext_getTxWriter_def TcpWriter_onAckCallback_def
        intro!: frame_intros)
next
  case Poll
  then show ?thesis
    by (auto simp: lwip_poll_event_def TcpClientContext_s_poll_def TcpClientContext_poll_def
        intro!: frame_intros call_void_settled)
next
  case Connected
  then show ?thesis
    by (auto simp: lwip_connected_event_def TcpClientContext_s_connected_def TcpClientContext_connected_def
        intro!: frame_intros call_void_settled)
next
  case (Error e)
  then show ?thesis
    by (auto simp: lwip_error_event_def TcpClientContext_s_error_def TcpClientContext_error_def
        intro!: frame_intros call_err_settled)
qed (auto simp: lwip_recv_event_def intro!: frame_intros lwip_receive_callback_settled)

lemma set_bridge_settled: "settled R (set_bridge slot cl b)"
  by (cases slot) (auto simp: TcpClient_setOnReceivedCallback_def TcpClient_setOnConnectedCallback_def
      TcpClient_setOnFinCallback_def TcpClient_setOnErrorCallback_def TcpClient_setOnPollCallback_def
      TcpClient_setOnAckCallback_def client_kept_def intro!: frame_intros)

lemma TcpClient_stop_settled: "settled R (TcpClient_stop P cl)"
  unfolding TcpClient_stop_def by (intro frame_intros TcpClientContext_close_settled)

lemma TcpClient_writeChunk_settled: "settled R (TcpClient_writeChunk P cl d n)"
  unfolding TcpClient_writeChunk_def TcpClientContext_writeChunk_def Let_def by (intro frame_intros call_err_settled)

lemma client_part_settled: "settled R (client_part part cl)"
  unfolding client_part_def the_ctx_def by (intro frame_intros)

lemma shared_setting_settled: "connects \<Longrightarrow> settled R (perform P (Port_start port))" "settled R (perform P (Default_no_delay b))"
  by (auto simp: TcpClient_setLocalPortStart_def TcpClient_setDefaultNoDelay_def intro!: frame_intros)

lemma network_settled: "settled R (perform P (Network N))"
  by (simp add: framed_def anywhere_def net)

lemma observes_settled: "observes m \<Longrightarrow> settled R m"
  using refl by (auto simp: framed_def anywhere_def dest: observesD)

text \<open>Every operation except connecting and installing an accessor.\<close>

lemma call_op_settled:
  assumes "\<And>ip port. oper \<noteq> Connect ip port" "oper \<noteq> Set_accessor"
    and "\<And>p k n. oper = Consume n \<Longrightarrow> logs (Tcp_recved p k)" "oper = Destroy \<Longrightarrow> dies"
  shows "settled R (call_op P cl oper)"
  using assms
proof (cases oper)
  case (Keep_alive i v k)
  then show ?thesis
    by (auto simp: TcpClient_keepAlive_def the_ctx_def TcpClientContext_keepAlive_def intro!: frame_intros)
next
  case Status
  then show ?thesis
    by (auto simp: drop_val_def TcpClient_ts_status_def TcpClientContext_state_def intro!: frame_intros)
next
  case Destroy
  with assms(4) show ?thesis by (auto simp: TcpClient_delete_def intro!: frame_intros TcpClientContext_delete_settled)
next
  case Shutdown
  then show ?thesis
    by (auto simp: drop_val_def TcpClient_shutdown_def client_kept_def
        intro!: frame_intros TcpClientContext_delete_settled TcpClient_stop_settled)
next
  case (Ask q)
  then show ?thesis by (simp add: observes_settled ask_observes)
next
  case (Set_client_id i)
  then show ?thesis by (auto simp: TcpClient_setClientId_def client_kept_def intro!: frame_intros)
next
  case (Set_write_callback f)
  then show ?thesis by (auto simp: TcpClient_setWriteCallback_def client_kept_def intro!: frame_intros)
next
  case Available
  then show ?thesis by (auto simp: drop_val_def IoRxBuffer_peekAvailable_def intro!: frame_intros client_part_settled)
next
  case Peek
  then show ?thesis by (auto simp: drop_val_def IoRxBuffer_peek_def intro!: frame_intros client_part_settled)
qed (auto simp: drop_val_def intro!: frame_intros TcpClient_stop_settled client_part_settled IoRxBuffer_peekConsume_settled
    TcpWriter_writeData_settled TcpClient_writeChunk_settled TcpClient_setNoDelay_settled set_bridge_settled)

end

section \<open>Frames that admit new objects\<close>

text \<open>
  A relation that also allows \<open>new\<close> and any change of a context, a writer or a client that leaves the
  client's accessor: then connecting and creating a client stay within the frame as well.
\<close>

locale open_frame = step_frame +
  assumes new_object: "R w (w\<lparr>rx_bufs := (rx_bufs w)(fresh w \<mapsto> x1), fresh := Suc (fresh w)\<rparr>)"
      "R w (w\<lparr>writers := (writers w)(fresh w \<mapsto> x2), fresh := Suc (fresh w)\<rparr>)"
      "R w (w\<lparr>contexts := (contexts w)(fresh w \<mapsto> x3), fresh := Suc (fresh w)\<rparr>)"
      "cl_sync_accessor x4 = None \<Longrightarrow> R w (w\<lparr>clients := (clients w)(fresh w \<mapsto> x4), fresh := Suc (fresh w)\<rparr>)"
    and any_tx: "writers w a = Some y1 \<Longrightarrow> R w (w\<lparr>writers := (writers w)(a \<mapsto> z1)\<rparr>)"
    and any_ctx: "contexts w a = Some y2 \<Longrightarrow> R w (w\<lparr>contexts := (contexts w)(a \<mapsto> z2)\<rparr>)"
    and any_client: "clients w a = Some y3 \<Longrightarrow> cl_sync_accessor z3 = cl_sync_accessor y3 \<Longrightarrow> R w (w\<lparr>clients := (clients w)(a \<mapsto> z3)\<rparr>)"
begin

lemma settled_new: "settled R (new_rx x)" "settled R (new_tx y)" "settled R (new_ctx z)"
  "cl_sync_accessor k = None \<Longrightarrow> settled R (new_client k)"
  by (simp_all add: framed_def anywhere_def new_defs new_object)

lemma settled_any: "settled R (upd_ctx c f)" "settled R (upd_client cl (cl_ctx_update h))"
  by (auto simp: framed_def anywhere_def upd_ctx_apply upd_client_apply any_ctx any_client split: option.splits)

lemma setters_settled:
  "settled R (IoRxBuffer_setOnFinCallback r f)" "settled R (IoRxBuffer_setOnReceivedCallback r f)"
  unfolding IoRxBuffer_setOnFinCallback_def IoRxBuffer_setOnReceivedCallback_def
  by (intro settled_get_rx frame_intros)+

lemma TcpWriter_setOnAckCallback_settled: "settled R (TcpWriter_setOnAckCallback t g)"
  by (auto simp: framed_def anywhere_def TcpWriter_setOnAckCallback_def prog_simps any_tx split: option.splits)

lemma TcpClientContext_new_settled: "settled R (TcpClientContext_new P p)"
  unfolding TcpClientContext_new_def TcpClientContext_initRxBuffer_def TcpClientContext_initTxWriter_def
    IoRxBuffer_new_def TcpWriter_new_def
  by (intro frame_intros settled_new settled_any setters_settled TcpWriter_setOnAckCallback_settled)

lemma TcpClient_ts_connect_settled: "connects \<Longrightarrow> settled R (TcpClient_ts_connect P cl ip port)"
  unfolding TcpClient_ts_connect_def TcpClient_assignPort_def finish_connect_def [symmetric] Let_def
  by (intro frame_intros settled_any TcpClientContext_new_settled TcpClient_attach_settled finish_connect_settled)

lemma perform_settled:
  assumes "\<And>cl. act \<noteq> Call cl Set_accessor" "\<And>cl. act = Call cl Destroy \<Longrightarrow> dies"
    "\<And>cl n p k. act = Call cl (Consume n) \<Longrightarrow> logs (Tcp_recved p k)"
    "\<And>cl ip port. act = Call cl (Connect ip port) \<Longrightarrow> connects" "\<And>port. act = Port_start port \<Longrightarrow> connects"
  shows "settled R (perform P act)"
proof (cases act)
  case New
  then show ?thesis by (auto simp: drop_val_def TcpClient_new_def intro!: frame_intros settled_new)
next
  case (Call cl oper)
  then show ?thesis
  proof (cases "\<exists>ip port. oper = Connect ip port")
    case True
    with Call assms(4) have connects by blast
    with True Call show ?thesis by (auto simp: drop_val_def intro!: frame_intros TcpClient_ts_connect_settled)
  next
    case False
    have "settled R (call_op P cl oper)" by (rule call_op_settled) (use Call False assms in auto)
    then show ?thesis using Call by simp
  qed
qed (use report_settled shared_setting_settled network_settled assms(5) in simp_all)

end

end
