(* ===== verification/Ownership.thy ===== *)
theory Ownership
  imports Separation
begin

text \<open>
  Who owns the objects on the heap: the context, the receive buffer, the writer and the pbufs of a
  connection belong to its client, and what is live without an owner is a stray. A change confined to one
  client's objects keeps the simulation relation and makes no strays; the lemmas of this theory say so for
  the shapes of change that the operations and events make.
\<close>

section \<open>Owners and strays\<close>

datatype obj = Context addr | Rx_buffer addr | Writer addr | Pbuf addr

fun live :: "obj \<Rightarrow> 'h world \<Rightarrow> bool" where
  "live (Context a) w = (contexts w a \<noteq> None)"
| "live (Rx_buffer a) w = (rx_bufs w a \<noteq> None)"
| "live (Writer a) w = (writers w a \<noteq> None)"
| "live (Pbuf a) w = (pbufs (net w) a \<noteq> None)"

definition objs :: "parts \<Rightarrow> obj set" where
  "objs F = {Context (pc F), Rx_buffer (pr F), Writer (pt F)} \<union> Pbuf ` set (pps F)"

lemma in_objs [simp]:
  "Context a \<in> objs F \<longleftrightarrow> a = pc F" "Rx_buffer a \<in> objs F \<longleftrightarrow> a = pr F" "Writer a \<in> objs F \<longleftrightarrow> a = pt F"
  "Pbuf a \<in> objs F \<longleftrightarrow> a \<in> set (pps F)"
  by (auto simp: objs_def)

definition owned_by :: "addr \<Rightarrow> 'h world \<Rightarrow> obj set" where
  "owned_by cl w = {x. \<exists>F bs. linked cl F bs w \<and> x \<in> objs F}"

definition strays :: "'h world \<Rightarrow> obj set" where
  "strays w = {x. live x w \<and> (\<forall>cl. x \<notin> owned_by cl w)}"

lemma linked_owned:
  assumes "linked cl F bs w"
  shows "owned_by cl w = objs F"
proof -
  have "F' = F" if "linked cl F' bs' w" for F' bs' using linked_unique [OF assms that] by simp
  with assms show ?thesis unfolding owned_by_def by blast
qed

lemma idle_owned: "(\<And>F bs. \<not> linked cl F bs w) \<Longrightarrow> owned_by cl w = {}"
  by (simp add: owned_by_def)

lemma client_idle_owned: "client_at cl Idle w \<Longrightarrow> owned_by cl w = {}"
  by (rule idle_owned) (rule client_at_idle)

lemma no_client_owned: "clients w cl = None \<Longrightarrow> owned_by cl w = {}"
  by (rule idle_owned) (auto dest: linkedD(4))

lemma strays_cong:
  assumes "\<And>cl F bs. linked cl F bs w' = linked cl F bs w" "\<And>x. live x w' = live x w"
  shows "strays w' = strays w"
  using assms by (simp add: strays_def owned_by_def)

lemma strays_quiet: "quiet_change w w' \<Longrightarrow> strays w' = strays w"
proof (rule strays_cong)
  fix x assume "quiet_change w w'"
  then show "live x w' = live x w" by (cases x) (simp_all add: quiet_change_def net_frame_def)
qed (rule quiet_change_linked)

lemma live_confined:
  assumes "confined cl F A w w'" "x \<notin> objs F"
  shows "live x w' = live x w"
  using assms by (cases x) (simp_all add: confined_def)

text \<open>
  The accounting of a confined change: in \<open>w'\<close> the client has nothing but objects of \<open>F\<close> and the pbufs \<open>B\<close> that
  it has taken over, and what it no longer has of \<open>F\<close> is gone.
\<close>

definition accounted :: "addr \<Rightarrow> parts \<Rightarrow> addr set \<Rightarrow> 'h world \<Rightarrow> bool" where
  "accounted cl F B w' \<longleftrightarrow> owned_by cl w' \<subseteq> objs F \<union> Pbuf ` B \<and> Pbuf ` B \<subseteq> owned_by cl w' \<and>
     (\<forall>x\<in>objs F. live x w' \<longrightarrow> x \<in> owned_by cl w')"

lemma accounted_linked:
  assumes "linked cl F' bs w'" "pc F' = pc F" "pr F' = pr F" "pt F' = pt F" "set (pps F') \<subseteq> set (pps F) \<union> B" "B \<subseteq> set (pps F')"
    "\<And>a. a \<in> set (pps F) \<Longrightarrow> a \<notin> set (pps F') \<Longrightarrow> pbufs (net w') a = None"
  shows "accounted cl F B w'"
proof -
  have "a \<in> set (pps F')" if "a \<in> set (pps F)" "pbufs (net w') a \<noteq> None" for a
    using assms(7) [of a] that by (cases "a \<in> set (pps F')") simp_all
  then have "x \<in> objs F'" if "x \<in> objs F" "live x w'" for x using that assms(2-4) unfolding objs_def by fastforce
  moreover have "objs F' \<subseteq> objs F \<union> Pbuf ` B" "Pbuf ` B \<subseteq> objs F'" using assms(2-6) by (auto simp: objs_def)
  ultimately show ?thesis by (simp add: accounted_def linked_owned [OF assms(1)])
qed

lemma accounted_released:
  assumes "\<And>F' bs. \<not> linked cl F' bs w'" "contexts w' (pc F) = None" "rx_bufs w' (pr F) = None" "writers w' (pt F) = None"
    "\<And>a. a \<in> set (pps F) \<Longrightarrow> pbufs (net w') a = None"
  shows "accounted cl F {} w'"
proof -
  have "\<not> live x w'" if "x \<in> objs F" for x using that assms(2-5) by (cases x) auto
  then show ?thesis by (simp add: accounted_def idle_owned [OF assms(1)])
qed

lemma accounted_parts:
  assumes "accounted cl F B w'" "linked cl F' bs w'"
  shows "pt F' = pt F \<and> set (pps F') \<subseteq> set (pps F) \<union> B"
proof -
  have sub: "x \<in> objs F \<union> Pbuf ` B" if "x \<in> objs F'" for x
    using assms(1) linked_owned [OF assms(2)] that by (auto simp: accounted_def)
  show ?thesis using sub [of "Writer (pt F')"] sub [of "Pbuf _"] by (auto simp: image_iff)
qed

lemma strays_confined:
  assumes rel: "sys_rel S Q w" and conf: "confined cl F A w w'" and own: "own_parts cl F w"
    and before: "owned_by cl w \<subseteq> objs F" "\<And>x. x \<in> objs F \<Longrightarrow> live x w \<Longrightarrow> x \<in> owned_by cl w"
    and acc: "accounted cl F B w'"
  shows "strays w' = strays w - Pbuf ` B"
proof (rule set_eqI)
  fix x
  have others: "x \<in> owned_by c w' \<longleftrightarrow> x \<in> owned_by c w" if "c \<noteq> cl" for c
    using linked_confined_back [OF rel conf own _ that] linked_confined [OF _ conf that] own that
    unfolding owned_by_def own_parts_def by blast
  show "x \<in> strays w' \<longleftrightarrow> x \<in> strays w - Pbuf ` B"
  proof (cases "x \<in> objs F")
    case True
    with before(2) acc have "\<not> (live x w \<and> x \<notin> owned_by cl w)" "\<not> (live x w' \<and> x \<notin> owned_by cl w')"
      unfolding accounted_def by blast+
    then show ?thesis unfolding strays_def by blast
  next
    case False
    with before(1) acc have "x \<in> owned_by cl w' \<longleftrightarrow> x \<in> Pbuf ` B" "x \<notin> owned_by cl w" by (auto simp: accounted_def)
    with others have "(\<forall>c. x \<notin> owned_by c w') \<longleftrightarrow> x \<notin> Pbuf ` B \<and> (\<forall>c. x \<notin> owned_by c w)" by metis
    with live_confined [OF conf False] show ?thesis by (auto simp: strays_def)
  qed
qed

section \<open>Steps\<close>

text \<open>
  \<open>step_to B w S Q w'\<close>: the state \<open>w'\<close> stands for the state \<open>(S, Q)\<close> of the specification, and compared to \<open>w\<close> the
  pbufs \<open>B\<close> have found an owner; apart from that the strays are the same.
\<close>

definition step_to :: "addr set \<Rightarrow> 'h world \<Rightarrow> phases \<Rightarrow> addr set \<Rightarrow> 'h world \<Rightarrow> bool" where
  "step_to B w S Q w' \<longleftrightarrow> sys_rel S Q w' \<and> strays w' = strays w - Pbuf ` B"

lemma step_toD: "step_to B w S Q w' \<Longrightarrow> sys_rel S Q w'"
  by (simp add: step_to_def)

lemma step_to_same: "sys_rel S Q w \<Longrightarrow> step_to {} w S Q w"
  by (simp add: step_to_def)

lemma step_to_trans: "step_to B w S1 Q1 w1 \<Longrightarrow> step_to {} w1 S2 Q2 w2 \<Longrightarrow> step_to B w S2 Q2 w2"
  by (simp add: step_to_def)

lemma step_to_quiet: "step_to B w S Q w1 \<Longrightarrow> quiet_change w1 w2 \<Longrightarrow> step_to B w S Q w2"
  by (auto simp: step_to_def strays_quiet intro: sys_rel_quiet)

text \<open>Accessors, variables of calls in progress, shared settings and the log are nobody's connection.\<close>

lemma step_to_aside:
  assumes rel: "sys_rel S Q w" and same: "net w' = net w" "rx_bufs w' = rx_bufs w" "writers w' = writers w"
    "contexts w' = contexts w" "clients w' = clients w" and more: "fresh w \<le> fresh w'"
  shows "step_to {} w S Q w'"
proof -
  have rep: "rx_rep r ps bs w' = rx_rep r ps bs w" for r ps bs using same by (intro rx_rep_cong) simp_all
  have L: "linked cl F bs w' = linked cl F bs w" for cl F bs using same rep by (simp add: linked_def conn_def)
  have regs: "regs_at w' = regs_at w" using same by (auto simp: regs_at_def fun_eq_iff)
  have "client_at cl s w' = client_at cl s w" for cl s by (cases s) (simp_all add: L regs same pcb_attached_def)
  moreover have "bounded w'" using sys_relD(4) [OF rel] same more by (simp add: bounded_def)
  moreover have "args_owned S Q w'"
    using sys_relD(3) [OF rel] same more regs by (auto simp: args_owned_def intro: orphan_mono [of _ w])
  ultimately have "sys_rel S Q w'" using rel same by (simp add: sys_rel_def separated_def L)
  moreover have "live x w' = live x w" for x using same by (cases x) simp_all
  ultimately show ?thesis using strays_cong [OF L] by (simp add: step_to_def)
qed

section \<open>Addresses\<close>

lemma linked_bounded:
  assumes "bounded w" "linked cl F bs w"
  shows "cl < fresh w" "pc F < fresh w" "pr F < fresh w" "pt F < fresh w"
  using assms linkedD [OF assms(2)] by (auto simp: bounded_def not_le [symmetric])

lemma bounded_confined:
  assumes "bounded w" "confined cl F A w w'" "fresh w \<le> fresh w'"
    "cl < fresh w'" "pc F < fresh w'" "pr F < fresh w'" "pt F < fresh w'"
  shows "bounded w'"
  using assms unfolding bounded_def confined_def by (metis le_trans not_le)

text \<open>Parts at addresses that have not been handed out are nobody's, and they are not live.\<close>

definition fresh_parts :: "parts \<Rightarrow> 'h world \<Rightarrow> bool" where
  "fresh_parts F w \<longleftrightarrow> fresh w \<le> pc F \<and> fresh w \<le> pr F \<and> fresh w \<le> pt F \<and> pps F = []"

lemma own_fresh:
  assumes "bounded w" "fresh_parts F w"
  shows "own_parts cl F w"
  unfolding own_parts_def apart_def
  using assms(2) linked_bounded [OF assms(1)] by (metis empty_set fresh_parts_def inf_bot_left not_le)

lemma fresh_not_live:
  assumes "bounded w" "fresh_parts F w" "x \<in> objs F"
  shows "\<not> live x w"
  using assms by (cases x) (simp_all add: bounded_def fresh_parts_def)

lemma dead_contexts:
  assumes "confined cl F A w w'" "linked cl F bs w" "contexts w a = None"
  shows "contexts w' a = None"
  using assms linkedD(6) [OF assms(2)] by (cases "a = pc F") (auto simp: confined_def)

section \<open>Changes to a client's objects\<close>

lemma linked_before:
  assumes "linked cl F bs w"
  shows "owned_by cl w \<subseteq> objs F" "\<And>x. x \<in> objs F \<Longrightarrow> live x w \<Longrightarrow> x \<in> owned_by cl w"
  using linked_owned [OF assms] by simp_all

text \<open>A change to the objects of one client that keeps all registrations.\<close>

lemma own_step:
  assumes rel: "sys_rel S Q w" and s: "S cl = Some s" and L: "linked cl F bs w" and conf: "confined cl F {} w w'"
    and fresh: "fresh w' = fresh w" and phase: "case s' of None \<Rightarrow> clients w' cl = None | Some s2 \<Rightarrow> client_at cl s2 w'"
    and acc: "accounted cl F B w'"
    and taken: "\<And>cl' F' bs. cl' \<noteq> cl \<Longrightarrow> linked cl' F' bs w \<Longrightarrow> set (pps F') \<inter> B = {}"
    and held: "\<And>q dl n. s = Open q dl n \<Longrightarrow> q \<in> Q' \<or> (\<exists>dl' n'. s' = Some (Open q dl' n'))"
    and lost: "Q \<subseteq> Q'" "\<And>q. q \<in> Q' - Q \<Longrightarrow> orphan q w'"
  shows "step_to B w (S(cl := s')) Q' w'"
proof -
  note own = own_partsI [OF sys_relD(2) [OF rel] L]
  have "bounded w'"
    using bounded_confined [OF sys_relD(4) [OF rel] conf] linked_bounded [OF sys_relD(4) [OF rel] L] fresh by simp
  then have "sys_rel (S(cl := s')) Q' w'"
    by (intro sys_rel_confined [OF rel conf own _ _ phase accounted_parts [OF acc] taken])
      (use s held lost fresh dead_contexts [OF conf L] in auto)
  with strays_confined [OF rel conf own linked_before [OF L] acc] show ?thesis by (simp add: step_to_def)
qed

text \<open>A change that ends the PCB of an open connection.\<close>

lemma own_end:
  assumes rel: "sys_rel S Q w" and s: "S cl = Some (Open p dl n)" and L: "linked cl F bs w" and conf: "confined cl F {p} w w'"
    and gone: "pcbs (net w') p = None" and fresh: "fresh w' = fresh w" and phase: "client_at cl s' w'"
    and acc: "accounted cl F {} w'"
  shows "step_to {} w (S(cl \<mapsto> s')) Q w'"
proof -
  note own = own_partsI [OF sys_relD(2) [OF rel] L]
  have "sys_rel (S(cl \<mapsto> s')) Q w'"
  proof (rule sys_rel_confined [OF rel conf own _ _ _ accounted_parts [OF acc]])
    show "bounded w'"
      using bounded_confined [OF sys_relD(4) [OF rel] conf] linked_bounded [OF sys_relD(4) [OF rel] L] fresh by simp
    show "cl' \<noteq> cl \<Longrightarrow> S cl' \<noteq> Some (Open q dl' n')" if "q \<in> {p}" for q cl' dl' n'
      using sys_rel_Open_unique [OF rel s] that by blast
    show "{p} \<inter> Q = {}" using sys_rel_orphan [OF rel] orphan_not_open [OF sys_relD(1) [OF rel s]] by simp
  qed (use s gone phase fresh dead_contexts [OF conf L] in \<open>auto simp: regs_at_def\<close>)
  with strays_confined [OF rel conf own linked_before [OF L] acc] show ?thesis by (simp add: step_to_def)
qed

text \<open>A change to a client that has no context, before and after.\<close>

lemma bare_client_step:
  assumes rel: "sys_rel S Q w" and s: "S cl = None \<or> S cl = Some Idle"
    and same: "\<And>a. a \<noteq> cl \<Longrightarrow> clients w' a = clients w a" "contexts w' = contexts w" "rx_bufs w' = rx_bufs w"
      "writers w' = writers w" "net w' = net w"
    and fresh: "fresh w \<le> fresh w'" "clients w' cl \<noteq> None \<Longrightarrow> cl < fresh w'"
    and phase: "case s' of None \<Rightarrow> clients w' cl = None | Some s2 \<Rightarrow> s2 = Idle \<and> client_at cl Idle w'"
  shows "step_to {} w (S(cl := s')) Q w'"
proof -
  let ?F = "\<lparr>pk = undefined, pc = fresh w, px = undefined, pr = fresh w, py = undefined, pt = fresh w,
    pz = undefined, pps = []\<rparr>"
  have bw: "bounded w" by (rule sys_relD(4) [OF rel])
  have conf: "confined cl ?F {} w w'" using same by (simp add: confined_def regs_at_def)
  have new: "fresh_parts ?F w" by (simp add: fresh_parts_def)
  have b: "bounded w'" using bw same fresh unfolding bounded_def by (metis le_trans not_le)
  have none: "\<not> linked cl F' bs w'" for F' bs
    using phase by (cases s') (auto simp: linked_def conn_def)
  have own: "owned_by cl w = {}"
    using s sys_relD(1,5) [OF rel, of cl] no_client_owned [of w cl] client_idle_owned [of cl w] by auto
  have acc: "accounted cl ?F {} w'"
    using bw same by (intro accounted_released [OF none]) (simp_all add: bounded_def)
  have "sys_rel (S(cl := s')) Q w'"
    by (rule sys_rel_confined [OF rel conf own_fresh [OF bw new] _ _ _ accounted_parts [OF acc]])
      (use s phase b same fresh in \<open>auto split: option.splits\<close>)
  moreover have "strays w' = strays w - Pbuf ` {}"
    by (rule strays_confined [OF rel conf own_fresh [OF bw new] _ _ acc]) (use own fresh_not_live [OF bw new] in auto)
  ultimately show ?thesis by (simp add: step_to_def)
qed

end
