(* ===== verification/Simulation.thy ===== *)
theory Simulation
  imports Actions Ownership
begin

text \<open>
  Every action of the state machine of \<open>Actions\<close> is a step of the automaton of \<open>Connection_Spec\<close>: one lemma
  for each operation and each event, and their composition to \<open>perform_refines\<close> and \<open>run_refines\<close>.
\<close>

section \<open>Refinement of a step\<close>

text \<open>
  \<open>refines S Q l m w\<close>: the program \<open>m\<close> returns from \<open>w\<close>, and this is the step \<open>l\<close> of the specification. It is
  \<open>tidy\<close> if moreover every object it creates has an owner, every object that loses its owner is gone, and the pbufs \<open>B\<close> are
  the only ones that find an owner.
\<close>

definition refines :: "phases \<Rightarrow> addr set \<Rightarrow> label \<Rightarrow> ('h, unit) cprog \<Rightarrow> 'h world \<Rightarrow> bool" where
  "refines S Q l m w \<longleftrightarrow> (\<exists>w' S' Q'. m w = Inr ((), w') \<and> sys_rel S' Q' w' \<and> spec_step l (S, Q) (S', Q'))"

definition tidy :: "addr set \<Rightarrow> phases \<Rightarrow> addr set \<Rightarrow> label \<Rightarrow> ('h, unit) cprog \<Rightarrow> 'h world \<Rightarrow> bool" where
  "tidy B S Q l m w \<longleftrightarrow> (\<exists>w' S' Q'. m w = Inr ((), w') \<and> step_to B w S' Q' w' \<and> spec_step l (S, Q) (S', Q'))"

lemma tidy_refines: "tidy B S Q l m w \<Longrightarrow> refines S Q l m w"
  unfolding tidy_def refines_def using step_toD by blast

lemma tidy_strays: "tidy B S Q l m w \<Longrightarrow> m w = Inr ((), w') \<Longrightarrow> strays w' = strays w - Pbuf ` B"
  by (auto simp: tidy_def step_to_def)

lemma tidyI: "m w = Inr ((), w') \<Longrightarrow> step_to B w S' Q' w' \<Longrightarrow> spec_step l (S, Q) (S', Q') \<Longrightarrow> tidy B S Q l m w"
  unfolding tidy_def by blast

lemma tidy_same: "sys_rel S Q w \<Longrightarrow> m w = Inr ((), w) \<Longrightarrow> spec_step l (S, Q) (S, Q) \<Longrightarrow> tidy {} S Q l m w"
  by (blast intro: tidyI step_to_same)

lemma tidy_quiet: "sys_rel S Q w \<Longrightarrow> m w = Inr ((), w') \<Longrightarrow> quiet_change w w' \<Longrightarrow> tidy {} S Q L_quiet m w"
  by (blast intro: tidyI step_to_quiet step_to_same spec_step.quiet)

section \<open>Phases and objects\<close>

lemma ctx_of_linked: "linked cl F bs w \<Longrightarrow> ctx_of cl w = Some (pc F, px F)"
  by (simp add: ctx_of_def linkedD)

lemma phase_tests:
  assumes "client_at cl s w"
  shows "has_open cl w \<longleftrightarrow> (\<exists>p dl n. s = Open p dl n)" "has_failed cl w \<longleftrightarrow> (\<exists>p dl n. s = Failed p dl n)"
    "ctx_of cl w = None \<longleftrightarrow> s = Idle"
  using assms
  by (cases s; auto simp: has_open_def has_failed_def ctx_of_linked pcb_attached_def; simp add: ctx_of_def)+

lemma askable_phase:
  assumes "client_at cl s w"
  shows "askable q cl w \<longleftrightarrow> may_ask q s"
  using phase_tests [OF assms] by (cases q; cases s) auto

text \<open>The client of a PCB for which lwIP reports an event.\<close>

lemma registeredE:
  assumes "sys_rel S Q w" "registered p w"
  obtains cl dl n F b where "S cl = Some (Open p dl n)" "n \<le> length dl" "linked cl F (drop n dl) w" "pcb_attached F p w"
    "pcbs (net w) p = Some b" "pcb_regs b = ctx_regs (pc F)"
proof -
  from assms(2) obtain b a where b: "pcbs (net w) p = Some b" "callback_arg b = Some a" "contexts w a \<noteq> None"
    by (auto simp: registered_def split: option.splits)
  then have "\<not> orphan p w" by (auto simp: orphan_def regs_at_def pcb_regs_def ctx_regs_def)
  moreover have "regs_at w p = Some (pcb_regs b)" "fst (pcb_regs b) \<noteq> None" using b by (simp_all add: regs_at_def pcb_regs_def)
  then have "p \<in> Q \<or> (\<exists>cl dl n. S cl = Some (Open p dl n))" using sys_relD(3) [OF assms(1)] unfolding args_owned_def by blast
  ultimately obtain cl dl n where S: "S cl = Some (Open p dl n)" using sys_rel_orphan [OF assms(1)] by blast
  from sys_relD(1) [OF assms(1) S] obtain F where "n \<le> length dl" "linked cl F (drop n dl) w" "pcb_attached F p w" by auto
  moreover from this b(1) have "pcb_regs b = ctx_regs (pc F)" by (simp add: pcb_attached_def regs_at_def)
  ultimately show ?thesis using that S b(1) by blast
qed

lemma open_registered:
  assumes "client_at cl (Open p dl n) w"
  shows "registered p w"
proof -
  from assms obtain F where "linked cl F (drop n dl) w" "pcb_attached F p w" by auto
  then show ?thesis
    using linkedD(6) [of cl F "drop n dl" w] by (auto simp: registered_def pcb_attached_def regs_at_Some pcb_regs_def ctx_regs_def)
qed

lemma quiet_notified: "bridge_contract P \<Longrightarrow> quiet_change w (notified P b l w)"
  by (simp add: quiet_change_def notify_frame)

lemma tidy_notified:
  assumes "m w = Inr ((), notified P b x w1)" "bridge_contract P" "step_to B w S' Q' w1" "spec_step l (S, Q) (S', Q')"
  shows "tidy B S Q l m w"
  using assms(1) step_to_quiet [OF assms(3) quiet_notified [OF assms(2)]] assms(4) by (rule tidyI)

lemma quiet_trans: "quiet_change w1 w2 \<Longrightarrow> quiet_change w2 w3 \<Longrightarrow> quiet_change w1 w3"
  unfolding quiet_change_def using net_frame_trans by metis

lemma quiet_net: "net_frame (net w) N \<Longrightarrow> quiet_change w (w\<lparr>net := N, calls := cs\<rparr>)"
  by (simp add: quiet_change_def)

lemma quiet_refl [simp]: "quiet_change w w"
  by (simp add: quiet_change_def)

section \<open>Events\<close>

lemma tidy_sent:
  assumes "sys_rel S Q w" "registered p w"
  shows "tidy {} S Q L_quiet (report P p (Sent len)) w"
  using assms
proof (rule registeredE)
  fix cl dl n F b
  assume "linked cl F (drop n dl) w" "pcbs (net w) p = Some b" "pcb_regs b = ctx_regs (pc F)"
  then have "lwip_sent_event P p len w = Inr ((), w)"
    by (simp add: lwip_sent_event_def prog_simps sent_run [OF linkedD(1)] pcb_regs_def ctx_regs_def)
  with assms(1) show ?thesis by (simp add: tidy_same)
qed

lemma tidy_poll:
  assumes "bridge_contract P" "sys_rel S Q w" "registered p w"
  shows "tidy {} S Q L_quiet (report P p Poll) w"
  using assms(2,3)
proof (rule registeredE)
  fix cl dl n F b
  assume "linked cl F (drop n dl) w" "pcbs (net w) p = Some b" "pcb_regs b = ctx_regs (pc F)"
  then have "lwip_poll_event P p w = Inr ((), notified P (cl_poll_bridge (pk F)) None w)"
    by (simp add: lwip_poll_event_def prog_simps poll_run [OF linkedD(1)] pcb_regs_def ctx_regs_def)
  with tidy_quiet [OF assms(2)] quiet_notified [OF assms(1)] show ?thesis by (simp add: tidy_quiet)
qed

lemma tidy_connected:
  assumes "bridge_contract P" "sys_rel S Q w" "registered p w"
  shows "tidy {} S Q L_quiet (report P p Connected) w"
  using assms(2,3)
proof (rule registeredE)
  fix cl dl n F b
  assume L: "linked cl F (drop n dl) w" and b: "pcbs (net w) p = Some b" "pcb_regs b = ctx_regs (pc F)"
    and A: "pcb_attached F p w"
  from connected_run [OF linkedD(1) [OF L] pcb_attachedD(1,2) [OF A]] b
  have "lwip_connected_event P p w = Inr ((), notified P (cl_connected_bridge (pk F)) None w)"
    by (simp add: lwip_connected_event_def prog_simps pcb_regs_def ctx_regs_def)
  with tidy_quiet [OF assms(2)] quiet_notified [OF assms(1)] show ?thesis by (simp add: tidy_quiet)
qed

text \<open>The receive buffer after it has noted its PCB.\<close>

lemma linked_with_pcb:
  assumes "linked cl F bs w"
  shows "linked cl (F\<lparr>py := (py F)\<lparr>rx_pcb := Some p\<rparr>\<rparr>) bs (with_pcb (pr F) (py F) p w)"
  using assms with_pcb_rep [OF linkedD(10) [OF assms]] by (simp add: linked_def conn_def)

lemma tidy_fin:
  assumes B: "bridge_contract P" and rel: "sys_rel S Q w" and "registered p w"
  shows "tidy {} S Q L_quiet (report P p Fin) w"
  using assms(2,3)
proof (rule registeredE)
  fix cl dl n F b
  assume S: "S cl = Some (Open p dl n)" "n \<le> length dl" and L: "linked cl F (drop n dl) w" and A: "pcb_attached F p w"
    and b: "pcbs (net w) p = Some b" "pcb_regs b = ctx_regs (pc F)"
  let ?w1 = "with_pcb (pr F) (py F) p w" and ?F = "F\<lparr>py := (py F)\<lparr>rx_pcb := Some p\<rparr>\<rparr>"
  have "lwip_recv_event P p None w = Inr ((), notified P (cl_fin_bridge (pk F)) (Some (Work_rx (Some (pr F)))) ?w1)"
    using b receive_fin_run [OF linkedD(1) [OF L], of P p] by (simp add: lwip_recv_event_def prog_simps pcb_regs_def ctx_regs_def)
  moreover have "pcb_attached ?F p ?w1" using A by (simp add: pcb_attached_def regs_at_def)
  then have "client_at cl (Open p dl n) ?w1" using S(2) linked_with_pcb [OF L, of p] by auto
  then have "step_to {} w (S(cl \<mapsto> Open p dl n)) Q ?w1"
    using accounted_linked [OF linked_with_pcb [OF L, of p], of F "{}"]
    by (intro own_step [OF rel S(1) L]) (simp_all add: confined_def regs_at_def)
  with S(1) have "step_to {} w S Q ?w1" by (simp add: fun_upd_idem)
  ultimately show ?thesis using B by (simp add: tidy_notified)
qed

lemma tidy_error:
  assumes B: "bridge_contract P" and rel: "sys_rel S Q w" and "registered p w"
  shows "tidy {} S Q (L_error p) (report P p (Error e)) w"
  using assms(2,3)
proof (rule registeredE)
  fix cl dl n F b
  assume S: "S cl = Some (Open p dl n)" "n \<le> length dl" and L: "linked cl F (drop n dl) w" and A: "pcb_attached F p w"
    and b: "pcbs (net w) p = Some b" "pcb_regs b = ctx_regs (pc F)"
  let ?w1 = "w\<lparr>net := (net w)\<lparr>pcbs := (pcbs (net w))(p := None)\<rparr>\<rparr>"
  have "rx_rep (pr F) (pps F) (drop n dl) ?w1"
    using linkedD(3) [OF L] by (subst rx_rep_cong [where w = w]) simp_all
  then have L1: "linked cl F (drop n dl) ?w1" using L by (simp add: linked_def conn_def)
  have "lwip_error_event P p e w = Inr ((), notified P (cl_error_bridge (pk F)) (Some (Work_err e)) ?w1)"
    using b error_run [OF linkedD(1) [OF L1], of P e]
    by (simp add: lwip_error_event_def prog_simps pcb_regs_def ctx_regs_def)
  moreover have "client_at cl (Failed p dl n) ?w1"
    using S(2) L1 pcb_attachedD(1) [OF A] by (auto simp: regs_at_def)
  then have "step_to {} w (S(cl \<mapsto> Failed p dl n)) Q ?w1"
    using accounted_linked [OF L1, of F "{}"]
    by (intro own_end [OF rel S(1) L]) (simp_all add: confined_def regs_at_def)
  ultimately show ?thesis
    using B spec_step.error [of S, OF S(1)] by (simp add: tidy_notified)
qed

lemma tidy_data:
  fixes P :: "'h platform"
  assumes P: "pbuf_contract P" and B: "bridge_contract P" and rel: "sys_rel S Q w" and reg: "registered p w"
    and arr: "\<And>r ps bs. rx_rep r ps bs w \<Longrightarrow> arrived (pbufs (net w)) ps (hd qs) qs"
  shows "tidy (set qs) S Q (L_receive p (bytes_of (pbufs (net w)) qs)) (report P p (Data qs)) w"
  using rel reg
proof (rule registeredE)
  fix cl dl n F b
  assume S: "S cl = Some (Open p dl n)" "n \<le> length dl" and L: "linked cl F (drop n dl) w" and A: "pcb_attached F p w"
    and b: "pcbs (net w) p = Some b" "pcb_regs b = ctx_regs (pc F)"
  let ?d = "bytes_of (pbufs (net w)) qs"
  from receive_data_run [OF P linkedD(1,3) [OF L] arr [OF linkedD(3) [OF L]], of p] obtain w1 where
    run: "lwip_receive_callback P (Some (pc F)) p (Some (hd qs)) (ERR_OK P) w =
      Inr (ERR_OK P, notified P (cl_received_bridge (pk F)) (Some (Work_rx (Some (pr F)))) w1)"
    and fr: "rx_frame (pr F) (with_pcb (pr F) (py F) p w) w1"
    and rep1: "rx_rep (pr F) (pps F @ qs) (drop n dl @ ?d) w1"
    and pb: "\<forall>a. a \<notin> set (pps F) \<longrightarrow> pbufs (net w1) a = pbufs (net w) a" by blast
  from fr obtain h off N cs where w1: "w1 = with_pcb (pr F) (py F) p w\<lparr>net := N,
      rx_bufs := (rx_bufs w)(pr F \<mapsto> (py F)\<lparr>rx_pcb := Some p, rx_head := h, rx_offset := off\<rparr>), calls := cs\<rparr>"
    "pcbs N = pcbs (net w)"
    by (auto simp: rx_frame_def)
  let ?F = "F\<lparr>py := (py F)\<lparr>rx_pcb := Some p, rx_head := h, rx_offset := off\<rparr>, pps := pps F @ qs\<rparr>"
  have L1: "linked cl ?F (drop n (dl @ ?d)) w1" using L rep1 S(2) w1 by (simp add: linked_def conn_def)
  moreover have "pcb_attached ?F p w1" using A w1 by (simp add: pcb_attached_def regs_at_def)
  ultimately have "client_at cl (Open p (dl @ ?d) n) w1" using S(2) by auto
  then have "step_to (set qs) w (S(cl \<mapsto> Open p (dl @ ?d) n)) Q w1"
    using accounted_linked [OF L1, of F "set qs"] pb w1
    by (intro own_step [OF rel S(1) L, where B = "set qs"])
      (auto simp: confined_def regs_at_def dest!: linkedD(3) arr simp: arrived_def)
  moreover have "lwip_recv_event P p (Some (hd qs)) w =
      Inr ((), notified P (cl_received_bridge (pk F)) (Some (Work_rx (Some (pr F)))) w1)"
    using b run by (simp add: lwip_recv_event_def prog_simps pcb_regs_def ctx_regs_def)
  ultimately show ?thesis using spec_step.receive [of S, OF S(1)] B by (simp add: tidy_notified)
qed

section \<open>Operations\<close>

text \<open>An existing client is in some phase.\<close>

lemma client_phase:
  assumes "sys_rel S Q w" "clients w cl \<noteq> None"
  obtains s where "S cl = Some s" "client_at cl s w"
  using sys_relD(1,5) [OF assms(1), of cl] assms(2) by (cases "S cl") auto

lemma client_idle: "client_at cl Idle w \<Longrightarrow> \<exists>k. clients w cl = Some k \<and> cl_ctx k = None"
  by simp

text \<open>Ending an open connection.\<close>

lemma conn_ended_linked:
  assumes L: "linked cl F bs w" and ended: "conn_ended (pc F) p (pr F) (pps F) w w'"
  shows "linked cl (F\<lparr>px := (px F)\<lparr>ctx_pcb := None\<rparr>, py := rx_reset_obj (py F), pps := []\<rparr>) [] w'"
    "confined cl F {p} w w'" "pcbs (net w') p = None" "fresh w' = fresh w"
proof -
  have "writers w' = writers w" using ended by (auto simp: conn_ended_def)
  then show "linked cl (F\<lparr>px := (px F)\<lparr>ctx_pcb := None\<rparr>, py := rx_reset_obj (py F), pps := []\<rparr>) [] w'"
    using conn_ended_conn [OF linkedD(1) [OF L] ended] conn_ended_rep [OF linkedD(3) [OF L] ended] linkedD(2) [OF L]
    by (simp add: linked_def)
qed (use ended in \<open>auto simp: confined_def conn_ended_def regs_at_def\<close>)

lemma open_is_conn_open:
  assumes "linked cl F bs w" "pcb_attached F p w"
  shows "conn_open (pc F) p (pr F) (pps F) w"
  using conn_is_open [OF linkedD(1) [OF assms(1)] pcb_attachedD(1,2) [OF assms(2)] linkedD(3) [OF assms(1)]] .

lemma tidy_stop:
  assumes E: "end_contracts P" and rel: "sys_rel S Q w" and cl: "clients w cl \<noteq> None" and ok: "\<not> has_failed cl w"
  shows "tidy {} S Q (L_stop cl) (call_op P cl Stop) w"
proof -
  from client_phase [OF rel cl] obtain s where s: "S cl = Some s" "client_at cl s w" .
  have idem: "tidy {} S Q (L_stop cl) (call_op P cl Stop) w" if "TcpClient_stop P cl w = Inr (v, w)" "stopped s = s" for v
    using that s(1) rel by (intro tidy_same) (auto simp: drop_val_Inr fun_upd_idem)
  show ?thesis
  proof (cases s)
    case Idle
    with s(2) idem show ?thesis by (auto simp: TcpClient_stop_def prog_simps)
  next
    case (Open p dl n)
    with s(2) obtain F where F: "linked cl F (drop n dl) w" "pcb_attached F p w" by auto
    from TcpClient_stop_run [OF E linkedD(1) [OF F(1)] open_is_conn_open [OF F]] obtain res w' where
      w': "TcpClient_stop P cl w = Inr (res, w')" "conn_ended (pc F) p (pr F) (pps F) w w'" by blast
    note L' = conn_ended_linked [OF F(1) w'(2)]
    have at: "client_at cl Closed w'" using L'(1) by fastforce
    have "pbufs (net w') = pbufs (net w) |` (- set (pps F))" using w'(2) by (auto simp: conn_ended_def)
    then have "step_to {} w (S(cl \<mapsto> Closed)) Q w'"
      using s(1) Open accounted_linked [OF L'(1), of F "{}"] by (intro own_end [OF rel _ F(1) L'(2-4) at]) simp_all
    then show ?thesis using w'(1) s(1) Open by (intro tidyI) (auto simp: drop_val_Inr)
  next
    case Closed
    with s(2) obtain F where "linked cl F [] w" "ctx_pcb (px F) = None" by auto
    then have "TcpClient_stop P cl w = Inr (True, w)"
      by (simp add: TcpClient_stop_def TcpClientContext_close_def prog_simps linkedD)
    with idem Closed show ?thesis by simp
  next
    case (Failed p dl n)
    with phase_tests(2) [OF s(2)] ok show ?thesis by simp
  qed
qed

text \<open>Deleting the context of a connection that has no PCB of its own any more.\<close>

lemma context_deleted:
  fixes P :: "'h platform"
  assumes P: "pbuf_contract P" and L: "linked cl F bs w"
  shows "\<exists>N. TcpClientContext_delete P (pc F) w = Inr ((), w\<lparr>net := N, contexts := (contexts w)(pc F := None),
      rx_bufs := (rx_bufs w)(pr F := None), writers := (writers w)(pt F := None),
      calls := calls w @ rx_reset_calls (py F)\<rparr>) \<and>
    pbufs N = pbufs (net w) |` (- set (pps F)) \<and> pcbs N = pcbs (net w)"
  using TcpClientContext_delete_run [OF P linkedD(6,8,9,3,10,2) [OF L]] .

lemma idle_not_linked: "clients w cl = Some k \<Longrightarrow> cl_ctx k = None \<Longrightarrow> \<not> linked cl F bs w"
  by (auto simp: linked_def conn_def)

lemma shutdown_closed:
  assumes P: "pbuf_contract P" and rel: "sys_rel S Q w" and s: "S cl = Some Closed"
  shows "\<exists>w'. TcpClient_shutdown P cl w = Inr (True, w') \<and> step_to {} w (S(cl \<mapsto> Idle)) Q w'"
proof -
  from sys_relD(1) [OF rel s] obtain F where F: "linked cl F [] w" "ctx_pcb (px F) = None" by auto
  from context_deleted [OF P F(1)] obtain N where
    del: "TcpClientContext_delete P (pc F) w = Inr ((), w\<lparr>net := N, contexts := (contexts w)(pc F := None),
      rx_bufs := (rx_bufs w)(pr F := None), writers := (writers w)(pt F := None),
      calls := calls w @ rx_reset_calls (py F)\<rparr>)" (is "_ = Inr ((), ?w1)")
    and N: "pbufs N = pbufs (net w) |` (- set (pps F))" "pcbs N = pcbs (net w)" by blast
  let ?w' = "?w1\<lparr>clients := (clients w)(cl \<mapsto> (pk F)\<lparr>cl_ctx := None\<rparr>)\<rparr>"
  have "TcpClient_stop P cl w = Inr (True, w)"
    using F by (simp add: TcpClient_stop_def TcpClientContext_close_def prog_simps linkedD)
  then have "TcpClient_shutdown P cl w = Inr (True, ?w')"
    using del linkedD(4,5) [OF F(1)] by (simp add: TcpClient_shutdown_def prog_simps)
  moreover have "accounted cl F {} ?w'" using N by (intro accounted_released idle_not_linked [where k = "(pk F)\<lparr>cl_ctx := None\<rparr>"]) simp_all
  then have "step_to {} w (S(cl \<mapsto> Idle)) Q ?w'"
    using N by (intro own_step [OF rel s F(1)]) (simp_all add: confined_def regs_at_def)
  ultimately show ?thesis by blast
qed

lemma tidy_shutdown:
  fixes P :: "'h platform"
  assumes E: "end_contracts P" and rel: "sys_rel S Q w" and cl: "clients w cl \<noteq> None" and ok: "\<not> has_failed cl w"
  shows "tidy {} S Q (L_shutdown cl) (call_op P cl Shutdown) w"
proof -
  from client_phase [OF rel cl] obtain s where s: "S cl = Some s" "client_at cl s w" .
  have idled: "tidy {} S Q (L_shutdown cl) (call_op P cl Shutdown) w"
    if "TcpClient_shutdown P cl w = Inr (v, w')" "step_to {} w (S(cl \<mapsto> Idle)) Q w'" for v w'
    using that s(1) by (intro tidyI [where w' = w' and S' = "S(cl \<mapsto> Idle)" and Q' = Q]) (auto simp: drop_val_Inr)
  show ?thesis
  proof (cases s)
    case Idle
    with s(2) have "TcpClient_shutdown P cl w = Inr (True, w)"
      by (auto simp: TcpClient_shutdown_def TcpClient_stop_def prog_simps)
    with idled step_to_same [OF rel] s(1) Idle show ?thesis by (simp add: fun_upd_idem)
  next
    case (Open p dl n)
    with s(2) obtain F where F: "linked cl F (drop n dl) w" "pcb_attached F p w" by auto
    from TcpClient_shutdown_run [OF E linkedD(1) [OF F(1)] pcb_attachedD(1,2) [OF F(2)] linkedD(3,2) [OF F(1)]] obtain res w' where
      w': "TcpClient_shutdown P cl w = Inr (res, w')" "conn_released cl (pk F) (pc F) p (pr F) (pt F) (pps F) w w'" by blast
    have "confined cl F {p} w w'" "pcbs (net w') p = None" "fresh w' = fresh w" "client_at cl Idle w'"
      using w'(2) by (simp_all add: confined_def conn_released_def regs_at_def)
    moreover have "accounted cl F {} w'"
      using w'(2) calculation(4) by (intro accounted_released client_at_idle) (simp_all add: conn_released_def)
    ultimately have "step_to {} w (S(cl \<mapsto> Idle)) Q w'" using s(1) Open by (intro own_end [OF rel _ F(1)]) blast+
    with idled w'(1) show ?thesis by blast
  next
    case Closed
    moreover have "pbuf_contract P" using E by (simp add: end_contracts_def)
    ultimately show ?thesis using idled shutdown_closed [OF _ rel, of P cl] s(1) by blast
  next
    case (Failed p dl n)
    with phase_tests(2) [OF s(2)] ok show ?thesis by simp
  qed
qed

text \<open>
  The destructor of a client does not touch the PCB: that of an open connection is an orphan from then on.
\<close>

lemma orphaned:
  assumes "bounded w" "linked cl F bs w" "pcb_attached F p w" "regs_at w' p = regs_at w p" "contexts w' (pc F) = None"
    "fresh w' = fresh w"
  shows "orphan p w'"
  unfolding orphan_def using assms(3-6) linked_bounded(2) [OF assms(1,2)] by (intro exI [of _ "pc F"]) (simp add: pcb_attachedD)

lemma tidy_destroy:
  fixes P :: "'h platform"
  assumes P: "pbuf_contract P" and rel: "sys_rel S Q w" and cl: "clients w cl \<noteq> None"
  shows "tidy {} S Q (L_delete cl) (call_op P cl Destroy) w"
proof -
  from client_phase [OF rel cl] obtain s where s: "S cl = Some s" "client_at cl s w" .
  have gone: "tidy {} S Q (L_delete cl) (call_op P cl Destroy) w"
    if "TcpClient_delete P cl w = Inr ((), w')" "step_to {} w (S(cl := None)) (Q \<union> held_pcb s) w'" for w'
    using that s(1) by (intro tidyI [where w' = w' and S' = "S(cl := None)" and Q' = "Q \<union> held_pcb s"]) auto
  show ?thesis
  proof (cases "s = Idle")
    case True
    with s(2) obtain k where k: "clients w cl = Some k" "cl_ctx k = None" by auto
    define A where "A = (case cl_sync_accessor k of None \<Rightarrow> accessors w | Some a \<Rightarrow> (accessors w)(a := None))"
    let ?w' = "w\<lparr>accessors := A, clients := (clients w)(cl := None)\<rparr>"
    have run: "TcpClient_delete P cl w = Inr ((), ?w')"
      using k by (cases "cl_sync_accessor k") (simp_all add: TcpClient_delete_def prog_simps A_def)
    have "step_to {} w (S(cl := None)) Q ?w'" using s(1) True by (intro bare_client_step [OF rel]) simp_all
    with gone [OF run] True show ?thesis by simp
  next
    case False
    from client_at_linked [OF s(2) False] obtain F where L: "linked cl F (unread_of s) w" .
    from context_deleted [OF P L] obtain N where
      del: "TcpClientContext_delete P (pc F) w = Inr ((), w\<lparr>net := N, contexts := (contexts w)(pc F := None),
        rx_bufs := (rx_bufs w)(pr F := None), writers := (writers w)(pt F := None),
        calls := calls w @ rx_reset_calls (py F)\<rparr>)" (is "_ = Inr ((), ?w1)")
      and N: "pbufs N = pbufs (net w) |` (- set (pps F))" "pcbs N = pcbs (net w)" by blast
    define A where "A = (case cl_sync_accessor (pk F) of None \<Rightarrow> accessors w | Some a \<Rightarrow> (accessors w)(a := None))"
    let ?w' = "?w1\<lparr>accessors := A, clients := (clients w)(cl := None)\<rparr>"
    have run: "TcpClient_delete P cl w = Inr ((), ?w')"
      using del linkedD(4,5) [OF L] by (cases "cl_sync_accessor (pk F)") (simp_all add: TcpClient_delete_def prog_simps A_def)
    have orph: "orphan q ?w'" if "s = Open q dl n" for q dl n
      using s(2) that N(2) client_at_Open_unique(2) [OF _ L, of q dl n]
      by (intro orphaned [OF sys_relD(4) [OF rel] L]) (auto simp: regs_at_def)
    have acc: "accounted cl F {} ?w'" using N by (intro accounted_released) (auto dest: linkedD(4))
    have "step_to {} w (S(cl := None)) (Q \<union> held_pcb s) ?w'"
    proof (rule own_step [OF rel s(1) L _ _ _ acc])
      show "\<And>q. q \<in> Q \<union> held_pcb s - Q \<Longrightarrow> orphan q ?w'" using orph by auto
    qed (use N in \<open>auto simp: confined_def regs_at_def linked_def conn_def\<close>)
    with gone run show ?thesis by blast
  qed
qed

lemma tidy_new:
  assumes rel: "sys_rel S Q w"
  shows "tidy {} S Q (L_new (fresh w)) (perform P New) w"
proof -
  let ?k = "\<lparr>cl_received_bridge = None, cl_connected_bridge = None, cl_fin_bridge = None,
       cl_error_bridge = None, cl_poll_bridge = None, cl_ack_bridge = None, cl_ctx = None,
       cl_sync_accessor = None, cl_client_id = 0, cl_timeout = 5000, cl_write_callback = None\<rparr>"
  let ?w' = "w\<lparr>clients := (clients w)(fresh w \<mapsto> ?k), fresh := Suc (fresh w)\<rparr>"
  have free: "S (fresh w) = None"
    using sys_relD(4) [OF rel] sys_relD(5) [OF rel, of "fresh w"] by (simp add: bounded_def)
  have "step_to {} w (S(fresh w \<mapsto> Idle)) Q ?w'" using free by (intro bare_client_step [OF rel]) simp_all
  moreover have "perform P New w = Inr ((), ?w')" by (simp add: TcpClient_new_def new_defs drop_val_def prog_simps)
  ultimately show ?thesis using spec_step.new [of S, OF free] by (intro tidyI)
qed

text \<open>The parts of the connection it makes.\<close>

definition new_parts :: "addr \<Rightarrow> TcpClient \<Rightarrow> addr \<Rightarrow> addr \<Rightarrow> parts" where
  "new_parts cl k p c = \<lparr>pk = k\<lparr>cl_ctx := Some c\<rparr>, pc = c, px = attached cl k (fresh_ctx p c), pr = Suc c,
     py = fresh_rx c, pt = Suc (Suc c), pz = fresh_tx p, pps = []\<rparr>"

lemma new_parts_linked:
  assumes w': "w' = (opened P cl k p N w)\<lparr>net := M, calls := cs\<rparr>" and on: "opened_net (fresh w) p (net w) M"
  shows "linked cl (new_parts cl k p (fresh w)) [] w'" "pcb_attached (new_parts cl k p (fresh w)) p w'"
    "confined cl (new_parts cl k p (fresh w)) {p} w w'" "fresh w' = Suc (Suc (Suc (fresh w)))"
proof -
  have "rx_rep (Suc (fresh w)) [] [] w'"
    using w' opened_rep [of w P cl k p N] by (subst rx_rep_cong [where w = "opened P cl k p N w"]) simp_all
  moreover have "conn cl (k\<lparr>cl_ctx := Some (fresh w)\<rparr>) (fresh w) (attached cl k (fresh_ctx p (fresh w))) (Suc (fresh w))
      (fresh_rx (fresh w)) (Suc (Suc (fresh w))) w'"
    using opened_conn [where cl = cl and k = k and w = w and p = p and P = P and N = N] w' by (simp add: conn_def)
  moreover have "writers w' (Suc (Suc (fresh w))) = Some (fresh_tx p)" using w' by (simp add: opened_simps)
  ultimately show "linked cl (new_parts cl k p (fresh w)) [] w'" by (simp add: linked_def new_parts_def)
  show "pcb_attached (new_parts cl k p (fresh w)) p w'"
    using on w' by (auto simp: pcb_attached_def new_parts_def opened_net_def regs_at_def fresh_ctx_def fresh_tx_def
        fresh_rx_def TcpClientContext_init_def)
  show "confined cl (new_parts cl k p (fresh w)) {p} w w'"
    using on w' by (simp add: confined_def new_parts_def opened_net_def regs_at_def opened_simps)
      (simp add: opened_def Let_def)
  show "fresh w' = Suc (Suc (Suc (fresh w)))" using w' by (simp add: opened_def Let_def)
qed

lemma no_pcb_not_open:
  assumes "sys_rel S Q w" "pcbs (net w) p = None"
  shows "S cl \<noteq> Some (Open p dl n)"
  using sys_relD(1) [OF assms(1), of cl "Open p dl n"] assms(2) by (auto dest: pcb_attachedD(2))

text \<open>A change from an idle client to objects that did not exist before, on the new PCB \<open>p\<close>.\<close>

lemma new_pcb_step:
  assumes rel: "sys_rel S Q w" and s: "S cl = Some Idle" and new: "pcbs (net w) p = None"
    and conf: "confined cl (new_parts cl k p (fresh w)) {p} w w'" and regs: "regs_at w' p = Some (ctx_regs (fresh w))"
    and fresh: "fresh w' = Suc (Suc (Suc (fresh w)))" and phase: "client_at cl s' w'"
    and acc: "accounted cl (new_parts cl k p (fresh w)) {} w'"
    and owner: "p \<in> Q' \<or> (\<exists>dl n. s' = Open p dl n)" and lost: "Q \<subseteq> Q'" "\<And>q. q \<in> Q' - Q \<Longrightarrow> orphan q w'"
  shows "step_to {} w (S(cl \<mapsto> s')) Q' w'"
proof -
  let ?F = "new_parts cl k p (fresh w)"
  have b: "bounded w" by (rule sys_relD(4) [OF rel])
  have fp: "fresh_parts ?F w" by (simp add: fresh_parts_def new_parts_def)
  have idle: "client_at cl Idle w" by (rule sys_relD(1) [OF rel s])
  then have "cl < fresh w" using b by (auto simp: bounded_def not_le [symmetric])
  then have b': "bounded w'" using fresh by (intro bounded_confined [OF b conf]) (simp_all add: new_parts_def)
  have "sys_rel (S(cl \<mapsto> s')) Q' w'"
  proof (rule sys_rel_confined [OF rel conf own_fresh [OF b fp] _ _ _ accounted_parts [OF acc]])
    show "S cl' \<noteq> Some (Open q dl n)" if "q \<in> {p}" for q cl' dl n
      using that new sys_relD(1) [OF rel, of cl' "Open q dl n"] by (auto dest: pcb_attachedD(2))
    show "{p} \<inter> Q = {}" using new orphan_live sys_rel_orphan [OF rel] by blast
    show "contexts w' a = None" if "a < fresh w" "contexts w a = None" for a
      using that conf by (simp add: confined_def new_parts_def)
  qed (use s regs fresh phase owner lost b' in \<open>auto simp: new_parts_def\<close>)
  moreover have "strays w' = strays w - Pbuf ` {}"
    using client_idle_owned [OF idle] fresh_not_live [OF b fp]
    by (intro strays_confined [OF rel conf own_fresh [OF b fp] _ _ acc]) auto
  ultimately show ?thesis by (simp add: step_to_def)
qed

lemma pcb_unused:
  assumes "sys_rel S Q w" "pcbs (net w) p = None"
  shows "unused p (S, Q)"
proof -
  have "\<not> orphan p w" using assms(2) orphan_live by blast
  with no_pcb_not_open [OF assms] sys_rel_orphan [OF assms(1)] show ?thesis by (simp add: unused_def)
qed

lemma rejected_confined:
  assumes rej: "rejected_world cl k w w'" and on: "opened_net (fresh w) p (net w) (net w')"
  shows "confined cl (new_parts cl k p (fresh w)) {p} w w'" "regs_at w' p = Some (ctx_regs (fresh w))"
    "fresh w' = Suc (Suc (Suc (fresh w)))" "client_at cl Idle w'" "orphan p w'"
  using assms by (auto simp: confined_def new_parts_def rejected_world_def opened_net_def regs_at_def orphan_def
      intro: exI [of _ "fresh w"])

text \<open>The three ways out of \<open>ts_connect\<close> for a client without a context: no PCB, an open connection, a rejected one.\<close>

lemma tidy_connect_no_pcb:
  assumes O: "open_contract P" and rel: "sys_rel S Q w" and idle: "S cl = Some Idle"
    and k: "clients w cl = Some k" "cl_ctx k = None" and none: "fst (tcp_new P (net w)) = None"
  shows "tidy {} S Q (L_connect cl) (call_op P cl (Connect ip port)) w"
proof -
  let ?w' = "w\<lparr>net := snd (tcp_new P (net w)), calls := calls w @ [Tcp_new]\<rparr>"
  have "step_to {} w S Q ?w'"
    using tcp_new_result(1) [OF O none] by (intro step_to_quiet [OF step_to_same [OF rel]] quiet_net)
  moreover have "TcpClient_ts_connect P cl ip port w = Inr (PICO_ERROR_IO P, ?w')"
    using k none by (simp add: TcpClient_ts_connect_def prog_simps)
  ultimately show ?thesis
    using spec_step.no_pcb [of S, OF idle] by (intro tidyI [where w' = ?w']) (simp_all add: drop_val_Inr)
qed

lemma connect_opened_step:
  assumes rel: "sys_rel S Q w" and idle: "S cl = Some Idle" and p: "pcbs (net w) p = None"
    and w': "w' = (opened P cl k p N w)\<lparr>net := M, calls := cs\<rparr>" "opened_net (fresh w) p (net w) M"
  shows "step_to {} w (S(cl \<mapsto> Open p [] 0)) Q w'"
proof -
  note F = new_parts_linked [OF w']
  have "accounted cl (new_parts cl k p (fresh w)) {} w'" by (rule accounted_linked [OF F(1)]) simp_all
  then show ?thesis
    using F pcb_attachedD(4) [OF F(2)] by (intro new_pcb_step [OF rel idle p F(3)]) (auto simp: new_parts_def)
qed

lemma connect_rejected_step:
  assumes rel: "sys_rel S Q w" and idle: "S cl = Some Idle" and p: "pcbs (net w) p = None"
    and rej: "rejected_world cl k w w'" "opened_net (fresh w) p (net w) (net w')"
  shows "step_to {} w S (insert p Q) w'"
proof -
  note c = rejected_confined [OF rej]
  have "accounted cl (new_parts cl k p (fresh w)) {} w'"
    using rej(1) by (intro accounted_released client_at_idle [OF c(4)]) (simp_all add: rejected_world_def new_parts_def)
  then have "step_to {} w (S(cl \<mapsto> Idle)) (insert p Q) w'"
    using c(5) by (intro new_pcb_step [OF rel idle p c(1-4)]) auto
  with idle show ?thesis by (simp add: fun_upd_idem)
qed

lemma tidy_connect_pcb:
  assumes O: "open_contract P" and R: "reg_contract P" and B: "pbuf_contract P" and rel: "sys_rel S Q w"
    and idle: "S cl = Some Idle" and k: "clients w cl = Some k" "cl_ctx k = None" and new: "fst (tcp_new P (net w)) = Some p"
  shows "tidy {} S Q (L_connect cl) (call_op P cl (Connect ip port)) w"
proof -
  note p = tcp_new_result(2) [OF O new]
  show ?thesis
  proof (rule ts_connect_run [OF O R k new, of ip port])
    fix w' N M cs
    assume run: "TcpClient_ts_connect P cl ip port w = Inr (PICO_OK P, w')"
      and w': "w' = (opened P cl k p N w)\<lparr>net := M, calls := cs\<rparr>" "opened_net (fresh w) p (net w) M"
    from connect_opened_step [OF rel idle p w'] run spec_step.connect [of S, OF idle pcb_unused [OF rel p]]
    show ?thesis by (intro tidyI) (simp_all add: drop_val_Inr)
  next
    fix e assume "pbuf_contract P \<Longrightarrow> \<exists>w'. TcpClient_ts_connect P cl ip port w = Inr (scast e, w') \<and>
      rejected_world cl k w w' \<and> opened_net (fresh w) p (net w) (net w')"
    with B obtain w' where run: "TcpClient_ts_connect P cl ip port w = Inr (scast e, w')"
      and rej: "rejected_world cl k w w'" "opened_net (fresh w) p (net w) (net w')" by blast
    from connect_rejected_step [OF rel idle p rej] run spec_step.rejected [of S, OF idle pcb_unused [OF rel p]]
    show ?thesis by (intro tidyI) (simp_all add: drop_val_Inr)
  qed
qed

lemma tidy_connect:
  assumes O: "open_contract P" and R: "reg_contract P" and B: "pbuf_contract P" and rel: "sys_rel S Q w" and cl: "clients w cl \<noteq> None"
  shows "tidy {} S Q (L_connect cl) (call_op P cl (Connect ip port)) w"
proof -
  from client_phase [OF rel cl] obtain s where s: "S cl = Some s" "client_at cl s w" .
  show ?thesis
  proof (cases "s = Idle")
    case False
    from client_at_linked [OF s(2) False] obtain F where "linked cl F (unread_of s) w" .
    then have "TcpClient_ts_connect P cl ip port w = Inr (PICO_ERROR_RESOURCE_IN_USE P, w)"
      by (simp add: TcpClient_ts_connect_def prog_simps linkedD)
    with rel spec_step.busy [of S, OF s(1) False] show ?thesis by (intro tidy_same) (simp_all add: drop_val_Inr)
  next
    case True
    with s have idle: "S cl = Some Idle" by simp
    from True s(2) obtain k where k: "clients w cl = Some k" "cl_ctx k = None" by auto
    from tidy_connect_no_pcb [OF O rel idle k] tidy_connect_pcb [OF O R B rel idle k] show ?thesis
      by (cases "fst (tcp_new P (net w))") blast+
  qed
qed

text \<open>Reading.\<close>

lemma tidy_look:
  assumes rel: "sys_rel S Q w" and cl: "clients w cl \<noteq> None"
  shows "ctx_of cl w \<noteq> None \<Longrightarrow> tidy {} S Q L_quiet (call_op P cl Available) w"
    "ctx_of cl w \<noteq> None \<Longrightarrow> \<not> stalled cl w \<Longrightarrow> tidy {} S Q L_quiet (call_op P cl Peek) w"
    "\<not> has_failed cl w \<Longrightarrow> tidy {} S Q L_quiet (call_op P cl Status) w"
proof -
  from client_phase [OF rel cl] obtain s where s: "S cl = Some s" "client_at cl s w" .
  have available: "call_op P cl Available w = Inr ((), w)" if "linked cl F bs w" for F bs
    using IoRxBuffer_peekAvailable_run [OF linkedD(3) [OF that]] by (auto simp: pbind_apply client_part_run [OF that] drop_val_def)
  have peek: "call_op P cl Peek w = Inr ((), w)" if "linked cl F bs w" "\<not> stalled cl w" for F bs
    using IoRxBuffer_peek_run [OF linkedD(3) [OF that(1)]] that
    by (auto simp: pbind_apply client_part_run drop_val_def stalled_def ctx_of_linked linkedD)
  note here = client_at_linked [OF s(2)] phase_tests(3) [OF s(2)]
  show "tidy {} S Q L_quiet (call_op P cl Available) w" if "ctx_of cl w \<noteq> None"
    using here that available rel by (metis tidy_same spec_step.quiet)
  show "tidy {} S Q L_quiet (call_op P cl Peek) w" if "ctx_of cl w \<noteq> None" "\<not> stalled cl w"
    using here that peek rel by (metis tidy_same spec_step.quiet)
  assume ok: "\<not> has_failed cl w"
  have "\<exists>v. TcpClient_ts_status P cl w = Inr (v, w)"
  proof (cases s)
    case (Open p dl n)
    with s(2) obtain F where F: "linked cl F (drop n dl) w" "pcb_attached F p w" by auto
    from pcb_attachedD(2) [OF F(2)] obtain b where "pcbs (net w) p = Some b" by auto
    with F pcb_attachedD(1) [OF F(2)] show ?thesis
      by (simp add: TcpClient_ts_status_def TcpClientContext_state_def prog_simps linkedD)
  next
    case (Failed p dl n)
    with phase_tests(2) [OF s(2)] ok show ?thesis by simp
  qed (use s(2) in \<open>auto simp: TcpClient_ts_status_def TcpClientContext_state_def prog_simps linkedD\<close>)
  then show "tidy {} S Q L_quiet (call_op P cl Status) w" using rel by (auto simp: drop_val_Inr intro: tidy_same)
qed

lemma consume_nothing:
  assumes "linked cl F bs w" "pps F = []"
  shows "call_op P cl (Consume k) w = Inr ((), w)"
proof -
  have "IoRxBuffer_peekConsume P (pr F) k w = Inr ((), w)"
    using assms(2) linkedD(3,10) [OF assms(1)] by (auto simp: IoRxBuffer_peekConsume_def prog_simps rx_rep_def rx_owns_def)
  then show ?thesis by (simp add: pbind_apply client_part_run [OF assms(1)])
qed

lemma tidy_consume:
  fixes P :: "'h platform"
  assumes P: "pbuf_contract P" and R: "recved_contract P" and rel: "sys_rel S Q w" and cl: "clients w cl \<noteq> None"
    and ctx: "ctx_of cl w \<noteq> None" and ok: "\<not> has_failed cl w"
  shows "tidy {} S Q (L_consume cl (unat k)) (call_op P cl (Consume k)) w"
proof -
  from client_phase [OF rel cl] obtain s where s: "S cl = Some s" "client_at cl s w" .
  show ?thesis
  proof (cases s)
    case (Open p dl n)
    with s(2) obtain F where F: "linked cl F (drop n dl) w" "pcb_attached F p w" by auto
    from IoRxBuffer_peekConsume_run [OF P R linkedD(3) [OF F(1)] pcb_attached_rx [OF F], of k] obtain w' ps1 ps2 where
      run: "IoRxBuffer_peekConsume P (pr F) k w = Inr ((), w')" and ps: "pps F = ps1 @ ps2"
      and rep': "rx_rep (pr F) ps2 (drop (unat k) (drop n dl)) w'" and touched: "rx_touched (pr F) w w'"
      and pb: "pbufs (net w') = pbufs (net w) |` (- set ps1)" by blast
    from touched linkedD(10) [OF F(1)] obtain N h off cs where w': "w' = w\<lparr>net := N,
        rx_bufs := (rx_bufs w)(pr F \<mapsto> (py F)\<lparr>rx_head := h, rx_offset := off\<rparr>), calls := cs\<rparr>"
      "\<And>q. map_option pcb_regs (pcbs N q) = map_option pcb_regs (pcbs (net w) q)" by (auto simp: rx_touched_def)
    let ?F = "F\<lparr>py := (py F)\<lparr>rx_head := h, rx_offset := off\<rparr>, pps := ps2\<rparr>" and ?m = "min (n + unat k) (length dl)"
    have "drop (unat k) (drop n dl) = drop ?m dl" by (simp add: add.commute min_def)
    with rep' have L': "linked cl ?F (drop ?m dl) w'" using F(1) w' by (simp add: linked_def conn_def)
    moreover have "pcb_attached ?F p w'" using F(2) w' ps by (auto simp: pcb_attached_def regs_at_def)
    ultimately have at: "client_at cl (Open p dl ?m) w'" by auto
    have "accounted cl F {} w'" using pb ps by (intro accounted_linked [OF L']) auto
    then have "step_to {} w (S(cl \<mapsto> Open p dl ?m)) Q w'"
    proof (intro own_step [OF rel s(1) F(1)])
      show "confined cl F {} w w'" using w' pb ps by (auto simp: confined_def regs_at_def)
    qed (use w' at Open in simp_all)
    moreover have "call_op P cl (Consume k) w = Inr ((), w')"
      using run by (simp add: pbind_apply client_part_run [OF F(1)])
    ultimately show ?thesis using s(1) Open by (intro tidyI) auto
  next
    case Closed
    with s(2) obtain F where F: "linked cl F [] w" "pps F = []" by auto
    from consume_nothing [OF this] show ?thesis using s(1) Closed rel by (intro tidy_same) (auto simp: fun_upd_idem)
  qed (use phase_tests(2,3) [OF s(2)] ok ctx in simp_all)
qed

text \<open>Writing.\<close>

lemma tidy_write:
  fixes P :: "'h platform"
  assumes S: "send_contract P" and rel: "sys_rel S Q w" and cl: "clients w cl \<noteq> None"
    and sz: "unat n \<le> length d" and op: "has_open cl w"
  shows "tidy {} S Q L_quiet (call_op P cl (Write d n)) w"
proof -
  from client_phase [OF rel cl] phase_tests(1) op obtain p dl m where "client_at cl (Open p dl m) w" by metis
  then obtain F where F: "linked cl F (drop m dl) w" "pcb_attached F p w" by auto
  from writeData_frame [OF S linkedD(2) [OF F(1)] pcb_attachedD(3,2) [OF F(2)] sz] obtain r N cs where
    w': "TcpWriter_writeData P (pt F) (Some d) n w = Inr (r, w\<lparr>net := N, calls := cs\<rparr>)" "net_frame (net w) N" by blast
  then have "call_op P cl (Write d n) w = Inr ((), w\<lparr>net := N, calls := cs\<rparr>)"
    by (simp add: pbind_apply client_part_run [OF F(1)] drop_val_def)
  then show ?thesis by (rule tidy_quiet [OF rel _ quiet_net [OF w'(2)]])
qed

lemma writeChunk_quiet:
  fixes P :: "'h platform"
  assumes S: "send_contract P" and B: "bridge_contract P" and C: "conn cl k c x r y t w"
    and live: "\<And>p. ctx_pcb x = Some p \<Longrightarrow> pcbs (net w) p \<noteq> None" and sz: "unat n \<le> length d"
  shows "\<exists>w'. TcpClientContext_writeChunk P c (Some d) n w = Inr ((), w') \<and> quiet_change w w'"
proof (cases "\<exists>p. ctx_pcb x = Some p \<and> n \<noteq> 0 \<and> tcp_sndbuf P p (net w) \<noteq> 0")
  case True
  then obtain p where p: "ctx_pcb x = Some p" "n \<noteq> 0" "tcp_sndbuf P p (net w) \<noteq> 0" by blast
  define res where "res = tcp_write P p (take (unat (ucast (min (tcp_sndbuf P p (net w)) n) :: u16)) d) 0 (net w)"
  have fr: "net_frame (net w) (snd res)" using S live [OF p(1)] by (simp add: send_contract_def res_def)
  from live [OF p(1)] net_frame_live [OF fr, of p] have "pcbs (snd res) p \<noteq> None" by auto
  then have "net_frame (snd res) (tcp_output P p (snd res))" using S by (simp add: send_contract_def)
  with fr have out: "quiet_change w (w\<lparr>net := tcp_output P p (snd res), calls := cs\<rparr>)" for cs
    using net_frame_trans by (intro quiet_net) blast
  have err: "quiet_change w (notified P e v (w\<lparr>net := snd res, calls := cs\<rparr>))" for e v cs
    using quiet_trans [OF quiet_net [OF fr] quiet_notified [OF B]] .
  from writeChunk_run [OF S C p(1) live [OF p(1)] p(2,3) sz] out err show ?thesis
    by (auto simp: Let_def res_def [symmetric])
next
  case False
  have err: "call_err P (ctx_errorCb x) e w = Inr ((), notified P (cl_error_bridge k) (Some (Work_err e)) w)" for e
    using C by (simp add: conn_simps TcpClient_onErrorCallback_run)
  have "\<exists>e. TcpClientContext_writeChunk P c (Some d) n w = call_err P (ctx_errorCb x) e w"
  proof (cases "ctx_pcb x")
    case (Some p)
    with live False C show ?thesis
      by (cases "n = 0") (auto simp: TcpClientContext_writeChunk_def conn_def prog_simps Let_def split: option.splits)
  qed (use C in \<open>auto simp: TcpClientContext_writeChunk_def conn_def prog_simps\<close>)
  with err quiet_notified [OF B] show ?thesis by auto
qed

lemma tidy_write_chunk:
  fixes P :: "'h platform"
  assumes C: "send_contract P" "bridge_contract P" and rel: "sys_rel S Q w" and cl: "clients w cl \<noteq> None"
    and sz: "unat n \<le> length d" and ok: "\<not> has_failed cl w"
  shows "tidy {} S Q L_quiet (call_op P cl (Write_chunk d n)) w"
proof -
  from client_phase [OF rel cl] obtain s where s: "S cl = Some s" "client_at cl s w" .
  have "\<exists>w'. TcpClient_writeChunk P cl (Some d) n w = Inr ((), w') \<and> quiet_change w w'"
  proof (cases "s = Idle")
    case True
    with s(2) show ?thesis by (auto simp: TcpClient_writeChunk_def prog_simps)
  next
    case False
    from client_at_linked [OF s(2) False] obtain F where L: "linked cl F (unread_of s) w" .
    have "pcbs (net w) p \<noteq> None" if "ctx_pcb (px F) = Some p" for p
      using ok that by (auto simp: has_failed_def ctx_of_linked [OF L] regs_at_def)
    from writeChunk_quiet [OF C linkedD(1) [OF L] this sz] show ?thesis
      using linkedD(4,5) [OF L] by (cases "n = 0") (auto simp: TcpClient_writeChunk_def prog_simps)
  qed
  then show ?thesis using tidy_quiet [OF rel] by fastforce
qed

text \<open>Settings.\<close>

lemma tidy_set_no_delay:
  fixes P :: "'h platform"
  assumes O: "open_contract P" and rel: "sys_rel S Q w" and cl: "clients w cl \<noteq> None" and ok: "\<not> has_failed cl w"
  shows "tidy {} S Q L_quiet (call_op P cl (Set_no_delay b)) w"
proof -
  from client_phase [OF rel cl] obtain s where s: "S cl = Some s" "client_at cl s w" .
  have idem: ?thesis if "TcpClient_setNoDelay P cl b w = Inr ((), w)" using rel that by (simp add: tidy_same)
  show ?thesis
  proof (cases s)
    case (Open p dl n)
    with s(2) obtain F where F: "linked cl F (drop n dl) w" "pcb_attached F p w" by auto
    from TcpClient_setNoDelay_run [OF O linkedD(4-6) [OF F(1)] pcb_attachedD(1,2) [OF F(2)], of b] obtain N cs where
      "TcpClient_setNoDelay P cl b w = Inr ((), w\<lparr>net := N, calls := cs\<rparr>)" "net_frame (net w) N" by blast
    then show ?thesis using tidy_quiet [OF rel _ quiet_net] by simp
  next
    case (Failed p dl n)
    with phase_tests(2) [OF s(2)] ok show ?thesis by simp
  qed (use s(2) idem in \<open>auto simp: TcpClient_setNoDelay_def TcpClientContext_setNoDelay_def prog_simps linkedD\<close>)
qed

lemma tidy_keep_alive:
  fixes P :: "'h platform"
  assumes rel: "sys_rel S Q w" and cl: "clients w cl \<noteq> None" and op: "has_open cl w"
  shows "tidy {} S Q L_quiet (call_op P cl (Keep_alive i v k)) w"
proof -
  from client_phase [OF rel cl] phase_tests(1) op obtain p dl m where "client_at cl (Open p dl m) w" by metis
  then obtain F where F: "linked cl F (drop m dl) w" "pcb_attached F p w" by auto
  from pcb_attachedD(2) [OF F(2)] obtain b where b: "pcbs (net w) p = Some b" by auto
  obtain b' where "TcpClient_keepAlive P cl i v k w = Inr ((), w\<lparr>net := (net w)\<lparr>pcbs := (pcbs (net w))(p \<mapsto> b')\<rparr>\<rparr>)"
    "pcb_regs b' = pcb_regs b"
    using F b pcb_attachedD(1) [OF F(2)]
    by (cases "i \<noteq> 0 \<and> v \<noteq> 0 \<and> k \<noteq> 0")
      (auto simp: TcpClient_keepAlive_def the_ctx_def TcpClientContext_keepAlive_def prog_simps linkedD pcb_regs_def)
  then show ?thesis
    using b by (intro tidy_quiet [OF rel]) (auto simp: quiet_change_def net_frame_def)
qed

lemma set_bridge_run:
  assumes "clients w cl = Some k"
  shows "\<exists>k'. set_bridge slot cl b w = Inr ((), w\<lparr>clients := (clients w)(cl \<mapsto> k')\<rparr>) \<and> cl_ctx k' = cl_ctx k"
  using assms
  by (cases slot) (auto simp: TcpClient_setOnReceivedCallback_def TcpClient_setOnConnectedCallback_def
      TcpClient_setOnFinCallback_def TcpClient_setOnErrorCallback_def TcpClient_setOnPollCallback_def
      TcpClient_setOnAckCallback_def prog_simps)

text \<open>A client whose settings change keeps its connection.\<close>

lemma linked_set_client:
  assumes L: "linked cl F bs w" and k': "cl_ctx k' = cl_ctx (pk F)"
  shows "linked cl (F\<lparr>pk := k'\<rparr>) bs (w\<lparr>clients := (clients w)(cl \<mapsto> k')\<rparr>)"
proof -
  have "rx_rep r ps bs (w\<lparr>clients := (clients w)(cl \<mapsto> k')\<rparr>) = rx_rep r ps bs w" for r ps by (rule rx_rep_cong) simp_all
  with L k' show ?thesis by (simp add: linked_def conn_def)
qed

lemma client_at_set_client:
  assumes at: "client_at cl s w" and k: "clients w cl = Some k" "cl_ctx k' = cl_ctx k"
  shows "client_at cl s (w\<lparr>clients := (clients w)(cl \<mapsto> k')\<rparr>)" (is "client_at cl s ?w'")
proof (cases "s = Idle")
  case True
  with at k show ?thesis by auto
next
  case False
  from client_at_linked [OF at False] obtain F where L: "linked cl F (unread_of s) w" .
  then have L': "linked cl (F\<lparr>pk := k'\<rparr>) (unread_of s) ?w'" using k linkedD(4) [OF L] by (intro linked_set_client) auto
  have only: "F0 = F" if "linked cl F0 bs w" for F0 bs using linked_unique [OF L that] by simp
  have regs: "regs_at ?w' q = regs_at w q" for q by (simp add: regs_at_def)
  show ?thesis
  proof (cases s)
    case (Open p dl n)
    with at only have "pcb_attached F p w" "n \<le> length dl" by auto
    then have "pcb_attached (F\<lparr>pk := k'\<rparr>) p ?w'" using regs by (simp add: pcb_attached_def)
    with L' Open \<open>n \<le> length dl\<close> show ?thesis by auto
  next
    case Closed
    with at only have "pps F = []" "ctx_pcb (px F) = None" by auto
    with L' Closed show ?thesis by (auto intro!: exI [of _ "F\<lparr>pk := k'\<rparr>"])
  next
    case (Failed p dl n)
    with at only have "ctx_pcb (px F) = Some p" "regs_at w p \<noteq> Some (ctx_regs (pc F))" "n \<le> length dl" by auto
    with L' regs Failed show ?thesis by (auto intro!: exI [of _ "F\<lparr>pk := k'\<rparr>"])
  qed (use False in simp)
qed

text \<open>A change of a client's record that keeps the context.\<close>

lemma set_client_step:
  assumes rel: "sys_rel S Q w" and k: "clients w cl = Some k" and k': "cl_ctx k' = cl_ctx k"
  shows "step_to {} w S Q (w\<lparr>clients := (clients w)(cl \<mapsto> k')\<rparr>)" (is "step_to {} w S Q ?w'")
proof -
  from client_phase [OF rel] k obtain s where s: "S cl = Some s" "client_at cl s w" by blast
  have "step_to {} w (S(cl \<mapsto> s)) Q ?w'"
  proof (cases "s = Idle")
    case True
    moreover have "cl < fresh w" using sys_relD(4) [OF rel] k by (auto simp: bounded_def not_le [symmetric])
    ultimately show ?thesis using s k k' by (intro bare_client_step [OF rel]) simp_all
  next
    case False
    from client_at_linked [OF s(2) False] obtain F where L: "linked cl F (unread_of s) w" .
    have L': "linked cl (F\<lparr>pk := k'\<rparr>) (unread_of s) ?w'"
      using k k' linkedD(4) [OF L] by (intro linked_set_client [OF L]) simp
    show ?thesis
      using accounted_linked [OF L', of F "{}"] client_at_set_client [OF s(2) k k']
      by (intro own_step [OF rel s(1) L]) (simp_all add: confined_def regs_at_def)
  qed
  then show ?thesis using s(1) by (simp add: fun_upd_idem)
qed

lemma tidy_set_bridge:
  assumes rel: "sys_rel S Q w" and cl: "clients w cl \<noteq> None"
  shows "tidy {} S Q L_quiet (call_op P cl (Set_bridge slot b)) w"
proof -
  from cl obtain k where k: "clients w cl = Some k" by auto
  from set_bridge_run [OF k, of slot b] obtain k' where
    "set_bridge slot cl b w = Inr ((), w\<lparr>clients := (clients w)(cl \<mapsto> k')\<rparr>)" "cl_ctx k' = cl_ctx k" by blast
  with set_client_step [OF rel k] show ?thesis by (intro tidyI) simp_all
qed

lemma tidy_set_own:
  assumes rel: "sys_rel S Q w" and cl: "clients w cl \<noteq> None" and f: "\<And>k. cl_ctx (f k) = cl_ctx k"
    and m: "call_op P cl oper = upd_client cl f"
  shows "tidy {} S Q L_quiet (call_op P cl oper) w"
proof -
  from cl obtain k where k: "clients w cl = Some k" by auto
  with set_client_step [OF rel k, of "f k"] f m show ?thesis
    by (intro tidyI [where S' = S and Q' = Q]) (simp_all add: upd_client_apply)
qed

lemma tidy_ask:
  assumes rel: "sys_rel S Q w" and cl: "clients w cl \<noteq> None" and may: "askable q cl w"
  shows "tidy {} S Q L_quiet (call_op P cl (Ask q)) w"
proof -
  from client_phase [OF rel cl] obtain s where "S cl = Some s" and at: "client_at cl s w" .
  from ask_run [OF at] may askable_phase [OF at] have "ask P cl q w = Inr ((), w)" by simp
  with rel show ?thesis by (simp add: tidy_same)
qed

lemma tidy_set_accessor:
  assumes rel: "sys_rel S Q w" and cl: "clients w cl \<noteq> None" and may: "may_call P cl Set_accessor w"
  shows "tidy {} S Q L_quiet (call_op P cl Set_accessor) w"
proof -
  from cl may obtain k where k: "clients w cl = Some k" "cl_sync_accessor k = None" by auto
  let ?w1 = "w\<lparr>accessors := (accessors w)(fresh w \<mapsto> \<lparr>acc_io = cl\<rparr>), fresh := Suc (fresh w)\<rparr>"
  have "call_op P cl Set_accessor w = Inr ((), ?w1\<lparr>clients := (clients ?w1)(cl \<mapsto> k\<lparr>cl_sync_accessor := Some (fresh w)\<rparr>)\<rparr>)"
    using k by (simp add: install_accessor_apply)
  moreover have aside: "step_to {} w S Q ?w1" by (rule step_to_aside [OF rel]) simp_all
  then have "step_to {} ?w1 S Q (?w1\<lparr>clients := (clients ?w1)(cl \<mapsto> k\<lparr>cl_sync_accessor := Some (fresh w)\<rparr>)\<rparr>)"
    by (intro set_client_step [OF step_toD, of _ _ _ _ ?w1 cl k]) (use k in simp_all)
  note step_to_trans [OF aside this]
  ultimately show ?thesis by (rule tidyI) simp
qed

section \<open>Composition\<close>

lemma contractsD:
  assumes "contracts P"
  shows "pbuf_contract P" "recved_contract P" "send_contract P" "bridge_contract P" "reg_contract P" "open_contract P"
    "end_contracts P"
  using assms by (simp_all add: contracts_def end_contracts_def)

lemma call_tidy:
  assumes C: "contracts P" and rel: "sys_rel S Q w" and cl: "clients w cl \<noteq> None" and may: "may_call P cl oper w"
  shows "tidy {} S Q (op_label cl oper) (call_op P cl oper) w"
proof (cases oper)
  case (Connect ip port)
  with tidy_connect [OF contractsD(6,5,1) [OF C] rel cl, of ip port] show ?thesis by simp
next
  case Stop
  with tidy_stop [OF contractsD(7) [OF C] rel cl] may show ?thesis by simp
next
  case Shutdown
  with tidy_shutdown [OF contractsD(7) [OF C] rel cl] may show ?thesis by simp
next
  case Destroy
  with tidy_destroy [OF contractsD(1) [OF C] rel cl] show ?thesis by simp
next
  case (Consume n)
  with tidy_consume [OF contractsD(1,2) [OF C] rel cl, of n] may show ?thesis by simp
next
  case (Write d n)
  with tidy_write [OF contractsD(3) [OF C] rel cl, of n d] may show ?thesis by simp
next
  case (Write_chunk d n)
  with tidy_write_chunk [OF contractsD(3,4) [OF C] rel cl, of n d] may show ?thesis by simp
next
  case (Set_no_delay b)
  with tidy_set_no_delay [OF contractsD(6) [OF C] rel cl, of b] may show ?thesis by simp
next
  case (Keep_alive i v k)
  with tidy_keep_alive [OF rel cl, of P i v k] may show ?thesis by simp
next
  case (Set_bridge slot b)
  with tidy_set_bridge [OF rel cl, of P slot b] show ?thesis by simp
next
  case Set_accessor
  with tidy_set_accessor [OF rel cl, of P] may show ?thesis by simp
next
  case (Set_client_id i)
  with tidy_set_own [OF rel cl, of "cl_client_id_update (\<lambda>_. i)" P oper] show ?thesis by (simp add: TcpClient_setClientId_def)
next
  case (Set_write_callback f)
  with tidy_set_own [OF rel cl, of "cl_write_callback_update (\<lambda>_. f)" P oper] show ?thesis by (simp add: TcpClient_setWriteCallback_def)
next
  case (Ask q)
  with tidy_ask [OF rel cl, of q P] may show ?thesis by simp
qed (use tidy_look [OF rel cl] may in simp_all)

text \<open>The pbufs that an action hands to the library.\<close>

fun delivered :: "'h action \<Rightarrow> addr set" where
  "delivered (Event p (Data qs)) = set qs"
| "delivered _ = {}"

lemma report_tidy:
  assumes C: "contracts P" and rel: "sys_rel S Q w" and may: "may_report p ev w"
  shows "tidy (delivered (Event p ev)) S Q (label_of (Event p ev) w) (report P p ev) w"
proof (cases ev)
  case (Data qs)
  with may have "registered p w" "\<And>r ps bs. rx_rep r ps bs w \<Longrightarrow> arrived (pbufs (net w)) ps (hd qs) qs" by auto
  from tidy_data [OF contractsD(1,4) [OF C] rel this] Data show ?thesis by simp
next
  case (Error e)
  with tidy_error [OF contractsD(4) [OF C] rel, of p e] may show ?thesis by simp
qed (use may rel tidy_fin [OF contractsD(4) [OF C] rel, of p] tidy_poll [OF contractsD(4) [OF C] rel, of p]
    tidy_connected [OF contractsD(4) [OF C] rel, of p] tidy_sent [OF rel, of p] in simp_all)

lemma tidy_shared_setting:
  assumes "sys_rel S Q w"
  shows "tidy {} S Q L_quiet (perform P (Port_start port)) w" "tidy {} S Q L_quiet (perform P (Default_no_delay b)) w"
proof -
  have "step_to {} w S Q (w\<lparr>s_localPort := port\<rparr>)" "step_to {} w S Q (w\<lparr>s_defaultNoDelay := b\<rparr>)"
    by (rule step_to_aside [OF assms]; simp)+
  then show "tidy {} S Q L_quiet (perform P (Port_start port)) w" "tidy {} S Q L_quiet (perform P (Default_no_delay b)) w"
    by (auto intro: tidyI spec_step.quiet simp: TcpClient_setLocalPortStart_def TcpClient_setDefaultNoDelay_def prog_simps)
qed

lemma refines_network:
  assumes "sys_rel S Q w" "lwip_activity w N"
  shows "refines S Q L_quiet (perform P (Network N)) w"
  using sys_rel_activity [OF assms] unfolding refines_def by (intro exI [of _ "w\<lparr>net := N\<rparr>"] exI [of _ S] exI [of _ Q]) (simp add: prog_simps)

lemma perform_tidy:
  assumes "contracts P" "sys_rel S Q w" "admissible P act w" "\<nexists>N. act = Network N"
  shows "tidy (delivered act) S Q (label_of act w) (perform P act) w"
  using assms(3,4) call_tidy [OF assms(1,2)] report_tidy [OF assms(1,2)] tidy_new [OF assms(2)] tidy_shared_setting [OF assms(2)]
  by (cases act) simp_all

lemma perform_refines:
  assumes "contracts P" "sys_rel S Q w" "admissible P act w"
  shows "refines S Q (label_of act w) (perform P act) w"
proof (cases "\<exists>N. act = Network N")
  case True
  with refines_network [OF assms(2)] assms(3) show ?thesis by auto
next
  case False
  with perform_tidy [OF assms] show ?thesis by (blast intro: tidy_refines)
qed

lemma run_refines:
  assumes "contracts P" "sys_rel S Q w" "run P w ls w'"
  shows "\<exists>S' Q'. spec_run ls (S, Q) (S', Q') \<and> sys_rel S' Q' w'"
  using assms(3)
proof (induction rule: run.induct)
  case stay
  with assms(2) show ?case by (blast intro: spec_run.stay)
next
  case (step ls w1 act w2)
  then obtain S1 Q1 where S1: "spec_run ls (S, Q) (S1, Q1)" "sys_rel S1 Q1 w1" by blast
  from perform_refines [OF assms(1) S1(2) step.hyps(2)] step.hyps(3) obtain S2 Q2 where
    "spec_step (label_of act w1) (S1, Q1) (S2, Q2)" "sys_rel S2 Q2 w2" by (auto simp: refines_def)
  with S1(1) show ?case by (blast intro: spec_run.snoc)
qed

lemma initial_rel: "initial w \<Longrightarrow> sys_rel Map.empty {} w"
  by (auto simp: initial_def sys_rel_def separated_def args_owned_def bounded_def linked_def conn_def regs_at_def pcb_regs_def)

lemma reachable_rel:
  assumes "contracts P" "reachable P w"
  obtains S Q where "sys_rel S Q w"
  using assms run_refines [OF assms(1) initial_rel] unfolding reachable_def by blast

lemma reachable_step:
  "reachable P w \<Longrightarrow> admissible P act w \<Longrightarrow> perform P act w = Inr ((), w') \<Longrightarrow> reachable P w'"
  unfolding reachable_def using run.step by blast

text \<open>The history of a connection may be chosen: only its unread bytes are in the objects.\<close>

lemma sys_rel_choose:
  assumes rel: "sys_rel S Q w" and at: "client_at cl s w"
  shows "sys_rel (S(cl \<mapsto> s)) Q w"
proof -
  have same: "\<exists>dl' n'. s = Open q dl' n'" if "S cl = Some (Open q dl n)" for q dl n
  proof -
    from sys_relD(1) [OF rel that] have "client_at cl (Open q dl n) w" .
    moreover from this have "has_open cl w" using phase_tests(1) by blast
    ultimately show ?thesis
      using at phase_tests(1) [OF at] client_at_Open_unique(2) pcb_attachedD(1)
      by (metis client_at.simps(2) option.inject)
  qed
  have "q \<in> Q \<or> (\<exists>c dl n. (S(cl \<mapsto> s)) c = Some (Open q dl n))" if "q \<in> Q \<or> (\<exists>c dl n. S c = Some (Open q dl n))" for q
    using that same by (metis fun_upd_apply)
  then have "args_owned (S(cl \<mapsto> s)) Q w" using sys_relD(3) [OF rel] unfolding args_owned_def by blast
  with rel at client_at_exists [OF at] show ?thesis by (auto simp: sys_rel_def)
qed

lemma failed_dangling:
  assumes P: "pbuf_contract P" and L: "linked cl F bs w" and p: "ctx_pcb (px F) = Some p" "pcbs (net w) p = None"
  shows "TcpClient_stop P cl w = Inl (Dangling_pcb p)" "TcpClient_shutdown P cl w = Inl (Dangling_pcb p)"
    "TcpClient_ts_status P cl w = Inl (Dangling_pcb p)"
    "TcpClient_ts_connect P cl ip port w = Inr (PICO_ERROR_RESOURCE_IN_USE P, w)"
proof -
  from close_dangling [OF P linkedD(1) [OF L] p linkedD(3) [OF L]] show "TcpClient_stop P cl w = Inl (Dangling_pcb p)"
    by (simp add: TcpClient_stop_def pbind_apply lookup_obj_def linkedD [OF L])
  then show "TcpClient_shutdown P cl w = Inl (Dangling_pcb p)" by (simp add: TcpClient_shutdown_def pbind_apply)
qed (use p in \<open>simp_all add: TcpClient_ts_status_def TcpClientContext_state_def TcpClient_ts_connect_def prog_simps linkedD [OF L]\<close>)

end
