(* ===== verification/Lifecycle.thy ===== *)
theory Lifecycle
  imports Simulation
begin

text \<open>
  What follows from the simulation for any number of clients: no operation and no event faults in a
  reachable state, lwIP's callback arguments are live contexts except for the PCBs that the library has
  lost, clients do not disturb each other and a connection delivers its bytes in order.
\<close>

section \<open>A sample run\<close>

lemma sample_all_contracts: "contracts sample"
  by (simp add: contracts_def sample_contracts)

text \<open>A state without clients in which the pbuf 1 has arrived, and what follows on a new client that connects.\<close>

definition sample_start :: "size_t world" where
  "sample_start = sample_world (sample_net
     [1 \<mapsto> \<lparr>p_next = None, p_payload = [10, 20, 30], p_len = 3, p_ref = 1\<rparr>] Map.empty 1000)"

lemma sample_initial: "initial sample_start"
  by (simp add: initial_def sample_start_def sample_world_def sample_net_def)

lemma sample_created:
  obtains w where "run sample sample_start [L_new 100] w" "clients w = [100 \<mapsto> the (clients w 100)]"
    "client_at 100 Idle w" "fresh w = 101" "net w = net sample_start" "rx_bufs w = Map.empty"
proof -
  let ?w = "sample_start\<lparr>clients := [100 \<mapsto> \<lparr>cl_received_bridge = None, cl_connected_bridge = None, cl_fin_bridge = None,
       cl_error_bridge = None, cl_poll_bridge = None, cl_ack_bridge = None, cl_ctx = None,
       cl_sync_accessor = None, cl_client_id = 0, cl_timeout = 5000, cl_write_callback = None\<rparr>], fresh := 101\<rparr>"
  have "perform sample New sample_start = Inr ((), ?w)"
    by (simp add: TcpClient_new_def new_defs drop_val_def prog_simps sample_start_def sample_world_def)
  from run.step [OF run.stay _ this] show ?thesis
    by (intro that [of ?w]) (simp_all add: sample_start_def sample_world_def)
qed

lemma sample_opened:
  obtains w where "run sample sample_start [L_new 100, L_connect 100] w" "client_at 100 (Open 7 [] 0) w"
    "pbufs (net w) = pbufs (net sample_start)" "rx_bufs w = [102 \<mapsto> fresh_rx 101]"
proof -
  obtain w1 where w1: "run sample sample_start [L_new 100] w1" "client_at 100 Idle w1" "fresh w1 = 101"
    "net w1 = net sample_start" "rx_bufs w1 = Map.empty" by (rule sample_created)
  then obtain k where k: "clients w1 100 = Some k" "cl_ctx k = None" by auto
  have new: "fst (tcp_new sample (net w1)) = Some 7"
    using w1(4) by (intro sample_new_pcb) (simp add: sample_start_def sample_world_def sample_net_def)
  have adm: "admissible sample (Call 100 (Connect 1 80)) w1"
    using k by simp
  obtain w N M cs where run: "TcpClient_ts_connect sample 100 1 80 w1 = Inr (PICO_OK sample, w)"
    and w: "w = (opened sample 100 k 7 N w1)\<lparr>net := M, calls := cs\<rparr>" and on: "opened_net (fresh w1) 7 (net w1) M"
    by (rule ts_connect_run [OF sample_open_contract sample_reg_contract k new, of 1 80]) (use sample_connect_answers in blast)+
  have "perform sample (Call 100 (Connect 1 80)) w1 = Inr ((), w)" using run by (simp add: drop_val_Inr)
  from run.step [OF w1(1) adm this] have "run sample sample_start [L_new 100, L_connect 100] w" by simp
  moreover have "client_at 100 (Open 7 [] 0) w" using new_parts_linked [OF w on] by auto
  moreover have "pbufs (net w) = pbufs (net sample_start)" using on w w1(4) by (simp add: opened_net_def)
  moreover have "rx_bufs w = [102 \<mapsto> fresh_rx 101]" using w w1(3,5) by (simp add: opened_simps)
  ultimately show ?thesis using that by blast
qed

lemma sample_reachable: "run sample sample_start ls w \<Longrightarrow> reachable sample w"
  using sample_initial unfolding reachable_def by blast

lemma sample_received:
  obtains w w' where "run sample sample_start [L_new 100, L_connect 100] w" "client_at 100 (Open 7 [] 0) w"
    "run sample w [L_receive 7 [10, 20, 30]] w'" "admissible sample (Event 7 (Data [1])) w"
    "perform sample (Event 7 (Data [1])) w = Inr ((), w')"
proof -
  obtain w where w: "run sample sample_start [L_new 100, L_connect 100] w" "client_at 100 (Open 7 [] 0) w"
    and pb: "pbufs (net w) = pbufs (net sample_start)" and rx: "rx_bufs w = [102 \<mapsto> fresh_rx 101]"
    by (rule sample_opened)
  have h: "pbufs (net w) = [1 \<mapsto> \<lparr>p_next = None, p_payload = [10, 20, 30], p_len = 3, p_ref = 1\<rparr>]"
    using pb by (simp add: sample_start_def sample_world_def sample_net_def)
  have "registered 7 w"
    by (rule open_registered [OF w(2)])
  moreover have "arrived (pbufs (net w)) ps (hd [1]) [1]" if "rx_rep r ps bs w" for r ps bs
    using that rx by (auto simp: rx_rep_def rx_owns_def arrived_def h pbuf_good_def fresh_rx_def split: if_splits)
  ultimately have adm: "admissible sample (Event 7 (Data [1])) w" by simp
  obtain S Q where "sys_rel S Q w" using reachable_rel [OF sample_all_contracts sample_reachable [OF w(1)]] .
  from perform_refines [OF sample_all_contracts this adm] obtain w' where
    w': "perform sample (Event 7 (Data [1])) w = Inr ((), w')" by (auto simp: refines_def)
  from run.step [OF run.stay adm this] have "run sample w [L_receive 7 [10, 20, 30]] w'"
    by (simp add: bytes_of_def payload_at_def h)
  with w adm w' show ?thesis using that by blast
qed

text \<open>A client without a context gets a connection when lwIP has a PCB and accepts the attempt; a shut-down one has lost its PCB.\<close>

lemma reconnect_accepted:
  assumes "contracts P" "reachable P w" "client_at cl Idle w"
    and new: "fst (tcp_new P (net w)) = Some p" and ans: "connect_answers P p port (ERR_OK P)"
  shows "\<exists>w'. TcpClient_ts_connect P cl ip port w = Inr (PICO_OK P, w') \<and> reachable P w' \<and> client_at cl (Open p [] 0) w'"
proof -
  from assms(3) obtain k where k: "clients w cl = Some k" "cl_ctx k = None" by auto
  show ?thesis
  proof (rule ts_connect_run [OF contractsD(6,5) [OF assms(1)] k new, of ip port])
    fix w' N M cs
    assume run: "TcpClient_ts_connect P cl ip port w = Inr (PICO_OK P, w')"
      and w': "w' = (opened P cl k p N w)\<lparr>net := M, calls := cs\<rparr>" "opened_net (fresh w) p (net w) M"
    have "reachable P w'"
      using k run by (intro reachable_step [OF assms(2), of "Call cl (Connect ip port)"]) (simp_all add: drop_val_Inr)
    with run new_parts_linked(1,2) [OF w'] show ?thesis by auto
  qed (use ans in auto)
qed

lemma shutdown_idles:
  assumes "contracts P" "reachable P w" "client_at cl s w" "\<not> failed s"
  shows "\<exists>res w'. TcpClient_shutdown P cl w = Inr (res, w') \<and> reachable P w' \<and> client_at cl Idle w'"
proof -
  have adm: "admissible P (Call cl Shutdown) w"
    using assms(4) phase_tests(2) [OF assms(3)] client_at_exists [OF assms(3)] by auto
  obtain S Q where "sys_rel S Q w" using reachable_rel [OF assms(1,2)] .
  from perform_refines [OF assms(1) this adm] obtain w' S' Q' where
    run: "perform P (Call cl Shutdown) w = Inr ((), w')" and "sys_rel S' Q' w'" "S' cl = Some Idle"
    by (auto simp: refines_def)
  then have "client_at cl Idle w'" using sys_relD(1) by blast
  moreover have "reachable P w'" by (rule reachable_step [OF assms(2) adm run])
  moreover from run obtain res where "TcpClient_shutdown P cl w = Inr (res, w')"
    by (auto simp: drop_val_def prog_simps split: sum.splits)
  ultimately show ?thesis by blast
qed

lemma shutdown_frees_pcb:
  assumes "contracts P" "client_at cl (Open p dl n) w" "TcpClient_shutdown P cl w = Inr (res, w')"
  shows "pcbs (net w') p = None"
proof -
  from assms(2) obtain F where L: "linked cl F (drop n dl) w" and A: "pcb_attached F p w" by auto
  from TcpClient_shutdown_run [OF contractsD(7) [OF assms(1)] linkedD(1) [OF L] pcb_attachedD(1,2) [OF A] linkedD(3,2) [OF L]]
    assms(3) show ?thesis by (auto simp: conn_released_def)
qed

section \<open>Properties\<close>

text \<open>
  C1. From every state that any number of clients can reach, by creating and destroying clients,
  connecting, stopping, shutting down, reading, writing, querying and changing settings, and by lwIP's data, FIN,
  acknowledgement, poll, connected and error events, in any order and with any activity of lwIP's own in
  between, every admissible operation and every event returns: no null pointer, no object, PCB or pbuf after its end, no access out of bounds, no empty
  function, no failed assertion and no loop without end.
\<close>

theorem reachable_never_faults:
  assumes "contracts P" and "reachable P w" and "admissible P act w"
  shows "\<exists>w'. perform P act w = Inr ((), w') \<and> reachable P w'"
proof -
  obtain S Q where "sys_rel S Q w" using reachable_rel [OF assms(1,2)] .
  from perform_refines [OF assms(1) this assms(3)] obtain w' where "perform P act w = Inr ((), w')"
    by (auto simp: refines_def)
  then show ?thesis using reachable_step [OF assms(2,3)] by blast
qed

theorem reachable_never_faults_witness:
  "\<exists>w w'. run sample sample_start [L_new 100, L_connect 100] w \<and> perform sample (Call 100 Stop) w = Inr ((), w')"
proof -
  obtain w where w: "run sample sample_start [L_new 100, L_connect 100] w" "client_at 100 (Open 7 [] 0) w"
    by (rule sample_opened)
  have "admissible sample (Call 100 Stop) w" using phase_tests(2) [OF w(2)] client_at_exists [OF w(2)] by auto
  from reachable_never_faults [OF sample_all_contracts sample_reachable [OF w(1)] this] w(1) show ?thesis by blast
qed

text \<open>
  C5. In every such state a callback argument that lwIP holds for a PCB is the context of a client, which
  exists and has that PCB, unless the PCB is an orphan: one of those a rejected attempt to connect or
  the destruction of a connected client has left behind.
\<close>

theorem callback_argument_owned:
  assumes "contracts P" and "reachable P w" and "pcbs (net w) q = Some b" and "callback_arg b = Some a" and "\<not> orphan q w"
  shows "\<exists>cl k x. clients w cl = Some k \<and> cl_ctx k = Some a \<and> contexts w a = Some x \<and> ctx_pcb x = Some q"
proof -
  obtain S Q where S: "sys_rel S Q w" using reachable_rel [OF assms(1,2)] .
  have g: "regs_at w q = Some (pcb_regs b)" "fst (pcb_regs b) \<noteq> None" using assms(3,4) by (simp_all add: regs_at_def pcb_regs_def)
  have "q \<notin> Q" using sys_rel_orphan [OF S] assms(5) by simp
  with g sys_relD(3) [OF S] obtain cl dl n where "S cl = Some (Open q dl n)" unfolding args_owned_def by blast
  from sys_relD(1) [OF S this] obtain F where L: "linked cl F (drop n dl) w" and A: "pcb_attached F q w" by auto
  have "a = pc F" using pcb_attachedD(4) [OF A] g(1) assms(4) by (simp add: pcb_regs_def ctx_regs_def)
  with linkedD(4-6) [OF L] pcb_attachedD(1) [OF A] show ?thesis by blast
qed

theorem callback_argument_owned_witness:
  "\<exists>w b a cl k x. run sample sample_start [L_new 100, L_connect 100] w \<and> pcbs (net w) 7 = Some b \<and>
    callback_arg b = Some a \<and> clients w cl = Some k \<and> cl_ctx k = Some a \<and> contexts w a = Some x \<and> ctx_pcb x = Some 7"
proof -
  obtain w where w: "run sample sample_start [L_new 100, L_connect 100] w" "client_at 100 (Open 7 [] 0) w"
    by (rule sample_opened)
  then obtain b a where b: "pcbs (net w) 7 = Some b" "callback_arg b = Some a"
    by (auto simp: pcb_attached_def regs_at_Some pcb_regs_def ctx_regs_def)
  from callback_argument_owned [OF sample_all_contracts sample_reachable [OF w(1)] b orphan_not_open [OF w(2)]] w(1) b
  show ?thesis by blast
qed

text \<open>
  C2. The library implements the automaton of \<open>Connection_Spec\<close>: whatever sequence of operations and
  events runs from a state without clients, the same sequence of steps is possible in the automaton, and
  the objects at the end stand for the state it reaches: which clients exist, which are connected on
  which PCB, what each of them has left to read, and which PCBs have been lost.
\<close>

theorem library_refines_spec:
  assumes "contracts P" and "initial w0" and "run P w0 ls w"
  shows "\<exists>S Q. spec_run ls (Map.empty, {}) (S, Q) \<and> sys_rel S Q w"
  using run_refines [OF assms(1) initial_rel [OF assms(2)] assms(3)] .

theorem library_refines_spec_witness:
  "\<exists>w S Q. run sample sample_start [L_new 100, L_connect 100] w \<and>
    spec_run [L_new 100, L_connect 100] (Map.empty, {}) (S, Q) \<and> sys_rel S Q w"
proof -
  obtain w where w: "run sample sample_start [L_new 100, L_connect 100] w" by (rule sample_opened)
  from library_refines_spec [OF sample_all_contracts sample_initial w] w show ?thesis by blast
qed

text \<open>
  C3. A connection is a reliable stream: over any run that does not end it, its unread bytes are what was
  unread before followed by exactly the bytes lwIP delivered on its PCB, in order, less a prefix that the
  client asked to consume. Other clients' connections, reconnects and failures make no difference.
\<close>

theorem connection_stream_intact:
  assumes "contracts P" and "reachable P w" and "client_at cl (Open p dl n) w" and "run P w ls w'"
    and "list_all (\<lambda>l. \<not> ends_conn cl p l) ls"
  shows "\<exists>m. client_at cl (Open p (dl @ received p ls) m) w' \<and> n \<le> m \<and> m \<le> n + requested cl ls"
proof -
  obtain S0 Q0 where "sys_rel S0 Q0 w" using reachable_rel [OF assms(1,2)] .
  then have S: "sys_rel (S0(cl \<mapsto> Open p dl n)) Q0 w" by (rule sys_rel_choose [OF _ assms(3)])
  from run_refines [OF assms(1) S assms(4)] obtain S' Q' where
    S': "spec_run ls (S0(cl \<mapsto> Open p dl n), Q0) (S', Q')" "sys_rel S' Q' w'"
    by blast
  have "\<And>l. l \<in> set ls \<Longrightarrow> \<not> ends_conn cl p l" using assms(5) by (simp add: list_all_iff)
  from spec_run_stream [OF S'(1) sys_rel_spec_ok [OF S] _ this, of dl n] obtain m where
    "S' cl = Some (Open p (dl @ received p ls) m)" "n \<le> m" "m \<le> n + requested cl ls" by auto
  with sys_relD(1) [OF S'(2)] show ?thesis by blast
qed

theorem connection_stream_intact_witness:
  "\<exists>w w' m. run sample sample_start [L_new 100, L_connect 100] w \<and> run sample w [L_receive 7 [10, 20, 30]] w' \<and>
    client_at 100 (Open 7 [10, 20, 30] m) w' \<and> m = 0"
proof -
  obtain w w' where w: "run sample sample_start [L_new 100, L_connect 100] w" "client_at 100 (Open 7 [] 0) w"
    and r: "run sample w [L_receive 7 [10, 20, 30]] w'" by (rule sample_received)
  from connection_stream_intact [OF sample_all_contracts sample_reachable [OF w(1)] w(2) r] w(1) r show ?thesis by auto
qed

text \<open>
  C6. Clients do not disturb each other: a step that does not concern a client (another client's operation,
  an event on another client's PCB, the creation of a client) leaves its phase, its PCB and its unread bytes
  as they are.
\<close>

theorem clients_independent:
  assumes "contracts P" and "reachable P w" and "admissible P act w" and "client_at cl s w"
    and "\<not> concerns (\<lambda>_. Some s) (label_of act w) cl"
  shows "\<exists>w'. perform P act w = Inr ((), w') \<and> client_at cl s w'"
proof -
  obtain S0 Q0 where "sys_rel S0 Q0 w" using reachable_rel [OF assms(1,2)] .
  then have S: "sys_rel (S0(cl \<mapsto> s)) Q0 w" by (rule sys_rel_choose [OF _ assms(4)])
  from perform_refines [OF assms(1) S assms(3)] obtain w' S' Q' where w': "perform P act w = Inr ((), w')" "sys_rel S' Q' w'"
    and step: "spec_step (label_of act w) (S0(cl \<mapsto> s), Q0) (S', Q')" by (auto simp: refines_def)
  have "\<not> concerns (S0(cl \<mapsto> s)) (label_of act w) cl" using assms(5) by (cases "label_of act w") simp_all
  with spec_step_others [OF step] have "S' cl = Some s" by simp
  with sys_relD(1) [OF w'(2)] w'(1) show ?thesis by blast
qed

theorem clients_independent_witness:
  "\<exists>w w'. run sample sample_start [L_new 100, L_connect 100] w \<and> perform sample New w = Inr ((), w') \<and>
    client_at 100 (Open 7 [] 0) w'"
proof -
  obtain w where w: "run sample sample_start [L_new 100, L_connect 100] w" "client_at 100 (Open 7 [] 0) w"
    by (rule sample_opened)
  obtain S Q where S: "sys_rel S Q w" using reachable_rel [OF sample_all_contracts sample_reachable [OF w(1)]] .
  have "fresh w \<noteq> 100" using sys_relD(4) [OF S] client_at_exists [OF w(2)] by (auto simp: bounded_def)
  with clients_independent [OF sample_all_contracts sample_reachable [OF w(1)] _ w(2), of New] w(1) show ?thesis by auto
qed

text \<open>
  C12. Whatever has happened before, a client whose connection has not failed can be used again: \<open>shutdown\<close>
  returns and leaves it idle, and if lwIP then has a PCB and accepts the attempt, \<open>_ts_connect\<close> returns
  \<open>PICO_OK\<close> and the client has a new connection on that PCB with nothing to read from the old one.
\<close>

theorem client_reconnects:
  assumes "contracts P" and "reachable P w" and "client_at cl s w" and "\<not> failed s"
  shows "\<exists>res w1. TcpClient_shutdown P cl w = Inr (res, w1) \<and> reachable P w1 \<and> client_at cl Idle w1 \<and>
    (\<forall>p. fst (tcp_new P (net w1)) = Some p \<longrightarrow> connect_answers P p port (ERR_OK P) \<longrightarrow>
      (\<exists>w2. TcpClient_ts_connect P cl ip port w1 = Inr (PICO_OK P, w2) \<and> reachable P w2 \<and>
        client_at cl (Open p [] 0) w2))"
  using shutdown_idles [OF assms] reconnect_accepted [OF assms(1)] by metis

theorem client_reconnects_witness:
  "\<exists>w res w1 w2. run sample sample_start [L_new 100, L_connect 100] w \<and>
    TcpClient_shutdown sample 100 w = Inr (res, w1) \<and>
    TcpClient_ts_connect sample 100 2 443 w1 = Inr (PICO_OK sample, w2) \<and> client_at 100 (Open 7 [] 0) w2"
proof -
  obtain w where w: "run sample sample_start [L_new 100, L_connect 100] w" "client_at 100 (Open 7 [] 0) w"
    by (rule sample_opened)
  have "\<not> failed (Open 7 [] 0)" by simp
  from client_reconnects [OF sample_all_contracts sample_reachable [OF w(1)] w(2) this, where ip = 2 and port = 443]
  obtain res w1 where w1: "TcpClient_shutdown sample 100 w = Inr (res, w1)"
    and reopens: "fst (tcp_new sample (net w1)) = Some 7 \<Longrightarrow> connect_answers sample 7 443 (ERR_OK sample) \<Longrightarrow>
      \<exists>w2. TcpClient_ts_connect sample 100 2 443 w1 = Inr (PICO_OK sample, w2) \<and> client_at 100 (Open 7 [] 0) w2"
    by blast
  have "pcbs (net w1) 7 = None" by (rule shutdown_frees_pcb [OF sample_all_contracts w(2) w1])
  from reopens [OF sample_new_pcb(1) [OF this] sample_connect_answers] w(1) w1 show ?thesis by blast
qed



text \<open>
  C34. A fatal error leaves a client that only its destructor can deal with: lwIP frees the PCB and reports
  the error, the client keeps the pointer, and then \<open>stop\<close>, \<open>shutdown\<close> and the status query, which the
  comment in the error handler leaves to clean up, use the freed PCB, and \<open>_ts_connect\<close> refuses because
  the context is still there. Destroying the client is safe.
\<close>

theorem error_event_leaves_dangling_pcb:
  assumes "contracts P" and "reachable P w" and "client_at cl (Open p dl n) w"
  shows "\<exists>w'. perform P (Event p (Error e)) w = Inr ((), w') \<and>
    TcpClient_stop P cl w' = Inl (Dangling_pcb p) \<and>
    TcpClient_shutdown P cl w' = Inl (Dangling_pcb p) \<and>
    TcpClient_ts_status P cl w' = Inl (Dangling_pcb p) \<and>
    TcpClient_ts_connect P cl ip port w' = Inr (PICO_ERROR_RESOURCE_IN_USE P, w') \<and>
    (\<exists>w''. TcpClient_delete P cl w' = Inr ((), w'') \<and> reachable P w'')"
proof -
  obtain S0 Q0 where "sys_rel S0 Q0 w" using reachable_rel [OF assms(1,2)] .
  then have S: "sys_rel (S0(cl \<mapsto> Open p dl n)) Q0 w" by (rule sys_rel_choose [OF _ assms(3)])
  have reg: "registered p w" by (rule open_registered [OF assms(3)])
  from S reg show ?thesis
  proof (rule registeredE)
    fix cl' dl' n' F b
    assume cl': "(S0(cl \<mapsto> Open p dl n)) cl' = Some (Open p dl' n')" and L: "linked cl' F (drop n' dl') w"
      and A: "pcb_attached F p w" and b: "pcbs (net w) p = Some b" "pcb_regs b = ctx_regs (pc F)"
    have "cl' = cl" using sys_rel_Open_unique [OF S cl', of cl dl n] by simp
    with L have L: "linked cl F (drop n' dl') w" by simp
    let ?w1 = "w\<lparr>net := (net w)\<lparr>pcbs := (pcbs (net w))(p := None)\<rparr>\<rparr>"
    let ?w' = "notified P (cl_error_bridge (pk F)) (Some (Work_err e)) ?w1"
    have "rx_rep (pr F) (pps F) (drop n' dl') ?w1" using linkedD(3) [OF L] by (subst rx_rep_cong [where w = w]) simp_all
    then have L1: "linked cl F (drop n' dl') ?w1" using L by (simp add: linked_def conn_def)
    then have L': "linked cl F (drop n' dl') ?w'"
      using quiet_change_linked [OF quiet_notified [OF contractsD(4) [OF assms(1)]]] by blast
    have gone: "pcbs (net ?w') p = None" using notify_live [OF contractsD(4) [OF assms(1)]] by simp
    have run: "perform P (Event p (Error e)) w = Inr ((), ?w')"
      using b error_run [OF linkedD(1) [OF L1], of P e] by (simp add: lwip_error_event_def prog_simps pcb_regs_def ctx_regs_def)
    have r': "reachable P ?w'" using reachable_step [OF assms(2) _ run] reg by simp
    obtain S' Q' where S': "sys_rel S' Q' ?w'" using reachable_rel [OF assms(1) r'] .
    have "admissible P (Call cl Destroy) ?w'" using linkedD(4) [OF L'] by simp
    moreover from perform_refines [OF assms(1) S' this] obtain w'' where "TcpClient_delete P cl ?w' = Inr ((), w'')"
      by (auto simp: refines_def)
    ultimately have "\<exists>w''. TcpClient_delete P cl ?w' = Inr ((), w'') \<and> reachable P w''"
      using reachable_step [OF r', of "Call cl Destroy"] by auto
    with run failed_dangling [OF contractsD(1) [OF assms(1)] L' pcb_attachedD(1) [OF A] gone] show ?thesis by blast
  qed
qed

theorem error_event_leaves_dangling_pcb_witness:
  "\<exists>w w'. run sample sample_start [L_new 100, L_connect 100] w \<and>
    perform sample (Event 7 (Error (ERR_ABRT sample))) w = Inr ((), w') \<and>
    TcpClient_stop sample 100 w' = Inl (Dangling_pcb 7) \<and> TcpClient_shutdown sample 100 w' = Inl (Dangling_pcb 7)"
proof -
  obtain w where w: "run sample sample_start [L_new 100, L_connect 100] w" "client_at 100 (Open 7 [] 0) w"
    by (rule sample_opened)
  from error_event_leaves_dangling_pcb [OF sample_all_contracts sample_reachable [OF w(1)] w(2),
      where e = "ERR_ABRT sample" and ip = 1 and port = 80] w(1) show ?thesis by blast
qed

end
