(* ===== verification/Flow_Control.thy ===== *)
theory Flow_Control
  imports Step_Frames Lifecycle
begin

text \<open>
  Flow control: lwIP opens its receive window only when the library calls \<open>tcp_recved\<close>. The bytes
  acknowledged for a PCB are exactly those the owner of the connection has consumed, over any run.
\<close>

lemma acked_other: "(\<And>p n. c \<noteq> Tcp_recved p n) \<Longrightarrow> acked [c] q = 0"
  by (cases c) auto

text \<open>Only consuming acknowledges.\<close>

interpretation acks: open_frame "\<lambda>w w'. acked (calls w') = acked (calls w)" "\<lambda>c. \<forall>p n. c \<noteq> Tcp_recved p n" True True
  by unfold_locales (auto simp: acked_other)

text \<open>What a step acknowledges for the PCB of an open connection.\<close>

fun consumed_by :: "label \<Rightarrow> addr \<Rightarrow> nat \<Rightarrow> nat" where
  "consumed_by (L_consume c k) cl left = (if c = cl then min k left else 0)"
| "consumed_by _ cl left = 0"

lemma consume_acked:
  fixes P :: "'h platform"
  assumes C: "contracts P" and rel: "sys_rel S Q w" and adm: "admissible P (Call c (Consume k)) w"
    and run: "call_op P c (Consume k) w = Inr ((), w')" and S: "S cl = Some (Open p dl n)"
  shows "acked (calls w') p = acked (calls w) p + (if c = cl then min (unat k) (length dl - n) else 0)"
proof -
  from adm have "clients w c \<noteq> None" by simp
  from client_phase [OF rel this] obtain s where s: "S c = Some s" "client_at c s w" .
  show ?thesis
  proof (cases s)
    case (Open q dl' n')
    with s(2) obtain F where F: "linked c F (drop n' dl') w" "pcb_attached F q w" by auto
    from IoRxBuffer_peekConsume_run [OF contractsD(1,2) [OF C] linkedD(3) [OF F(1)] pcb_attached_rx [OF F], of k] obtain v where
      v: "IoRxBuffer_peekConsume P (pr F) k w = Inr ((), v)" "\<And>q. acked (calls v) q = acked (calls w) q +
        (if rx_pcb_of (pr F) w = Some q then min (unat k) (length (drop n' dl')) else 0)" by blast
    have "w' = v" using run v(1) by (simp add: pbind_apply client_part_run [OF F(1)])
    moreover have "rx_pcb_of (pr F) w = Some q \<or> drop n' dl' = [] \<and> rx_pcb_of (pr F) w = None"
      using F linkedD(3,10) [OF F(1)] by (auto simp: pcb_attached_def rx_rep_def unread_def split: option.splits)
    moreover have "c = cl \<longleftrightarrow> q = p" using sys_rel_Open_unique [OF rel S, of c] s(1) S Open by auto
    ultimately show ?thesis using v(2) [of p] S s(1) Open by (auto split: if_splits)
  next
    case Closed
    with s(2) obtain F where "linked c F [] w" "pps F = []" by auto
    from consume_nothing [OF this, of P k] run s(1) S Closed show ?thesis by auto
  qed (use adm phase_tests(2,3) [OF s(2)] in auto)
qed

lemma perform_acked:
  assumes "contracts P" "sys_rel S Q w" "admissible P act w" "perform P act w = Inr ((), w')" "S cl = Some (Open p dl n)"
  shows "acked (calls w') p = acked (calls w) p + consumed_by (label_of act w) cl (length dl - n)"
proof (cases "\<exists>c k. act = Call c (Consume k)")
  case True
  with consume_acked [OF assms(1,2)] assms(3-5) show ?thesis by auto
next
  case False
  have "acked (calls w') = acked (calls w)"
  proof (cases "\<exists>c. act = Call c Set_accessor")
    case True
    with assms(4) show ?thesis by (auto simp: install_accessor_apply split: option.splits if_splits)
  qed (use False settledD [OF acks.perform_settled assms(4)] in blast)
  moreover have "consumed_by (label_of act w) cl (length dl - n) = 0"
  proof (cases act)
    case (Call c oper)
    with False show ?thesis by (cases oper) simp_all
  next
    case (Event q ev)
    then show ?thesis by (cases ev) simp_all
  qed simp_all
  ultimately show ?thesis by simp
qed

text \<open>In the specification the reader's position moves by the same amount.\<close>

lemma spec_step_position:
  assumes "spec_step l (S, Q) (S', Q')" "spec_ok (S, Q)" "S cl = Some (Open p dl n)" "\<not> ends_conn cl p l"
  shows "S' cl = Some (Open p (dl @ received p [l]) (n + consumed_by l cl (length dl - n)))"
proof -
  from spec_step_stream [OF assms] obtain m where m: "S' cl = Some (Open p (dl @ received p [l]) m)" "n \<le> m" "m \<le> n + requested cl [l]"
    by blast
  show ?thesis
  proof (cases "\<exists>k. l = L_consume cl k")
    case True
    with assms(1,3) spec_ok_position [OF assms(2), of cl p dl n] show ?thesis by (auto simp: min_def)
  next
    case False
    then have "requested cl [l] = 0" "consumed_by l cl (length dl - n) = 0" by (cases l; auto)+
    with m show ?thesis by simp
  qed
qed

lemma run_acked:
  assumes C: "contracts P" and rel: "sys_rel S Q w" and ok: "spec_ok (S, Q)" and S: "S cl = Some (Open p dl n)"
    and "run P w ls w'" and "list_all (\<lambda>l. \<not> ends_conn cl p l) ls"
  shows "\<exists>S' Q' m. sys_rel S' Q' w' \<and> spec_ok (S', Q') \<and> S' cl = Some (Open p (dl @ received p ls) m) \<and> n \<le> m \<and>
    acked (calls w') p + n = acked (calls w) p + m"
  using assms(5,6)
proof (induction rule: run.induct)
  case stay
  with rel ok S show ?case by auto
next
  case (step ls v act v')
  then obtain S1 Q1 m where S1: "sys_rel S1 Q1 v" "spec_ok (S1, Q1)" "S1 cl = Some (Open p (dl @ received p ls) m)" "n \<le> m"
    "acked (calls v) p + n = acked (calls w) p + m" by auto
  from perform_refines [OF C S1(1) step.hyps(2)] step.hyps(3) obtain S2 Q2 where
    S2: "spec_step (label_of act v) (S1, Q1) (S2, Q2)" "sys_rel S2 Q2 v'" by (auto simp: refines_def)
  have on: "\<not> ends_conn cl p (label_of act v)" using step.prems by simp
  from spec_step_position [OF S2(1) S1(2,3) on] perform_acked [OF C S1(1) step.hyps(2,3) S1(3)]
    spec_step_ok [OF S2(1) S1(2)] S2(2) S1(4,5)
  show ?case by (intro exI [of _ S2] exI [of _ Q2] exI) auto
qed

section \<open>Property\<close>

text \<open>
  C4. Flow control is exact: over any run that does not end a connection, the bytes acknowledged to lwIP
  with \<open>tcp_recved\<close> on its PCB are exactly as many as the reader's position has advanced. What is still
  unread has not been acknowledged, nothing is acknowledged twice, and other clients' reading, writing and
  reconnecting acknowledges nothing on this connection.
\<close>

theorem window_follows_reader:
  assumes "contracts P" and "reachable P w" and "client_at cl (Open p dl n) w" and "run P w ls w'"
    and "list_all (\<lambda>l. \<not> ends_conn cl p l) ls"
  shows "\<exists>m. client_at cl (Open p (dl @ received p ls) m) w' \<and> n \<le> m \<and> acked (calls w') p = acked (calls w) p + (m - n)"
proof -
  obtain S0 Q0 where "sys_rel S0 Q0 w" using reachable_rel [OF assms(1,2)] .
  then have S: "sys_rel (S0(cl \<mapsto> Open p dl n)) Q0 w" by (rule sys_rel_choose [OF _ assms(3)])
  from run_acked [OF assms(1) S sys_rel_spec_ok [OF S] _ assms(4,5), of dl n] obtain S' Q' m where
    "sys_rel S' Q' w'" "S' cl = Some (Open p (dl @ received p ls) m)" "n \<le> m" "acked (calls w') p + n = acked (calls w) p + m"
    by auto
  then show ?thesis using sys_relD(1) [of S' Q' w' cl] by (intro exI [of _ m]) auto
qed

theorem window_follows_reader_witness:
  "\<exists>w w'. run sample w [L_receive 7 [10, 20, 30], L_consume 100 2] w' \<and> client_at 100 (Open 7 [10, 20, 30] 2) w' \<and>
    acked (calls w') 7 = acked (calls w) 7 + 2"
proof -
  obtain w v where w: "run sample sample_start [L_new 100, L_connect 100] w" "client_at 100 (Open 7 [] 0) w"
    and r: "run sample w [L_receive 7 [10, 20, 30]] v" by (rule sample_received)
  note C = sample_all_contracts
  obtain S0 Q0 where "sys_rel S0 Q0 w" using reachable_rel [OF C sample_reachable [OF w(1)]] .
  then have S: "sys_rel (S0(100 \<mapsto> Open 7 [] 0)) Q0 w" by (rule sys_rel_choose [OF _ w(2)])
  from run_refines [OF C this r] obtain S1 Q1 where
    S1: "spec_run [L_receive 7 [10, 20, 30]] (S0(100 \<mapsto> Open 7 [] 0), Q0) (S1, Q1)" "sys_rel S1 Q1 v" by blast
  from spec_run_stream [OF S1(1) sys_rel_spec_ok [OF S], of 100 7 "[]" 0] have
    at: "S1 100 = Some (Open 7 [10, 20, 30] 0)" by auto
  from sys_relD(1) [OF S1(2) this] have av: "client_at 100 (Open 7 [10, 20, 30] 0) v" .
  then have adm: "admissible sample (Call 100 (Consume 2)) v"
    using client_at_exists [OF av] phase_tests(2,3) [OF av] by auto
  from perform_refines [OF C S1(2) adm] at obtain w' where w': "perform sample (Call 100 (Consume 2)) v = Inr ((), w')"
    "client_at 100 (Open 7 [10, 20, 30] 2) w'" by (auto simp: refines_def dest: sys_relD(1) [of _ _ _ 100])
  from run.step [OF r adm w'(1)] have r': "run sample w [L_receive 7 [10, 20, 30], L_consume 100 2] w'" by simp
  from window_follows_reader [OF C sample_reachable [OF w(1)] w(2) r'] obtain m where
    m: "client_at 100 (Open 7 [10, 20, 30] m) w'" "acked (calls w') 7 = acked (calls w) 7 + m" by auto
  have "drop m [10, 20, 30 :: u8] = drop 2 [10, 20, 30]" "m \<le> 3" using m(1) w'(2) by (auto dest: linked_unique)
  then have "m = 2" using length_drop [of m "[10, 20, 30 :: u8]"] by simp
  with m(2) r' w'(2) show ?thesis by blast
qed

end
