(* ===== verification/Termination.thy ===== *)
theory Termination
  imports Lifecycle
begin

text \<open>
  No operation runs forever. A program that faults has stopped; what is excluded here is the fault
  \<open>Diverges\<close>, which stands for a loop that does not return. The theorems need no assumption on the
  platform, except for \<open>peekConsume\<close>, whose loop follows the chain of pbufs.
\<close>

section \<open>Programs that stop\<close>

definition stops :: "('h, 'a) cprog \<Rightarrow> bool" where
  "stops m \<longleftrightarrow> (\<forall>w. m w \<noteq> Inl Diverges)"

named_theorems stops_intros \<open>programs that stop\<close>

lemma stopsD: "stops m \<Longrightarrow> m w \<noteq> Inl Diverges"
  by (simp add: stops_def)

lemma stops_basic [stops_intros]:
  "stops (ret x)" "e \<noteq> Diverges \<Longrightarrow> stops (fail e)" "stops (gets f)" "stops (modify g)"
  "e \<noteq> Diverges \<Longrightarrow> stops (require b e)" "e \<noteq> Diverges \<Longrightarrow> stops (deref e v)" "stops (ext c h)" "stops (ext_val c j)"
  by (cases b; cases v; simp add: stops_def)+

lemma stops_access [stops_intros]: "stops (lookup_obj store a)" "stops (get_pbuf p)" "stops (get_pcb p)"
  by (simp_all add: stops_def lookup_obj_def get_pbuf_def get_pcb_def split: option.splits)

lemma stops_pbind [stops_intros]: "stops m \<Longrightarrow> (\<And>x. stops (f x)) \<Longrightarrow> stops (pbind m f)"
  by (auto simp: stops_def pbind_def split: sum.splits)

lemma stops_pseq [stops_intros]: "stops m \<Longrightarrow> stops k \<Longrightarrow> stops (pseq m k)"
  unfolding pseq_def by (intro stops_pbind)

lemma stops_branches [stops_intros]:
  "(b \<Longrightarrow> stops m) \<Longrightarrow> (\<not> b \<Longrightarrow> stops k) \<Longrightarrow> stops (if b then m else k)"
  "stops n \<Longrightarrow> (\<And>a. stops (f a)) \<Longrightarrow> stops (case v of None \<Rightarrow> n | Some a \<Rightarrow> f a)"
  by (cases b; cases v; simp)+

lemma stops_guards [stops_intros]:
  "stops m \<Longrightarrow> stops (when_p b m)" "(\<And>a. stops (f a)) \<Longrightarrow> stops (when_some v f)"
  "stops n \<Longrightarrow> stops (on_pcb p n)" "stops k \<Longrightarrow> stops (on_pbuf q k)"
  by (cases b; cases v; simp add: stops_intros on_pcb_def on_pbuf_def)+

lemma stops_new [stops_intros]: "stops (new_rx x)" "stops (new_tx y)" "stops (new_ctx z)" "stops (new_client k)"
  by (simp_all add: stops_def new_defs)

text \<open>A loop whose body stops and whose variable decreases in every further round.\<close>

lemma stops_loop:
  fixes m :: "'l \<Rightarrow> nat"
  assumes body: "\<And>l. stops (body l)" and less: "\<And>l w l' w'. body l w = Inr (Again l', w') \<Longrightarrow> m l' < m l"
  shows "stops (run_loop Diverges body l)"
  unfolding stops_def
proof
  fix w show "run_loop Diverges body l w \<noteq> Inl Diverges"
  proof (induction "m l" arbitrary: l w rule: less_induct)
    case less
    with body [of l] assms(2) [of l w] show ?case
      by (subst run_loop_unfold) (auto simp: stops_def split: sum.splits loop.splits)
  qed
qed

section \<open>The writer\<close>

lemma TcpWriter_writeStep_stops: "stops (TcpWriter_writeStep P t d sz tot)"
  unfolding TcpWriter_writeStep_def TcpWriter_getOptimalChunkSize_def TcpWriter_availableForWrite_def Let_def
  by (intro stops_intros) simp_all

lemma TcpWriter_writeStep_progress:
  assumes "TcpWriter_writeStep P t d sz tot w = Inr (Again tot', w')"
  shows "unat (sz - tot') < unat (sz - tot)"
proof -
  from assms obtain k where lt: "tot < sz" and k: "tot' = tot + min (min (sz - tot) k) (ucast (TCP_MSS P))"
    "min (min (sz - tot) k) (ucast (TCP_MSS P)) \<noteq> 0"
    by (auto simp: TcpWriter_writeStep_def TcpWriter_getOptimalChunkSize_def pbind_eq_Inr pseq_eq_Inr Let_def split: if_splits)
  define c where "c = min (min (sz - tot) k) (ucast (TCP_MSS P))"
  have "c \<le> sz - tot" unfolding c_def by (meson min.cobounded1 min.coboundedI1)
  moreover have "0 < unat c" using k(2) by (simp add: c_def [symmetric] unat_gt_0)
  moreover have "sz - tot' = sz - tot - c" using k(1) by (simp add: c_def)
  ultimately show ?thesis using unat_sub_le [of c "sz - tot"] by (simp only: word_le_nat_alt)
qed

lemma TcpWriter_writeData_stops: "stops (TcpWriter_writeData P t data sz)"
proof -
  have "stops (run_loop Diverges (TcpWriter_writeStep P t d sz) 0)" for d
    by (rule stops_loop [where m = "\<lambda>tot. unat (sz - tot)"])
      (rule TcpWriter_writeStep_stops, rule TcpWriter_writeStep_progress)
  then show ?thesis
    unfolding TcpWriter_writeData_def
    by (intro stops_intros) (auto intro!: stops_intros split: option.splits)
qed

section \<open>The receive buffer\<close>

lemma IoRxBuffer_toAck_stops:
  fixes P :: "'h platform"
  shows "stops (IoRxBuffer_toAck P r n)"
  unfolding IoRxBuffer_toAck_def
proof (rule stops_loop [where m = unat])
  show "stops (IoRxBuffer_toAckStep P r l)" for l
    unfolding IoRxBuffer_toAckStep_def Let_def by (intro stops_intros) simp_all
  fix l l' :: size_t and w w' :: "'h world"
  assume "IoRxBuffer_toAckStep P r l w = Inr (Again l', w')"
  then have l: "l \<noteq> 0" "l' = l - ucast (ucast (min l 0xFFFF) :: u16)"
    by (auto simp: IoRxBuffer_toAckStep_def pbind_eq_Inr pseq_eq_Inr Let_def split: if_splits)
  define c where "c = (ucast (ucast (min l 0xFFFF) :: u16) :: size_t)"
  have c: "unat c = min (unat l) 65535" unfolding c_def unat_ucast_u16 by (subst unat_ucast_small) simp_all
  then have "c \<le> l" by (simp add: word_le_nat_alt)
  moreover have "0 < unat c" using l(1) c by (simp add: unat_gt_0)
  ultimately show "unat l' < unat l" using l(2) by (simp add: c_def [symmetric] unat_sub_le word_le_nat_alt)
qed

lemma IoRxBuffer_free_stops: "stops (IoRxBuffer_free P r)"
  unfolding IoRxBuffer_free_def by (intro stops_intros) simp_all

lemma IoRxBuffer_fastPath_stops: "stops (IoRxBuffer_fastPath P r n)"
  unfolding IoRxBuffer_fastPath_def Let_def by (intro stops_intros IoRxBuffer_free_stops) simp_all

text \<open>
  A chain that ends and whose pbufs are held; nothing is assumed on lengths, on the cursor or on the
  number of references.
\<close>

definition chain_held :: "(addr \<rightharpoonup> pbuf) \<Rightarrow> addr option \<Rightarrow> addr list \<Rightarrow> bool" where
  "chain_held h p ps \<longleftrightarrow> chain h p ps \<and> distinct ps \<and> (\<forall>q b. q \<in> set ps \<longrightarrow> h q = Some b \<longrightarrow> 0 < p_ref b)"

lemma pbuf_freed_first:
  assumes "h p = Some b" "0 < p_ref b" "p_next b = Some q" "q \<noteq> p" "h q = Some c" "0 < p_ref c"
  shows "\<exists>h' d. pbuf_freed (h(q \<mapsto> c\<lparr>p_ref := Suc (p_ref c)\<rparr>)) p h' \<and> (\<forall>a. a \<noteq> p \<longrightarrow> a \<noteq> q \<longrightarrow> h' a = h a) \<and>
    h' q = Some d \<and> p_next d = p_next c \<and> 0 < p_ref d"
proof -
  let ?h = "h(q \<mapsto> c\<lparr>p_ref := Suc (p_ref c)\<rparr>)"
  show ?thesis
  proof (cases "p_ref b = 1")
    case True
    have "pbuf_freed (?h(p := None)) q ((?h(p := None))(q \<mapsto> c\<lparr>p_ref := Suc (p_ref c), p_ref := Suc (p_ref c) - 1\<rparr>))"
      using pbuf_freed.shared [of "?h(p := None)" q "c\<lparr>p_ref := Suc (p_ref c)\<rparr>"] assms by simp
    with True assms have "pbuf_freed ?h p ((?h(p := None))(q \<mapsto> c\<lparr>p_ref := Suc (p_ref c), p_ref := Suc (p_ref c) - 1\<rparr>))"
      by (intro pbuf_freed.next_one [of ?h p b q]) simp_all
    with assms show ?thesis by (intro exI [of _ "(?h(p := None))(q \<mapsto> c\<lparr>p_ref := Suc (p_ref c), p_ref := Suc (p_ref c) - 1\<rparr>)"] exI [of _ c]) simp
  next
    case False
    then have "pbuf_freed ?h p (?h(p \<mapsto> b\<lparr>p_ref := p_ref b - 1\<rparr>))"
      using assms by (intro pbuf_freed.shared) simp_all
    with assms show ?thesis
      by (intro exI [of _ "?h(p \<mapsto> b\<lparr>p_ref := p_ref b - 1\<rparr>)"] exI [of _ "c\<lparr>p_ref := Suc (p_ref c)\<rparr>"]) simp
  qed
qed

lemma IoRxBuffer_free_chain:
  fixes P :: "'h platform" and w :: "'h world"
  assumes P: "pbuf_contract P" and x: "rx_bufs w r = Some x" and ch: "chain_held (pbufs (net w)) (rx_head x) (p # ps)"
  shows "\<exists>w' x'. IoRxBuffer_free P r w = Inr ((), w') \<and> rx_bufs w' r = Some x' \<and> chain_held (pbufs (net w')) (rx_head x') ps"
proof -
  let ?h = "pbufs (net w)"
  from ch obtain b where b: "rx_head x = Some p" "?h p = Some b" "chain ?h (p_next b) ps" "p \<notin> set ps" "0 < p_ref b"
    by (auto simp: chain_held_def split: option.splits)
  show ?thesis
  proof (cases "p_next b")
    case None
    then have "ps = []" using b(3) by simp
    with None b x show ?thesis by (simp add: IoRxBuffer_free_def prog_simps chain_held_def)
  next
    case (Some q)
    with b(3) obtain c qs where ps: "ps = q # qs" "?h q = Some c" by (auto simp: chain_Some)
    with ch have c: "0 < p_ref c" "q \<noteq> p" "distinct ps" using b(4) by (auto simp: chain_held_def)
    from pbuf_freed_first [OF b(2,5) Some c(2) ps(2) c(1)] obtain h' d where
      fr: "pbuf_freed (?h(q \<mapsto> c\<lparr>p_ref := Suc (p_ref c)\<rparr>)) p h'"
      and h': "\<And>a. a \<noteq> p \<Longrightarrow> a \<noteq> q \<Longrightarrow> h' a = ?h a" "h' q = Some d" "p_next d = p_next c" "0 < p_ref d" by blast
    let ?n = "pbuf_ref P q (net w)"
    have n: "pbufs ?n = ?h(q \<mapsto> c\<lparr>p_ref := Suc (p_ref c)\<rparr>)" using pbuf_contractD(3) [OF P ps(2)] .
    then have f: "pbufs (pbuf_free P p ?n) = h'" using fr pbuf_contractD(1) [OF P, of ?n p h'] by simp
    have "chain h' (Some q) ps = chain ?h (Some q) ps"
      using h' ps(2) b(4) by (intro chain_cong) (metis option.simps(9))
    moreover have "0 < p_ref e" if "a \<in> set ps" "h' a = Some e" for a e
    proof (cases "a = q")
      case False
      moreover have "a \<noteq> p" using that(1) b(4) by auto
      ultimately have "?h a = Some e" using that(2) h'(1) by simp
      with that(1) ch show ?thesis by (auto simp: chain_held_def)
    qed (use that h' in auto)
    ultimately have "chain_held h' (Some q) ps" using b(3) Some c(3) by (auto simp: chain_held_def)
    with x b Some ps(2) n f c(2) show ?thesis by (simp add: IoRxBuffer_free_def prog_simps)
  qed
qed

lemma IoRxBuffer_slowPath_stops:
  fixes P :: "'h platform" and w :: "'h world"
  assumes P: "pbuf_contract P" and x: "rx_bufs w r = Some x" "chain_held (pbufs (net w)) (rx_head x) ps"
  shows "run_loop Diverges (IoRxBuffer_slowStep P r) l w \<noteq> Inl Diverges"
  using x
proof (induction ps arbitrary: l w x)
  case Nil
  then show ?case
    by (subst run_loop_unfold) (simp add: IoRxBuffer_slowStep_def prog_simps chain_held_def split: prod.splits)
next
  case (Cons p ps)
  obtain rem con where l: "l = (rem, con)" by (cases l)
  from Cons.prems(2) obtain b where b: "rx_head x = Some p" "pbufs (net w) p = Some b"
    by (auto simp: chain_held_def split: option.splits)
  from IoRxBuffer_free_chain [OF P Cons.prems] obtain w' x' where
    w': "IoRxBuffer_free P r w = Inr ((), w')" "rx_bufs w' r = Some x'" "chain_held (pbufs (net w')) (rx_head x') ps" by blast
  show ?case
    using Cons.IH [OF w'(2,3)] Cons.prems(1) b w'(1)
    by (subst run_loop_unfold) (simp add: l IoRxBuffer_slowStep_def prog_simps Let_def)
qed

text \<open>A receive buffer whose chain ends.\<close>

definition rx_chain_ends :: "addr \<Rightarrow> 'h world \<Rightarrow> bool" where
  "rx_chain_ends r w \<longleftrightarrow> (\<forall>x. rx_bufs w r = Some x \<longrightarrow> (\<exists>ps. chain_held (pbufs (net w)) (rx_head x) ps))"

lemma IoRxBuffer_peekConsume_stops:
  assumes "pbuf_contract P" "rx_chain_ends r w"
  shows "IoRxBuffer_peekConsume P r n w \<noteq> Inl Diverges"
proof (cases "rx_bufs w r")
  case None
  then show ?thesis by (simp add: IoRxBuffer_peekConsume_def prog_simps)
next
  case (Some x)
  with assms(2) obtain ps where "chain_held (pbufs (net w)) (rx_head x) ps" by (auto simp: rx_chain_ends_def)
  from IoRxBuffer_slowPath_stops [OF assms(1) Some this] have slow: "IoRxBuffer_slowPath P r k w \<noteq> Inl Diverges" for k
    by (simp add: IoRxBuffer_slowPath_def)
  have "stops (pbind (get_rx r) (\<lambda>y. when_p (rx_pcb y \<noteq> None \<and> 0 < c) (IoRxBuffer_toAck P r c)))" for c
    by (intro stops_intros IoRxBuffer_toAck_stops)
  note acks = stopsD [OF this]
  have "(if b then IoRxBuffer_fastPath P r n else IoRxBuffer_slowPath P r n) w \<noteq> Inl Diverges" for b
    using slow [of n] stopsD [OF IoRxBuffer_fastPath_stops, of P r n w] by simp
  with acks show ?thesis
    by (auto simp: IoRxBuffer_peekConsume_def pbind_apply [of "get_rx r" _ w] pbind_apply [of "get_pbuf _" _ w]
        pbind_apply [of "deref _ _" _ w] pbind_apply [of "if _ then _ else _" _ w] lookup_obj_def get_pbuf_def Some Let_def
        split: option.splits sum.splits)
qed

section \<open>Every action\<close>

lemma IoRxBuffer_reset_stops: "stops (IoRxBuffer_reset P r)"
  unfolding IoRxBuffer_reset_def by (intro stops_intros)

lemma upd_stops [stops_intros]: "stops (upd_ctx c f)" "stops (upd_client cl g)"
  unfolding upd_ctx_def upd_client_def by (intro stops_intros)+

lemma TcpClientContext_delete_stops: "stops (TcpClientContext_delete P c)"
  unfolding TcpClientContext_delete_def TcpClientContext_cleanupRxBuffer_def TcpClientContext_cleanupTxWriter_def
    TcpWriter_delete_def IoRxBuffer_delete_def
  by (intro stops_intros IoRxBuffer_reset_stops)

lemma TcpClientContext_close_stops: "stops (TcpClientContext_close P c)"
  unfolding TcpClientContext_close_def TcpClientContext_detach_def
  by (intro stops_intros IoRxBuffer_reset_stops)

lemma TcpClientContext_new_stops: "stops (TcpClientContext_new P p)"
  unfolding TcpClientContext_new_def TcpClientContext_initRxBuffer_def TcpClientContext_initTxWriter_def
    IoRxBuffer_new_def TcpWriter_new_def IoRxBuffer_setOnFinCallback_def IoRxBuffer_setOnReceivedCallback_def
    TcpWriter_setOnAckCallback_def
  by (intro stops_intros)

lemma TcpClient_attach_stops: "stops (TcpClient_attach cl c)"
  unfolding TcpClient_attach_def TcpClientContext_setClientId_def TcpClientContext_setTimeout_def
    TcpClientContext_setOnConnectCallback_def TcpClientContext_setOnErrorCallback_def
    TcpClientContext_setOnFinCallback_def TcpClientContext_setOnReceivedCallback_def
    TcpClientContext_setOnPollCallback_def TcpClientContext_setOnAckCallback_def
  by (intro stops_intros)

lemma TcpClient_setNoDelay_stops: "stops (TcpClient_setNoDelay P cl b)"
  unfolding TcpClient_setNoDelay_def TcpClientContext_setNoDelay_def by (intro stops_intros)

lemma TcpClient_ts_connect_stops: "stops (TcpClient_ts_connect P cl ip port)"
  unfolding TcpClient_ts_connect_def TcpClient_assignPort_def TcpClientContext_connect_def
  by (intro stops_intros TcpClientContext_new_stops TcpClient_attach_stops TcpClientContext_delete_stops
      TcpClient_setNoDelay_stops) simp_all

lemma call_err_stops: "stops (call_err P cb e)"
  by (cases "(P, cb, e)" rule: call_err.cases)
    (auto simp: TcpClient_onErrorCallback_def give_workload_def run_bridge_def intro!: stops_intros)

lemma call_void_stops: "stops (call_void P cb)"
  by (cases "(P, cb)" rule: call_void.cases)
    (auto simp: TcpClient_onConnectCallback_def TcpClient_remoteIP_def TcpClientContext_getRemoteAddress_def
      TcpClient_onFinCallback_def TcpClientContext_getTxWriter_def TcpClientContext_getRxBuffer_def TcpWriter_onError_def
      TcpClient_onReceiveCallback_def TcpClient_onPollCallback_def give_workload_def run_bridge_def intro!: stops_intros)

lemma call_rx_stops: "stops (call_rx P cb)"
  by (cases "(P, cb)" rule: call_rx.cases) (auto intro!: stops_intros call_void_stops)

lemma lwip_receive_callback_stops: "stops (lwip_receive_callback P arg p q e)"
  unfolding lwip_receive_callback_def IoRxBuffer_take_def IoRxBuffer_onReceivedCallback_def IoRxBuffer_onFinCallback_def
    TcpClientContext_getRxBuffer_def
  by (intro stops_intros call_rx_stops) simp_all

lemma report_stops: "stops (report P p ev)"
proof (cases ev)
  case (Sent len)
  then show ?thesis
    by (auto simp: lwip_sent_event_def lwip_sent_cb_def TcpClientContext_getTxWriter_def TcpWriter_onAckCallback_def
        intro!: stops_intros)
next
  case Poll
  then show ?thesis
    by (auto simp: lwip_poll_event_def TcpClientContext_s_poll_def TcpClientContext_poll_def
        intro!: stops_intros call_void_stops)
next
  case Connected
  then show ?thesis
    by (auto simp: lwip_connected_event_def TcpClientContext_s_connected_def TcpClientContext_connected_def
        intro!: stops_intros call_void_stops)
next
  case (Error e)
  then show ?thesis
    by (auto simp: lwip_error_event_def TcpClientContext_s_error_def TcpClientContext_error_def
        intro!: stops_intros call_err_stops)
qed (auto simp: lwip_recv_event_def intro!: stops_intros lwip_receive_callback_stops)

lemma install_accessor_stops: "stops (install_accessor cl)"
  by (simp add: stops_def install_accessor_apply split: option.splits)

lemma set_bridge_stops: "stops (set_bridge slot cl b)"
  by (cases slot) (auto simp: TcpClient_setOnReceivedCallback_def TcpClient_setOnConnectedCallback_def
      TcpClient_setOnFinCallback_def TcpClient_setOnErrorCallback_def TcpClient_setOnPollCallback_def
      TcpClient_setOnAckCallback_def intro!: stops_intros)

lemma TcpClient_stop_stops: "stops (TcpClient_stop P cl)"
  unfolding TcpClient_stop_def by (intro stops_intros TcpClientContext_close_stops)

lemma TcpClient_writeChunk_stops: "stops (TcpClient_writeChunk P cl d n)"
  unfolding TcpClient_writeChunk_def TcpClientContext_writeChunk_def Let_def
  by (intro stops_intros call_err_stops) simp_all

lemma client_part_stops: "stops (client_part part cl)"
  unfolding client_part_def the_ctx_def by (intro stops_intros) simp_all

lemma ask_stops: "stops (ask P cl q)"
  by (cases q) (auto simp: query_defs intro!: stops_intros)

lemma upd_client_stops: "stops (upd_client cl f)"
  by (simp add: stops_def upd_client_apply split: option.splits)

text \<open>Every operation except the one that follows the chain of pbufs.\<close>

lemma call_op_stops: "(\<And>n. oper \<noteq> Consume n) \<Longrightarrow> stops (call_op P cl oper)"
proof (cases oper)
  case (Keep_alive i v k)
  then show ?thesis
    by (auto simp: TcpClient_keepAlive_def the_ctx_def TcpClientContext_keepAlive_def intro!: stops_intros)
next
  case Status
  then show ?thesis
    by (auto simp: drop_val_def TcpClient_ts_status_def TcpClientContext_state_def intro!: stops_intros)
next
  case Destroy
  then show ?thesis by (auto simp: TcpClient_delete_def intro!: stops_intros TcpClientContext_delete_stops)
next
  case Shutdown
  then show ?thesis
    by (auto simp: drop_val_def TcpClient_shutdown_def intro!: stops_intros TcpClientContext_delete_stops TcpClient_stop_stops)
next
  case (Ask q)
  then show ?thesis by (simp add: ask_stops)
next
  case (Set_client_id i)
  then show ?thesis by (simp add: TcpClient_setClientId_def upd_client_stops)
next
  case (Set_write_callback f)
  then show ?thesis by (simp add: TcpClient_setWriteCallback_def upd_client_stops)
next
  case Available
  then show ?thesis by (auto simp: drop_val_def IoRxBuffer_peekAvailable_def intro!: stops_intros client_part_stops)
next
  case Peek
  then show ?thesis by (auto simp: drop_val_def IoRxBuffer_peek_def intro!: stops_intros client_part_stops)
qed (auto simp: drop_val_def intro!: stops_intros TcpClient_ts_connect_stops TcpClient_stop_stops client_part_stops
    TcpWriter_writeData_stops TcpClient_writeChunk_stops TcpClient_setNoDelay_stops set_bridge_stops install_accessor_stops)

lemma consume_stops:
  assumes "pbuf_contract P" "\<And>r. rx_chain_ends r w"
  shows "call_op P cl (Consume n) w \<noteq> Inl Diverges"
proof (cases "client_part ctx_rx cl w")
  case (Inl e)
  with stopsD [OF client_part_stops, of ctx_rx cl w] show ?thesis by (simp add: pbind_apply)
next
  case (Inr v)
  moreover obtain r where "v = (r, w)"
    using Inr by (auto simp: client_part_def the_ctx_def pbind_eq_Inr lookup_obj_def deref_def split: option.splits)
  ultimately show ?thesis using IoRxBuffer_peekConsume_stops [OF assms] by (simp add: pbind_apply)
qed

section \<open>Properties\<close>

text \<open>
  C16. Every operation and every event stops, in every state, on every platform, whether or not its
  precondition holds; consuming data stops if \<open>pbuf_free\<close> and \<open>pbuf_ref\<close> count references as documented
  and the chains of the receive buffers end, whatever the lengths of their pbufs and the cursor are.
\<close>

theorem every_action_terminates:
  assumes "\<And>cl n. act = Call cl (Consume n) \<Longrightarrow> pbuf_contract P \<and> (\<forall>r. rx_chain_ends r w)"
  shows "perform P act w \<noteq> Inl Diverges"
proof (cases "\<exists>cl n. act = Call cl (Consume n)")
  case True
  then obtain cl n where act: "act = Call cl (Consume n)" by blast
  with assms consume_stops [of P w cl n] show ?thesis by simp
next
  case False
  have "stops (perform P act)"
  proof (cases act)
    case New
    then show ?thesis by (auto simp: drop_val_def TcpClient_new_def intro!: stops_intros)
  next
    case (Call cl oper)
    with False have "\<And>n. oper \<noteq> Consume n" by auto
    with Call call_op_stops show ?thesis by auto
  qed (simp_all add: report_stops TcpClient_setLocalPortStart_def TcpClient_setDefaultNoDelay_def stops_basic)
  then show ?thesis by (simp add: stopsD)
qed

text \<open>A connected client whose receive buffer has a chain of two pbufs, of which it consumes more than the first holds.\<close>

lemma sample_chains_end: "rx_chain_ends r sample_conn_world"
proof -
  have "chain_held (pbufs (net sample_conn_world)) (Some 1) [1, 2]"
    by (auto simp add: chain_held_def sample_conn_simps)
  then show ?thesis by (auto simp: rx_chain_ends_def sample_conn_simps)
qed

theorem every_action_terminates_witness:
  "perform sample (Call 30 (Consume 3)) sample_conn_world \<noteq> Inl Diverges \<and>
    (\<exists>w' ps. perform sample (Call 30 (Consume 3)) sample_conn_world = Inr ((), w') \<and> rx_rep 50 ps [50] w' \<and>
      acked (calls w') 7 = 3)"
proof -
  have "perform sample (Call 30 (Consume 3)) sample_conn_world \<noteq> Inl Diverges"
    by (rule every_action_terminates) (simp add: sample_chains_end sample_pbuf_contract)
  moreover have "client_part ctx_rx 30 sample_conn_world = Inr (50, sample_conn_world)"
    by (simp add: client_part_def the_ctx_def prog_simps sample_conn_simps)
  moreover have "rx_pcb_live 50 sample_conn_world" "rx_pcb_of 50 sample_conn_world = Some 7" "calls sample_conn_world = []"
    by (simp_all add: rx_pcb_live_def rx_pcb_of_def sample_conn_simps)
  moreover have "drop (unat (3 :: size_t)) [20, 30, 40, 50 :: u8] = [50]" by simp
  moreover note IoRxBuffer_peekConsume_run [OF sample_pbuf_contract sample_recved_contract sample_conn_rep, of 3]
  ultimately show ?thesis by (auto simp: pbind_apply)
qed

end
