(* ===== verification/Local_Ports.thy ===== *)
theory Local_Ports
  imports Step_Frames Lifecycle
begin

text \<open>
  The local ports of connections. \<open>setLocalPortStart\<close> sets a counter that all clients share; every attempt to
  connect that gets a PCB takes the next number, whether lwIP then accepts the attempt or not, until the 16-bit
  counter wraps around to 0, which means that lwIP chooses. The counter is followed over any list of actions, and
  the number through \<open>_ts_connect\<close> to the port that the client reports.
\<close>

section \<open>Attempts and the counter\<close>

fun is_connect :: "ext_call \<Rightarrow> bool" where
  "is_connect (Tcp_connect p ip k) = True"
| "is_connect _ = False"

definition attempts :: "ext_call list \<Rightarrow> nat" where
  "attempts cs = length (filter is_connect cs)"

lemma attempts_simps [simp]: "attempts [] = 0" "attempts (cs @ ds) = attempts cs + attempts ds"
  "attempts (c # cs) = (if is_connect c then Suc (attempts cs) else attempts cs)"
  by (simp_all add: attempts_def)

lemma unat_next_port: "unat (next_port q) = (if unat q = 0 \<or> 2 ^ 16 \<le> unat q + 1 then 0 else unat q + 1)"
  using unat_u16_Suc [of q] by (auto simp: next_port_def word_gt_0 unat_eq_0)

lemma next_port_iterate:
  "unat ((next_port ^^ n) port) = (if unat port = 0 \<or> 2 ^ 16 \<le> unat port + n then 0 else unat port + n)"
proof (induction n)
  case 0
  then show ?case using unat_u16_less [of port] by auto
next
  case (Suc n)
  then show ?case using unat_next_port [of "(next_port ^^ n) port"] by (auto split: if_splits)
qed

text \<open>Whatever is neither an attempt to connect nor \<open>setLocalPortStart\<close> leaves both.\<close>

definition same_ports :: "'h world \<Rightarrow> 'h world \<Rightarrow> bool" where
  "same_ports w w' \<longleftrightarrow> s_localPort w' = s_localPort w \<and> attempts (calls w') = attempts (calls w)"

interpretation counter: open_frame same_ports "\<lambda>c. \<not> is_connect c" True False
proof unfold_locales
  show "\<not> is_connect c" if "\<And>p ip k. c = Tcp_connect p ip k \<Longrightarrow> False" for c using that by (cases c) auto
qed (auto simp: same_ports_def)

text \<open>One more attempt, with the counter as it was.\<close>

definition one_attempt :: "'h world \<Rightarrow> 'h world \<Rightarrow> bool" where
  "one_attempt w w' \<longleftrightarrow> s_localPort w' = s_localPort w \<and> attempts (calls w') = Suc (attempts (calls w))"

lemma one_attempt_same: "one_attempt u v \<Longrightarrow> same_ports v w \<Longrightarrow> one_attempt u w" "same_ports u v \<Longrightarrow> one_attempt v w \<Longrightarrow> one_attempt u w"
  by (simp_all add: one_attempt_def same_ports_def)

lemma TcpClientContext_connect_attempt: "TcpClientContext_connect P c ip port w = Inr (e, w') \<Longrightarrow> one_attempt w w'"
  by (auto simp: TcpClientContext_connect_def prog_simps one_attempt_def pbind_eq_Inr deref_def lookup_obj_def get_pcb_def on_pcb_def
      split: option.splits if_splits)

lemma finish_connect_attempt:
  assumes "finish_connect P cl c ip port w = Inr (v, w')"
  shows "one_attempt w w'"
proof -
  have rest: "settled same_ports (if res \<noteq> ERR_OK P then pseq (TcpClientContext_delete P c)
      (pseq (upd_client cl (cl_ctx_update (\<lambda>_. None))) (ret (scast res)))
      else pbind (gets s_defaultNoDelay) (\<lambda>d. pseq (TcpClient_setNoDelay P cl d) (ret (PICO_OK P))))" for res
    by (intro frame_intros counter.TcpClientContext_delete_settled counter.TcpClient_setNoDelay_settled counter.settled_any)
  from assms obtain e w1 where "TcpClientContext_connect P c ip port w = Inr (e, w1)"
    "(if e \<noteq> ERR_OK P then pseq (TcpClientContext_delete P c) (pseq (upd_client cl (cl_ctx_update (\<lambda>_. None))) (ret (scast e)))
      else pbind (gets s_defaultNoDelay) (\<lambda>d. pseq (TcpClient_setNoDelay P cl d) (ret (PICO_OK P)))) w1 = Inr (v, w')"
    unfolding finish_connect_def pbind_eq_Inr by blast
  then show ?thesis using TcpClientContext_connect_attempt settledD [OF rest] one_attempt_same(1) by blast
qed

text \<open>\<open>_ts_connect\<close> makes an attempt and takes a number exactly if the client is idle and lwIP has a PCB.\<close>

definition gets_pcb :: "'h platform \<Rightarrow> addr \<Rightarrow> 'h world \<Rightarrow> bool" where
  "gets_pcb P cl w \<longleftrightarrow> (\<exists>k. clients w cl = Some k \<and> cl_ctx k = None) \<and> fst (tcp_new P (net w)) \<noteq> None"

definition rest_of_connect :: "'h platform \<Rightarrow> addr \<Rightarrow> ip_addr \<Rightarrow> u16 \<Rightarrow> addr \<Rightarrow> ('h, cint) cprog" where
  "rest_of_connect P cl ip port pcb =
     pbind (TcpClientContext_new P pcb) (\<lambda>c.
     pseq (upd_client cl (cl_ctx_update (\<lambda>_. Some c)))
    (pseq (TcpClient_attach cl c) (finish_connect P cl c ip port)))"

lemma ts_connect_with_pcb:
  assumes "clients w cl = Some k" "cl_ctx k = None" "fst (tcp_new P (net w)) = Some p"
  shows "TcpClient_ts_connect P cl ip port w = pseq (TcpClient_assignPort p) (rest_of_connect P cl ip port p)
    (w\<lparr>net := snd (tcp_new P (net w)), calls := calls w @ [Tcp_new]\<rparr>)"
  using assms by (simp add: TcpClient_ts_connect_def rest_of_connect_def finish_connect_def prog_simps)

lemma rest_of_connect_attempt:
  assumes "rest_of_connect P cl ip port p w = Inr (v, w')"
  shows "one_attempt w w'"
proof -
  from assms obtain c w1 u w2 u' w3 where new: "TcpClientContext_new P p w = Inr (c, w1)"
    and upd: "upd_client cl (cl_ctx_update (\<lambda>_. Some c)) w1 = Inr (u, w2)" and att: "TcpClient_attach cl c w2 = Inr (u', w3)"
    and fin: "finish_connect P cl c ip port w3 = Inr (v, w')"
    unfolding rest_of_connect_def pbind_eq_Inr pseq_eq_Inr by blast
  note same = settledD [OF counter.TcpClientContext_new_settled new] settledD [OF counter.settled_any(2) upd]
    settledD [OF counter.TcpClient_attach_settled att]
  from finish_connect_attempt [OF fin] same show ?thesis by (simp add: one_attempt_def same_ports_def)
qed

lemma ts_connect_counts:
  assumes "TcpClient_ts_connect P cl ip port w = Inr (v, w')"
  shows "if gets_pcb P cl w then s_localPort w' = next_port (s_localPort w) \<and> attempts (calls w') = Suc (attempts (calls w))
    else same_ports w w'"
proof (cases "gets_pcb P cl w")
  case True
  then obtain k p where k: "clients w cl = Some k" "cl_ctx k = None" "fst (tcp_new P (net w)) = Some p" by (auto simp: gets_pcb_def)
  from assms [unfolded ts_connect_with_pcb [OF k] pseq_eq_Inr] obtain u w1 where
    "TcpClient_assignPort p (w\<lparr>net := snd (tcp_new P (net w)), calls := calls w @ [Tcp_new]\<rparr>) = Inr (u, w1)"
    and rest: "rest_of_connect P cl ip port p w1 = Inr (v, w')" by blast
  then have "s_localPort w1 = next_port (s_localPort w)" "attempts (calls w1) = attempts (calls w)"
    by (auto simp: TcpClient_assignPort_def next_port_def prog_simps when_p_def get_pcb_def pbind_eq_Inr split: option.splits if_splits)
  with rest_of_connect_attempt [OF rest] True show ?thesis by (simp add: one_attempt_def)
next
  case False
  with assms show ?thesis
    by (auto simp: gets_pcb_def TcpClient_ts_connect_def prog_simps same_ports_def lookup_obj_def pbind_eq_Inr split: option.splits if_splits)
qed

lemma perform_counts:
  assumes run: "perform P act w = Inr ((), w')" and act: "\<And>q. act \<noteq> Port_start q"
  obtains n where "attempts (calls w') = attempts (calls w) + n" "s_localPort w' = (next_port ^^ n) (s_localPort w)"
proof -
  consider cl ip port where "act = Call cl (Connect ip port)" | cl where "act = Call cl Set_accessor"
    | "\<And>cl ip port. act \<noteq> Call cl (Connect ip port)" "\<And>cl. act \<noteq> Call cl Set_accessor" by blast
  then show thesis
  proof cases
    case (1 cl ip port)
    with run obtain v where "TcpClient_ts_connect P cl ip port w = Inr (v, w')"
      by (auto simp: drop_val_def pbind_eq_Inr)
    from ts_connect_counts [OF this] that [of 0] that [of 1] show thesis
      by (auto simp: same_ports_def split: if_splits)
  next
    case (2 cl)
    with run that [of 0] show thesis by (auto simp: install_accessor_apply split: option.splits if_splits)
  next
    case 3
    with act settledD [OF counter.perform_settled run] have "same_ports w w'" by auto
    with that [of 0] show thesis by (simp add: same_ports_def)
  qed
qed

lemma perform_all_counts:
  assumes "perform_all P acts w = Inr ((), w')" "\<forall>q. Port_start q \<notin> set acts"
  shows "\<exists>n. attempts (calls w') = attempts (calls w) + n \<and> s_localPort w' = (next_port ^^ n) (s_localPort w)"
  using assms
proof (induction acts arbitrary: w)
  case Nil
  then show ?case by (intro exI [of _ 0]) simp
next
  case (Cons act acts)
  from Cons.prems obtain w1 where w1: "perform P act w = Inr ((), w1)" "perform_all P acts w1 = Inr ((), w')"
    by (auto simp: pseq_eq_Inr)
  from perform_counts [OF w1(1)] Cons.prems(2) obtain n where
    n: "attempts (calls w1) = attempts (calls w) + n" "s_localPort w1 = (next_port ^^ n) (s_localPort w)" by auto
  from Cons.IH [OF w1(2)] Cons.prems(2) obtain m where
    "attempts (calls w') = attempts (calls w1) + m" "s_localPort w' = (next_port ^^ m) (s_localPort w1)" by auto
  with n show ?case by (intro exI [of _ "m + n"]) (simp add: funpow_add)
qed

section \<open>The port of a connection\<close>

text \<open>
  lwIP chooses a port only for a PCB that has none: what sets up and connects a PCB, and freeing pbufs, leaves a
  port that has been set, of this PCB and of others.
\<close>

definition ports_kept :: "'h net \<Rightarrow> 'h net \<Rightarrow> bool" where
  "ports_kept n N \<longleftrightarrow> (\<forall>q b. pcbs n q = Some b \<longrightarrow> local_port b \<noteq> 0 \<longrightarrow>
     (\<exists>b'. pcbs N q = Some b' \<and> local_port b' = local_port b))"

definition port_contract :: "'h platform \<Rightarrow> bool" where
  "port_contract P \<longleftrightarrow> (\<forall>n p. (\<forall>u. ports_kept n (tcp_setprio P p u n)) \<and> (\<forall>a. ports_kept n (tcp_arg P p a n)) \<and>
     (\<forall>f. ports_kept n (tcp_recv P p f n)) \<and> (\<forall>f. ports_kept n (tcp_sent P p f n)) \<and>
     (\<forall>f. ports_kept n (tcp_err P p f n)) \<and> (\<forall>f u. ports_kept n (tcp_poll P p f u n)) \<and>
     (\<forall>a k f. ports_kept n (snd (tcp_connect P p a k f n))) \<and>
     ports_kept n (tcp_nagle_disable P p n) \<and> ports_kept n (tcp_nagle_enable P p n) \<and> ports_kept n (pbuf_free P p n))"

definition bound_to :: "addr \<Rightarrow> u16 \<Rightarrow> 'h world \<Rightarrow> bool" where
  "bound_to p port w \<longleftrightarrow> port \<noteq> 0 \<and> (\<exists>b. pcbs (net w) p = Some b \<and> local_port b = port)"

interpretation unrestricted: open_frame "\<lambda>_ _. True" "\<lambda>_. True" True True
  by unfold_locales simp_all

lemma bound_ext:
  "(\<And>n. ports_kept n (f n)) \<Longrightarrow> framed (\<lambda>_ _. True) (bound_to p port) (ext c f)"
  "(\<And>n. ports_kept n (snd (g n))) \<Longrightarrow> framed (\<lambda>_ _. True) (bound_to p port) (ext_val c g)"
  by (fastforce simp: framed_def bound_to_def ports_kept_def)+

lemma bound_objects:
  "framed (\<lambda>_ _. True) (bound_to p port) (upd_ctx c f)" "framed (\<lambda>_ _. True) (bound_to p port) (upd_client cl g)"
  "framed (\<lambda>_ _. True) (bound_to p port) (put_rx r x)" "framed (\<lambda>_ _. True) (bound_to p port) (put_tx t z)"
  "framed (\<lambda>_ _. True) (bound_to p port) (new_rx x1)" "framed (\<lambda>_ _. True) (bound_to p port) (new_tx x2)"
  "framed (\<lambda>_ _. True) (bound_to p port) (new_ctx x3)"
  "framed (\<lambda>_ _. True) (bound_to p port) (modify (\<lambda>w. w\<lparr>rx_bufs := (rx_bufs w)(a := None)\<rparr>))"
  "framed (\<lambda>_ _. True) (bound_to p port) (modify (\<lambda>w. w\<lparr>writers := (writers w)(a := None)\<rparr>))"
  "framed (\<lambda>_ _. True) (bound_to p port) (modify (\<lambda>w. w\<lparr>contexts := (contexts w)(a := None)\<rparr>))"
  by (auto simp: framed_def bound_to_def upd_ctx_apply upd_client_apply new_defs split: option.splits)

lemmas bound_intros = frame_intros bound_ext bound_objects

lemma rest_of_connect_bound:
  assumes "port_contract P"
  shows "framed (\<lambda>_ _. True) (bound_to q port) (rest_of_connect P cl ip rport p)"
proof -
  let ?R = "\<lambda>_ _ :: 'h world. True"
  have kept: "ports_kept n (tcp_setprio P a u n)" "ports_kept n (tcp_arg P a b n)" "ports_kept n (tcp_recv P a f n)"
    "ports_kept n (tcp_sent P a f n)" "ports_kept n (tcp_err P a f n)" "ports_kept n (tcp_poll P a f u n)"
    "ports_kept n (snd (tcp_connect P a i k g n))" "ports_kept n (tcp_nagle_disable P a n)" "ports_kept n (tcp_nagle_enable P a n)"
    "ports_kept n (pbuf_free P a n)" for n a u b f i k g
    using assms by (simp_all add: port_contract_def)
  have "framed ?R (bound_to q port) (TcpClientContext_new P p)"
    unfolding TcpClientContext_new_def TcpClientContext_initRxBuffer_def TcpClientContext_initTxWriter_def
      IoRxBuffer_new_def TcpWriter_new_def IoRxBuffer_setOnFinCallback_def IoRxBuffer_setOnReceivedCallback_def
      TcpWriter_setOnAckCallback_def
    by (intro bound_intros kept)
  moreover have "framed ?R (bound_to q port) (TcpClient_attach cl c)" for c
    unfolding TcpClient_attach_def TcpClientContext_setClientId_def TcpClientContext_setTimeout_def
      TcpClientContext_setOnConnectCallback_def TcpClientContext_setOnErrorCallback_def
      TcpClientContext_setOnFinCallback_def TcpClientContext_setOnReceivedCallback_def
      TcpClientContext_setOnPollCallback_def TcpClientContext_setOnAckCallback_def
    by (intro bound_intros kept)
  moreover have "framed ?R (bound_to q port) (TcpClientContext_delete P c)" for c
    unfolding TcpClientContext_delete_def TcpClientContext_cleanupRxBuffer_def TcpClientContext_cleanupTxWriter_def
      TcpWriter_delete_def IoRxBuffer_delete_def IoRxBuffer_reset_def
    by (intro bound_intros kept)
  moreover have "framed ?R (bound_to q port) (TcpClientContext_connect P c ip rport)" for c
    unfolding TcpClientContext_connect_def by (intro bound_intros kept)
  moreover have "framed ?R (bound_to q port) (TcpClient_setNoDelay P cl d)" for d
    unfolding TcpClient_setNoDelay_def TcpClientContext_setNoDelay_def by (intro bound_intros kept)
  ultimately show ?thesis unfolding rest_of_connect_def finish_connect_def by (intro bound_intros)
qed

lemma connect_binds:
  assumes C: "port_contract P" and k: "clients w cl = Some k" "cl_ctx k = None" "fst (tcp_new P (net w)) = Some p"
    and lp: "0 < s_localPort w" and run: "TcpClient_ts_connect P cl ip rport w = Inr (v, w')"
  shows "bound_to p (s_localPort w) w'"
proof -
  from run [unfolded ts_connect_with_pcb [OF k] pseq_eq_Inr] obtain w1 where
    "TcpClient_assignPort p (w\<lparr>net := snd (tcp_new P (net w)), calls := calls w @ [Tcp_new]\<rparr>) = Inr ((), w1)"
    and rest: "rest_of_connect P cl ip rport p w1 = Inr (v, w')" by blast
  then have "bound_to p (s_localPort w) w1"
    using lp by (auto simp: TcpClient_assignPort_def bound_to_def prog_simps get_pcb_def pbind_eq_Inr split: option.splits)
  with rest rest_of_connect_bound [OF C] show ?thesis unfolding framed_def by blast
qed

lemma established_localPort:
  assumes "established cl k p w" "bound_to p port w"
  shows "TcpClient_localPort cl w = Inr (port, w)"
  using assms by (auto simp: established_def conn_def bound_to_def TcpClient_localPort_def TcpClientContext_getLocalPort_def prog_simps)

section \<open>Properties\<close>

text \<open>A client at address 100 that has connected from the local port 65534 and been shut down.\<close>

lemma sample_port_contract: "port_contract sample"
  by (auto simp: port_contract_def ports_kept_def sample_def upd_pcb_def split: option.splits)

lemma sample_reused:
  obtains w where "perform_all sample [Port_start 65534, New, Call 100 (Connect 1 80), Call 100 Shutdown] sample_start = Inr ((), w)"
    "attempts (calls w) = 1" "client_at 100 Idle w" "pcbs (net w) 7 = None"
proof -
  let ?v0 = "sample_start\<lparr>s_localPort := 65534\<rparr>"
  let ?v1 = "?v0\<lparr>clients := [100 \<mapsto> \<lparr>cl_received_bridge = None, cl_connected_bridge = None, cl_fin_bridge = None,
       cl_error_bridge = None, cl_poll_bridge = None, cl_ack_bridge = None, cl_ctx = None,
       cl_sync_accessor = None, cl_client_id = 0, cl_timeout = 5000, cl_write_callback = None\<rparr>], fresh := 101\<rparr>"
  have new: "perform sample New ?v0 = Inr ((), ?v1)"
    by (simp add: TcpClient_new_def new_defs drop_val_def prog_simps sample_start_def sample_world_def)
  have "initial ?v0" using sample_initial by (simp add: initial_def)
  then have r1: "reachable sample ?v1"
    using run.stay reachable_step [OF _ _ new] unfolding reachable_def by fastforce
  have "fst (tcp_new sample (net ?v1)) = Some 7"
    by (intro sample_new_pcb) (simp add: sample_start_def sample_world_def sample_net_def)
  from reconnect_accepted [OF sample_all_contracts r1 _ this sample_connect_answers, of 100 1 80] obtain v2 where
    v2: "TcpClient_ts_connect sample 100 1 80 ?v1 = Inr (PICO_OK sample, v2)" "reachable sample v2" "client_at 100 (Open 7 [] 0) v2"
    by auto
  have "\<not> failed (Open 7 [] 0)" by simp
  from shutdown_idles [OF sample_all_contracts v2(2,3) this] obtain res w where
    w: "TcpClient_shutdown sample 100 v2 = Inr (res, w)" "client_at 100 Idle w" by blast
  have "gets_pcb sample 100 ?v1" using \<open>fst _ = Some 7\<close> by (simp add: gets_pcb_def)
  then have "attempts (calls v2) = 1" using ts_connect_counts [OF v2(1)] by (simp add: sample_start_def sample_world_def)
  moreover have "same_ports v2 w"
    by (rule settledD [OF counter.perform_settled, where act1 = "Call 100 Shutdown" and P1 = sample and v = "()"])
      (use w(1) in \<open>simp_all add: drop_val_Inr\<close>)
  moreover have "perform_all sample [Port_start 65534, New, Call 100 (Connect 1 80), Call 100 Shutdown] sample_start = Inr ((), w)"
    using new v2(1) w(1) by (simp add: TcpClient_setLocalPortStart_def pseq_apply drop_val_Inr)
  ultimately show thesis using that w shutdown_frees_pcb [OF sample_all_contracts v2(3) w(1)] by (simp add: same_ports_def)
qed

text \<open>
  C28. The \<open>n\<close>-th attempt to connect after \<open>setLocalPortStart(port)\<close>, counted from 0 over all clients and whether
  lwIP accepts them or not, uses the local port \<open>port + n\<close>, as long as this is a port number; so no two of them use
  the same. When lwIP accepts the attempt, the connection is complete and \<open>localPort()\<close> reports this port. After port
  65535 the counter has wrapped around to 0 and stays there: from then on the library sets no port and lwIP chooses.
  Whatever else is done in between makes no difference.
\<close>

theorem local_ports_in_sequence:
  assumes "open_contract P" and "reg_contract P" and "port_contract P" and "0 < port"
    and "perform_all P (Port_start port # acts) w = Inr ((), w1)" and "\<forall>q. Port_start q \<notin> set acts"
    and "attempts (calls w1) = attempts (calls w) + n"
    and "clients w1 cl = Some k" and "cl_ctx k = None" and "fst (tcp_new P (net w1)) = Some p"
    and "connect_answers P p rport (ERR_OK P)"
  shows "\<exists>w2. TcpClient_ts_connect P cl ip rport w1 = Inr (PICO_OK P, w2) \<and> established cl k p w2 \<and>
    attempts (calls w2) = Suc (attempts (calls w1)) \<and>
    (if unat port + n < 2 ^ 16 then TcpClient_localPort cl w2 = Inr (port + of_nat n, w2)
     else s_localPort w1 = 0 \<and> s_localPort w2 = 0)"
proof -
  from assms(5) have "perform_all P acts (w\<lparr>s_localPort := port\<rparr>) = Inr ((), w1)"
    by (simp add: TcpClient_setLocalPortStart_def prog_simps)
  from perform_all_counts [OF this assms(6)] assms(7) have counter: "s_localPort w1 = (next_port ^^ n) port" by auto
  have pos: "unat port \<noteq> 0" using assms(4) by (simp add: word_gt_0 unat_eq_0)
  from ts_connect_ok_run [OF assms(1,2,8-11), of ip] obtain w2 where
    w2: "TcpClient_ts_connect P cl ip rport w1 = Inr (PICO_OK P, w2)" "established cl k p w2" by blast
  have count: "s_localPort w2 = next_port (s_localPort w1) \<and> attempts (calls w2) = Suc (attempts (calls w1))"
    using ts_connect_counts [OF w2(1)] assms(8-10) by (simp add: gets_pcb_def)
  show ?thesis
  proof (cases "unat port + n < 2 ^ 16")
    case True
    then have "unat (s_localPort w1) = unat port + n" using counter next_port_iterate [of n port] pos by simp
    then have "s_localPort w1 = port + of_nat n" "0 < s_localPort w1"
      using True pos by (simp_all add: word_unat_eq_iff unat_word_ariths unat_of_nat take_bit_nat_def word_less_nat_alt)
    with connect_binds [OF assms(3,8-10) _ w2(1)] established_localPort [OF w2(2)] w2 count True show ?thesis by metis
  next
    case False
    then have "s_localPort w1 = 0" using counter next_port_iterate [of n port] pos by (simp add: unat_eq_0 [symmetric])
    with w2 count False show ?thesis by (auto simp: next_port_def)
  qed
qed

theorem local_ports_in_sequence_witness:
  "\<exists>w1 w2. perform_all sample [Port_start 65534, New, Call 100 (Connect 1 80), Call 100 Shutdown] sample_start = Inr ((), w1) \<and>
    TcpClient_ts_connect sample 100 2 443 w1 = Inr (PICO_OK sample, w2) \<and> TcpClient_localPort 100 w2 = Inr (65535, w2)"
proof -
  obtain w1 where w1: "perform_all sample [Port_start 65534, New, Call 100 (Connect 1 80), Call 100 Shutdown] sample_start = Inr ((), w1)"
    "attempts (calls w1) = 1" "client_at 100 Idle w1" "pcbs (net w1) 7 = None" by (rule sample_reused)
  from w1(3) obtain k where k: "clients w1 100 = Some k" "cl_ctx k = None" by auto
  have "attempts (calls w1) = attempts (calls sample_start) + 1" using w1(2) by (simp add: sample_start_def sample_world_def)
  from local_ports_in_sequence [OF sample_open_contract sample_reg_contract sample_port_contract _ w1(1) _ this k
      sample_new_pcb(1) [OF w1(4)] sample_connect_answers, of 2 443] w1(1) show ?thesis by auto
qed

end
