(* ===== verification/Accessors.thy ===== *)
theory Accessors
  imports Step_Frames
begin

text \<open>
  A client owns its accessor and the accessor refers to its client. Whatever the actions, admissible or
  not, the two pointers agree.
\<close>

section \<open>The pointers in both directions\<close>

definition all_below :: "'h world \<Rightarrow> bool" where
  "all_below w \<longleftrightarrow> bounded w \<and> (\<forall>a. fresh w \<le> a \<longrightarrow> accessors w a = None)"

text \<open>
  A client's accessor exists and leads back to the client, so it is nobody else's; and every accessor is that
  of the client it leads to.
\<close>

definition accessor_of :: "addr \<Rightarrow> 'h world \<Rightarrow> addr option" where
  "accessor_of cl w = Option.bind (clients w cl) cl_sync_accessor"

definition accessors_ok :: "'h world \<Rightarrow> bool" where
  "accessors_ok w \<longleftrightarrow> all_below w \<and> (\<forall>cl a. accessor_of cl w = Some a \<longleftrightarrow> accessors w a = Some \<lparr>acc_io = cl\<rparr>)"

text \<open>
  What every action but \<open>Set_accessor\<close> and \<open>Destroy\<close> does to accessors and to the variables of calls in
  progress: nothing, and a new client has no accessor.
\<close>

definition cells_kept :: "'h world \<Rightarrow> 'h world \<Rightarrow> bool" where
  "cells_kept w w' \<longleftrightarrow> cells_u8 w' = cells_u8 w \<and> cells_int w' = cells_int w \<and> cells_ip w' = cells_ip w \<and>
     fresh w \<le> fresh w'"

definition leaves_access :: "'h world \<Rightarrow> 'h world \<Rightarrow> bool" where
  "leaves_access w w' \<longleftrightarrow> cells_kept w w' \<and> (all_below w \<longrightarrow> all_below w' \<and> accessors w' = accessors w \<and>
     (\<forall>cl. accessor_of cl w' = accessor_of cl w))"

interpretation waiting: open_frame leaves_access "\<lambda>_. True" False True
proof unfold_locales
  show "leaves_access u w" if "leaves_access u v" "leaves_access v w" for u v w :: "'h world"
    using that by (simp add: leaves_access_def cells_kept_def)
  show "leaves_access w (w\<lparr>clients := (clients w)(fresh w \<mapsto> k), fresh := Suc (fresh w)\<rparr>)" if "cl_sync_accessor k = None"
    for w :: "'h world" and k
    using that by (auto simp: leaves_access_def cells_kept_def all_below_def bounded_def accessor_of_def)
qed (auto simp: leaves_access_def cells_kept_def all_below_def bounded_def accessor_of_def client_kept_def split: if_splits)

lemma TcpClient_delete_access:
  assumes "TcpClient_delete P c w = Inr ((), w')"
  obtains w1 where "leaves_access w w1" "w' = w1\<lparr>accessors := (case accessor_of c w of None \<Rightarrow> accessors w1
    | Some a \<Rightarrow> (accessors w1)(a := None)), clients := (clients w1)(c := None)\<rparr>"
proof -
  from assms obtain k w1 where k: "clients w c = Some k" and del: "when_some (cl_ctx k) (TcpClientContext_delete P) w = Inr ((), w1)"
    and w': "w' = w1\<lparr>accessors := (case cl_sync_accessor k of None \<Rightarrow> accessors w1 | Some a \<Rightarrow> (accessors w1)(a := None)),
      clients := (clients w1)(c := None)\<rparr>"
    by (auto simp: TcpClient_delete_def pbind_eq_Inr pseq_eq_Inr lookup_obj_def when_some_def split: option.splits)
  have "settled leaves_access (when_some (cl_ctx k) (TcpClientContext_delete P))"
    by (intro frame_intros waiting.TcpClientContext_delete_settled)
  from settledD [OF this del] k w' show ?thesis by (intro that [of w1]) (simp_all add: accessor_of_def)
qed

lemma leaves_access_ok:
  assumes "leaves_access w w'" "accessors_ok w"
  shows "accessors_ok w'" "accessor_of cl w' = accessor_of cl w" "cells_kept w w'"
  using assms by (auto simp: leaves_access_def accessors_ok_def)

lemma accessors_okD: "accessors_ok w \<Longrightarrow> accessor_of cl w = Some a \<longleftrightarrow> accessors w a = Some \<lparr>acc_io = cl\<rparr>"
  by (simp add: accessors_ok_def)

text \<open>A new accessor, and the end of a client with its accessor.\<close>

lemma accessors_ok_new:
  assumes ok: "accessors_ok w" and none: "accessor_of c w = None" and below: "all_below w'"
    and acc: "\<And>cl. accessor_of cl w' = (if cl = c then Some (fresh w) else accessor_of cl w)"
    and new: "accessors w' = (accessors w)(fresh w \<mapsto> \<lparr>acc_io = c\<rparr>)"
  shows "accessors_ok w'"
  unfolding accessors_ok_def
proof (intro conjI allI below)
  fix cl a
  have "accessors w (fresh w) = None" using ok by (simp add: accessors_ok_def all_below_def)
  then show "accessor_of cl w' = Some a \<longleftrightarrow> accessors w' a = Some \<lparr>acc_io = cl\<rparr>"
    using accessors_okD [OF ok, of cl a] none by (auto simp: acc new)
qed

lemma accessors_ok_end:
  assumes ok: "accessors_ok w" and below: "all_below w'"
    and acc: "\<And>cl. accessor_of cl w' = (if cl = c then None else accessor_of cl w)"
    and gone: "accessors w' = (case accessor_of c w of None \<Rightarrow> accessors w | Some a \<Rightarrow> (accessors w)(a := None))"
  shows "accessors_ok w'"
  unfolding accessors_ok_def
proof (intro conjI allI below)
  fix cl a
  show "accessor_of cl w' = Some a \<longleftrightarrow> accessors w' a = Some \<lparr>acc_io = cl\<rparr>"
    using accessors_okD [OF ok, of cl a] accessors_okD [OF ok, of c a]
    by (cases "accessor_of c w") (auto simp: acc gone)
qed

text \<open>Every action keeps the accessors consistent, and only destroying a client takes its accessor away.\<close>

lemma perform_access:
  assumes ok: "accessors_ok w" and run: "perform P act w = Inr ((), w')"
  shows "accessors_ok w' \<and> cells_kept w w' \<and> (\<forall>cl a. accessor_of cl w = Some a \<longrightarrow> act \<noteq> Call cl Destroy \<longrightarrow> accessor_of cl w' = Some a)"
proof (cases "\<exists>c. act = Call c Set_accessor \<or> act = Call c Destroy")
  case False
  with settledD [OF waiting.perform_settled run] have "leaves_access w w'" by blast
  with leaves_access_ok [OF this ok] show ?thesis by simp
next
  case True
  then obtain c where "act = Call c Set_accessor \<or> act = Call c Destroy" by blast
  then show ?thesis
  proof
    assume "act = Call c Set_accessor"
    with run obtain k where k: "clients w c = Some k" "cl_sync_accessor k = None" and
      w': "w' = w\<lparr>accessors := (accessors w)(fresh w \<mapsto> \<lparr>acc_io = c\<rparr>), fresh := Suc (fresh w),
        clients := (clients w)(c \<mapsto> k\<lparr>cl_sync_accessor := Some (fresh w)\<rparr>)\<rparr>"
      by (auto simp: install_accessor_apply split: option.splits if_splits)
    have none: "accessor_of c w = None" using k by (simp add: accessor_of_def)
    have acc: "accessor_of cl w' = (if cl = c then Some (fresh w) else accessor_of cl w)" for cl
      using w' by (simp add: accessor_of_def)
    have "all_below w'" using ok k w' by (auto simp: accessors_ok_def all_below_def bounded_def)
    from accessors_ok_new [OF ok none this acc] w' none acc show ?thesis by (auto simp: cells_kept_def)
  next
    assume act: "act = Call c Destroy"
    with run obtain w1 where w1: "leaves_access w w1" "w' = w1\<lparr>accessors := (case accessor_of c w of None \<Rightarrow> accessors w1
      | Some a \<Rightarrow> (accessors w1)(a := None)), clients := (clients w1)(c := None)\<rparr>"
      by (auto elim: TcpClient_delete_access)
    note ok1 = leaves_access_ok [OF w1(1) ok]
    have acc: "accessor_of cl w' = (if cl = c then None else accessor_of cl w1)" for cl
      using w1(2) by (simp add: accessor_of_def)
    have "all_below w'" using ok1(1) w1(2) by (auto simp: accessors_ok_def all_below_def bounded_def split: option.splits)
    from accessors_ok_end [OF ok1(1) this acc] w1(2) ok1(2) have "accessors_ok w'" by simp
    moreover have "cells_kept w w'" using ok1(3) w1(2) by (simp add: cells_kept_def)
    ultimately show ?thesis using acc ok1(2) act by (auto split: if_splits)
  qed
qed

lemma perform_all_access:
  assumes "accessors_ok w" "perform_all P acts w = Inr ((), w')"
  shows "accessors_ok w' \<and> cells_kept w w' \<and>
    (\<forall>cl a. accessor_of cl w = Some a \<longrightarrow> Call cl Destroy \<notin> set acts \<longrightarrow> accessor_of cl w' = Some a)"
  using assms
proof (induction acts arbitrary: w)
  case Nil
  then show ?case by (simp add: cells_kept_def)
next
  case (Cons act acts)
  then obtain w1 where w1: "perform P act w = Inr ((), w1)" "perform_all P acts w1 = Inr ((), w')"
    by (auto simp: pseq_eq_Inr)
  from perform_access [OF Cons.prems(1) w1(1)] Cons.IH [OF _ w1(2)] show ?case by (auto simp: cells_kept_def)
qed

lemma initial_access: "initial w \<Longrightarrow> accessors_ok w"
  by (simp add: initial_def accessors_ok_def all_below_def bounded_def accessor_of_def)

lemma run_access: "run P w0 ls w \<Longrightarrow> accessors_ok w0 \<Longrightarrow> accessors_ok w"
  by (induction rule: run.induct) (use perform_access in blast)+

end
