(* ===== verification/Cross_Core.thy ===== *)
theory Cross_Core
  imports Accessors Lifecycle
begin

text \<open>
  Calls from the other core. While a caller waits in \<open>SyncBridge::execute\<close>, the networking core goes on:
  it may run any operations and events before it gets to the payload and before the caller resumes.
  The accessor through which the caller goes is still the client's own by then, and the call takes effect
  at one point of the networking core's sequence.
\<close>

section \<open>The networking core goes on while the caller waits\<close>

text \<open>
  \<open>exec_among P pre post exec\<close>: \<open>execute\<close> hands the payload over; the networking core performs \<open>pre\<close>, then
  runs the handler, then performs \<open>post\<close> before the caller resumes with the handler's result.
\<close>

definition exec_among :: "'h platform \<Rightarrow> 'h action list \<Rightarrow> 'h action list \<Rightarrow> 'h execute \<Rightarrow> bool" where
  "exec_among P pre post exec \<longleftrightarrow> (\<forall>h p. exec h p =
     pseq (ext Bridge_execute (\<lambda>n. n)) (pseq (perform_all P pre) (pbind (h p) (\<lambda>res. pseq (perform_all P post) (ret res)))))"

fun admissible_all :: "'h platform \<Rightarrow> 'h action list \<Rightarrow> 'h world \<Rightarrow> bool" where
  "admissible_all P [] w = True"
| "admissible_all P (act # acts) w = (admissible P act w \<and>
     (case perform P act w of Inl e \<Rightarrow> False | Inr (v, w') \<Rightarrow> admissible_all P acts w'))"

lemma admissible_all_runs:
  assumes "contracts P" "sys_rel S Q w" "admissible_all P acts w"
  shows "\<exists>S' Q' w'. perform_all P acts w = Inr ((), w') \<and> sys_rel S' Q' w'"
  using assms(2,3)
proof (induction acts arbitrary: S Q w)
  case Nil
  then show ?case by auto
next
  case (Cons act acts)
  then have "admissible P act w" by simp
  from perform_refines [OF assms(1) Cons.prems(1) this] obtain w1 S1 Q1 where
    "perform P act w = Inr ((), w1)" "sys_rel S1 Q1 w1" unfolding refines_def by blast
  with Cons.prems(2) Cons.IH [of S1 Q1 w1] show ?case by (auto simp: pseq_def pbind_apply)
qed

text \<open>
  \<open>aside w w'\<close>: only variables of calls in progress have changed, or new ones have been made.
\<close>

definition aside :: "'h world \<Rightarrow> 'h world \<Rightarrow> bool" where
  "aside w w' \<longleftrightarrow> net w' = net w \<and> rx_bufs w' = rx_bufs w \<and> writers w' = writers w \<and> contexts w' = contexts w \<and>
     clients w' = clients w \<and> accessors w' = accessors w \<and> fresh w \<le> fresh w'"

lemma aside_keeps:
  assumes "aside w w'"
  shows "sys_rel S Q w \<Longrightarrow> sys_rel S Q w'" "accessors_ok w \<Longrightarrow> accessors_ok w'" "accessor_of cl w' = accessor_of cl w"
  using assms step_toD [OF step_to_aside, of S Q w w']
  by (auto simp: aside_def accessors_ok_def all_below_def bounded_def accessor_of_def)

text \<open>
  A call that goes through the accessor of the client \<open>cl\<close>. \<open>call exec\<close> is the call, \<open>act\<close> what it asks the
  networking core to do, with \<open>direct\<close> as the member that does it; the caller waits in \<open>posted w\<close>, and
  \<open>answered w v\<close> stores the result \<open>v\<close> where the caller finds it. The law \<open>parts\<close> says that the call is
  made of these parts, provided that the networking core leaves the variables and the accessor alone.
\<close>

locale remote_call =
  fixes P :: "'h platform" and cl :: addr and call :: "'h execute \<Rightarrow> ('h, 'v) cprog" and act :: "'h action"
    and direct :: "('h, 'v) cprog" and posted :: "'h world \<Rightarrow> 'h world" and answered :: "'h world \<Rightarrow> 'v \<Rightarrow> 'h world \<Rightarrow> 'h world"
  assumes acts: "perform P act = drop_val direct"
    and waits: "aside w (posted w)" and answers: "aside w (answered w0 v w)"
    and parts: "accessor_of cl w = Some a \<Longrightarrow> isCrossCore P (net w) \<Longrightarrow> exec_among P pre post exec \<Longrightarrow>
      perform_all P pre (posted w) = Inr ((), w1) \<Longrightarrow> cells_kept (posted w) w1 \<Longrightarrow> accessors w1 a = Some \<lparr>acc_io = cl\<rparr> \<Longrightarrow>
      direct w1 = Inr (v, w2) \<Longrightarrow> perform_all P post (answered w v w2) = Inr ((), w3) \<Longrightarrow>
      cells_kept (answered w v w2) w3 \<Longrightarrow> call exec w = Inr (v, w3)"
begin

lemma linearizes:
  assumes C: "contracts P" and rel: "sys_rel S Q w" and ok: "accessors_ok w" and a: "accessor_of cl w = Some a"
    and far: "isCrossCore P (net w)" and exec: "exec_among P pre post exec" and alive: "Call cl Destroy \<notin> set pre"
    and pre: "admissible_all P pre (posted w)"
    and mid: "\<And>w1. perform_all P pre (posted w) = Inr ((), w1) \<Longrightarrow> admissible P act w1"
    and post: "\<And>w1 v w2. perform_all P pre (posted w) = Inr ((), w1) \<Longrightarrow> direct w1 = Inr (v, w2) \<Longrightarrow>
      admissible_all P post (answered w v w2)"
  shows "\<exists>w1 v w2 w3. perform_all P pre (posted w) = Inr ((), w1) \<and> direct w1 = Inr (v, w2) \<and>
    perform_all P post (answered w v w2) = Inr ((), w3) \<and> call exec w = Inr (v, w3)"
proof -
  from admissible_all_runs [OF C aside_keeps(1) [OF waits rel] pre] obtain S1 Q1 w1 where
    w1: "perform_all P pre (posted w) = Inr ((), w1)" "sys_rel S1 Q1 w1" by blast
  from perform_refines [OF C w1(2) mid [OF w1(1)]] obtain w2 S2 Q2 where
    w2: "perform P act w1 = Inr ((), w2)" "sys_rel S2 Q2 w2" by (auto simp: refines_def)
  then obtain v where v: "direct w1 = Inr (v, w2)" by (auto simp: acts drop_val_def pbind_eq_Inr)
  from admissible_all_runs [OF C aside_keeps(1) [OF answers w2(2)] post [OF w1(1) v]] obtain w3 where
    w3: "perform_all P post (answered w v w2) = Inr ((), w3)" by blast
  from perform_all_access [OF aside_keeps(2) [OF waits ok] w1(1)] a alive
  have k1: "accessors_ok w1" "accessor_of cl w1 = Some a" "cells_kept (posted w) w1" by (auto simp: aside_keeps(3) [OF waits])
  have ok2: "accessors_ok w2" using perform_access [OF k1(1) w2(1)] by blast
  have "cells_kept (answered w v w2) w3" using perform_all_access [OF aside_keeps(2) [OF answers ok2] w3] by blast
  moreover have "accessors w1 a = Some \<lparr>acc_io = cl\<rparr>" using k1(1,2) by (simp add: accessors_ok_def)
  ultimately have "call exec w = Inr (v, w3)" using parts [OF a far exec w1(1) k1(3) _ v w3] by blast
  with w1(1) v w3 show ?thesis by blast
qed

end

text \<open>The state in which a caller waits for \<open>connect\<close>, and that after the result is stored.\<close>

definition posted :: "'h platform \<Rightarrow> ip_addr \<Rightarrow> 'h world \<Rightarrow> 'h world" where
  "posted P ip w = w\<lparr>cells_ip := (cells_ip w)(fresh w \<mapsto> ip),
     cells_int := (cells_int w)(Suc (fresh w) \<mapsto> PICO_ERROR_GENERIC P), fresh := Suc (Suc (fresh w)),
     calls := calls w @ [Bridge_execute]\<rparr>"

definition answered :: "addr \<Rightarrow> cint \<Rightarrow> 'h world \<Rightarrow> 'h world" where
  "answered q v w = w\<lparr>cells_int := (cells_int w)(q \<mapsto> v)\<rparr>"

text \<open>The same for \<open>status\<close>.\<close>

definition posted_status :: "'h world \<Rightarrow> 'h world" where
  "posted_status w = w\<lparr>cells_u8 := (cells_u8 w)(fresh w \<mapsto> 0), fresh := Suc (fresh w), calls := calls w @ [Bridge_execute]\<rparr>"

definition answered_status :: "addr \<Rightarrow> u8 \<Rightarrow> 'h world \<Rightarrow> 'h world" where
  "answered_status q v w = w\<lparr>cells_u8 := (cells_u8 w)(q \<mapsto> v)\<rparr>"

lemma accessor_ofE:
  assumes "accessor_of cl w = Some a"
  obtains k where "clients w cl = Some k" "cl_sync_accessor k = Some a"
  using assms by (cases "clients w cl") (auto simp: accessor_of_def)

interpretation remote_connect: remote_call P cl "\<lambda>exec. TcpClient_connect P exec cl ip port" "Call cl (Connect ip port)"
  "TcpClient_ts_connect P cl ip port" "posted P ip" "\<lambda>w. answered (Suc (fresh w))" for P cl ip port
proof unfold_locales
  fix w a pre post exec w1 v w2 w3
  assume a: "accessor_of cl w = Some a" and far: "isCrossCore P (net w)" and exec: "exec_among P pre post exec"
    and pre: "perform_all P pre (posted P ip w) = Inr ((), w1)" and k1: "cells_kept (posted P ip w) w1"
    and acc: "accessors w1 a = Some \<lparr>acc_io = cl\<rparr>" and direct: "TcpClient_ts_connect P cl ip port w1 = Inr (v, w2)"
    and post: "perform_all P post (answered (Suc (fresh w)) v w2) = Inr ((), w3)" and k3: "cells_kept (answered (Suc (fresh w)) v w2) w3"
  have "cells_ip w1 (fresh w) = Some ip" "cells_int w3 (Suc (fresh w)) = Some v"
    using k1 k3 by (simp_all add: cells_kept_def posted_def answered_def)
  with a far exec pre direct post acc show "TcpClient_connect P exec cl ip port w = Inr (v, w3)"
    by (auto elim!: accessor_ofE simp: TcpClient_connect_def TcpClientSyncAccessor_connect_def TcpClientSyncAccessor_onExecute_def
        exec_among_def AccessorPayload_new_def new_ip_def new_int_def prog_simps posted_def answered_def)
qed (simp_all add: aside_def posted_def answered_def)

interpretation remote_status: remote_call P cl "\<lambda>exec. TcpClient_status P exec cl" "Call cl Status"
  "TcpClient_ts_status P cl" posted_status "\<lambda>w. answered_status (fresh w)" for P cl
proof unfold_locales
  fix w a pre post exec w1 v w2 w3
  assume a: "accessor_of cl w = Some a" and far: "isCrossCore P (net w)" and exec: "exec_among P pre post exec"
    and pre: "perform_all P pre (posted_status w) = Inr ((), w1)"
    and acc: "accessors w1 a = Some \<lparr>acc_io = cl\<rparr>" and direct: "TcpClient_ts_status P cl w1 = Inr (v, w2)"
    and post: "perform_all P post (answered_status (fresh w) v w2) = Inr ((), w3)" and k3: "cells_kept (answered_status (fresh w) v w2) w3"
  have "cells_u8 w3 (fresh w) = Some v" using k3 by (simp add: cells_kept_def answered_status_def)
  with a far exec pre direct post acc show "TcpClient_status P exec cl w = Inr (v, w3)"
    by (auto elim!: accessor_ofE simp: TcpClient_status_def TcpClientSyncAccessor_status_def TcpClientSyncAccessor_onExecute_def
        exec_among_def AccessorPayload_new_def new_u8_def prog_simps posted_status_def answered_status_def)
qed (simp_all add: aside_def posted_status_def answered_status_def)

section \<open>Properties\<close>

lemma reachable_access: "reachable P w \<Longrightarrow> accessors_ok w"
  unfolding reachable_def using run_access initial_access by blast

text \<open>
  C15. A \<open>connect\<close> from the other core takes effect at one moment: whatever operations and events the
  networking core handles before it gets to the payload (\<open>pre\<close>, without destroying the client) and after
  (\<open>post\<close>), the call returns, its result is that of \<open>_ts_connect\<close> executed between the two, on the address
  the caller passed, and the final state is what the networking core made of that: neither the variables
  the payload points to nor the accessor are lost or mixed up while the caller waits.
\<close>

theorem cross_core_connect_linearizes:
  assumes "contracts P" and "reachable P w" and "clients w cl = Some k" and "cl_sync_accessor k \<noteq> None"
    and "isCrossCore P (net w)" and "exec_among P pre post exec" and "Call cl Destroy \<notin> set pre"
    and "admissible_all P pre (posted P ip w)"
    and "\<And>w1. perform_all P pre (posted P ip w) = Inr ((), w1) \<Longrightarrow> admissible P (Call cl (Connect ip port)) w1"
    and "\<And>w1 v w2. perform_all P pre (posted P ip w) = Inr ((), w1) \<Longrightarrow> TcpClient_ts_connect P cl ip port w1 = Inr (v, w2) \<Longrightarrow>
      admissible_all P post (answered (Suc (fresh w)) v w2)"
  shows "\<exists>w1 v w2 w3. perform_all P pre (posted P ip w) = Inr ((), w1) \<and> TcpClient_ts_connect P cl ip port w1 = Inr (v, w2) \<and>
    perform_all P post (answered (Suc (fresh w)) v w2) = Inr ((), w3) \<and> TcpClient_connect P exec cl ip port w = Inr (v, w3)"
proof -
  obtain a where a: "accessor_of cl w = Some a" using assms(3,4) by (auto simp: accessor_of_def)
  obtain S Q where "sys_rel S Q w" using reachable_rel [OF assms(1,2)] .
  from remote_connect.linearizes [OF assms(1) this reachable_access [OF assms(2)] a assms(5-10)] show ?thesis .
qed

definition among :: "'h platform \<Rightarrow> 'h action list \<Rightarrow> 'h action list \<Rightarrow> 'h execute" where
  "among P pre post h p =
     pseq (ext Bridge_execute (\<lambda>n. n)) (pseq (perform_all P pre) (pbind (h p) (\<lambda>res. pseq (perform_all P post) (ret res))))"

lemma other_core_contracts: "contracts other_core"
proof -
  have "pbuf_contract other_core" "recved_contract other_core" "send_contract other_core" "bridge_contract other_core"
    using sample_contracts
    by (simp_all add: other_core_def pbuf_contract_def pbuf_free_contract_def pbuf_ref_contract_def pbuf_cat_contract_def
        recved_contract_def send_contract_def bridge_contract_def)
  moreover have "reg_contract other_core" using sample_contracts by (simp add: other_core_def reg_contract_def)
  moreover have "close_contract other_core" using sample_contracts by (simp add: other_core_def close_contract_def)
  moreover have "open_contract other_core" using sample_contracts by (simp add: other_core_def open_contract_def cong: option.case_cong)
  ultimately show ?thesis by (simp add: contracts_def)
qed

lemma other_core_reachable: "run other_core sample_start ls w \<Longrightarrow> reachable other_core w"
  unfolding reachable_def using sample_initial by blast

lemma other_core_created:
  obtains w k where "run other_core sample_start [L_new 100, L_quiet] w" "clients w = [100 \<mapsto> k]" "cl_sync_accessor k = Some 101" "cl_ctx k = None"
    "net w = net sample_start" "fresh w = 102"
proof -
  let ?k = "\<lparr>cl_received_bridge = None, cl_connected_bridge = None, cl_fin_bridge = None,
       cl_error_bridge = None, cl_poll_bridge = None, cl_ack_bridge = None, cl_ctx = None,
       cl_sync_accessor = None, cl_client_id = 0, cl_timeout = 5000, cl_write_callback = None\<rparr>"
  let ?w1 = "sample_start\<lparr>clients := [100 \<mapsto> ?k], fresh := 101\<rparr>"
  let ?w2 = "?w1\<lparr>accessors := [101 \<mapsto> \<lparr>acc_io = 100\<rparr>], fresh := 102, clients := [100 \<mapsto> ?k\<lparr>cl_sync_accessor := Some 101\<rparr>]\<rparr>"
  have "perform other_core New sample_start = Inr ((), ?w1)"
    by (simp add: TcpClient_new_def new_defs drop_val_def prog_simps sample_start_def sample_world_def)
  from run.step [OF run.stay _ this] have "run other_core sample_start [L_new 100] ?w1"
    by (simp add: sample_start_def sample_world_def)
  from run.step [OF this, of "Call 100 Set_accessor" ?w2] have "run other_core sample_start [L_new 100, L_quiet] ?w2"
    by (simp add: install_accessor_apply sample_start_def sample_world_def)
  then show ?thesis by (rule that [where k = "?k\<lparr>cl_sync_accessor := Some 101\<rparr>"]) simp_all
qed

theorem cross_core_connect_linearizes_witness:
  "\<exists>w w1 v w2 w3. reachable other_core w \<and> perform_all other_core [Call 100 Status, New] (posted other_core 1 w) = Inr ((), w1) \<and>
    TcpClient_ts_connect other_core 100 1 80 w1 = Inr (v, w2) \<and>
    TcpClient_connect other_core (among other_core [Call 100 Status, New] [New]) 100 1 80 w = Inr (v, w3)"
proof -
  obtain w k where w: "reachable other_core w" "clients w = [100 \<mapsto> k]" "cl_sync_accessor k = Some 101" "cl_ctx k = None"
    "net w = net sample_start" "fresh w = 102" by (rule other_core_created) (blast intro: other_core_reachable)
  let ?pre = "[Call 100 Status, New]" and ?p = "posted other_core 1 w"
  have p: "clients ?p = [100 \<mapsto> k]" "net ?p = net sample_start" "fresh ?p = 104" using w by (simp_all add: posted_def)
  have status: "perform other_core (Call 100 Status) ?p = Inr ((), ?p)"
    using p w(4) by (simp add: drop_val_def TcpClient_ts_status_def prog_simps)
  have new: "\<exists>v'. perform other_core New v = Inr ((), v') \<and> net v' = net v \<and> (clients v 100 \<noteq> None \<longrightarrow> clients v' 100 \<noteq> None)" for v
    by (auto simp: drop_val_def TcpClient_new_def new_defs prog_simps)
  have "clients ?p 100 \<noteq> None" "\<not> has_failed 100 ?p" using p w(4) by (simp_all add: has_failed_def ctx_of_def)
  with status new [of ?p] have pre: "admissible_all other_core ?pre ?p" by auto
  have "\<exists>w1 v w2 w3. perform_all other_core ?pre ?p = Inr ((), w1) \<and> TcpClient_ts_connect other_core 100 1 80 w1 = Inr (v, w2) \<and>
      perform_all other_core [New] (answered (Suc (fresh w)) v w2) = Inr ((), w3) \<and>
      TcpClient_connect other_core (among other_core ?pre [New]) 100 1 80 w = Inr (v, w3)"
  proof (rule cross_core_connect_linearizes [OF other_core_contracts w(1), where k = k])
    fix w1 assume "perform_all other_core ?pre ?p = Inr ((), w1)"
    then have "clients w1 100 \<noteq> None" using status new [of ?p] p by (auto simp: pseq_eq_Inr)
    then show "admissible other_core (Call 100 (Connect 1 80)) w1" by simp
  next
    fix w1 v w2 show "admissible_all other_core [New] (answered (Suc (fresh w)) v w2)"
      using new [of "answered (Suc (fresh w)) v w2"] by auto
  qed (use w(2,3) pre in \<open>simp_all add: exec_among_def among_def, simp add: other_core_def\<close>)
  with w(1) show ?thesis by blast
qed

text \<open>
  A \<open>status\<close> from the other core takes effect at one moment as well: its result is what \<open>_ts_status\<close>
  answers between the operations and events the networking core handles before (\<open>pre\<close>) and after (\<open>post\<close>):
  the PCB's state while the connection is open, \<open>CLOSED\<close> when there is none or the peer has closed it; and
  the look itself changes nothing.
\<close>

theorem cross_core_status_linearizes:
  assumes "contracts P" and "reachable P w" and "clients w cl = Some k" and "cl_sync_accessor k \<noteq> None"
    and "isCrossCore P (net w)" and "exec_among P pre post exec" and "Call cl Destroy \<notin> set pre"
    and "admissible_all P pre (posted_status w)"
    and "\<And>w1. perform_all P pre (posted_status w) = Inr ((), w1) \<Longrightarrow> \<not> has_failed cl w1"
    and "\<And>w1 v. perform_all P pre (posted_status w) = Inr ((), w1) \<Longrightarrow> admissible_all P post (answered_status (fresh w) v w1)"
  shows "\<exists>w1 s w3. perform_all P pre (posted_status w) = Inr ((), w1) \<and> client_at cl s w1 \<and>
    TcpClient_status P exec cl w = Inr (shown_status P s w1, w3) \<and>
    perform_all P post (answered_status (fresh w) (shown_status P s w1) w1) = Inr ((), w3)"
proof -
  obtain a where a: "accessor_of cl w = Some a" using assms(3,4) by (auto simp: accessor_of_def)
  obtain S Q where rel: "sys_rel S Q w" using reachable_rel [OF assms(1,2)] .
  note ok = reachable_access [OF assms(2)]
  have alive: "clients w1 cl \<noteq> None" if "perform_all P pre (posted_status w) = Inr ((), w1)" for w1
  proof -
    have "accessor_of cl w1 = Some a"
      using perform_all_access [OF aside_keeps(2) [OF remote_status.waits ok] that] a assms(7)
      by (simp add: aside_keeps(3) [OF remote_status.waits])
    then show ?thesis by (auto elim: accessor_ofE)
  qed
  have same: "v = w1" if "TcpClient_ts_status P cl w1 = Inr (x, v)" for x v w1
    using that by (auto simp: TcpClient_ts_status_def TcpClientContext_state_def pbind_eq_Inr lookup_obj_def get_pcb_def split: option.splits if_splits)
  have "\<exists>w1 v w2 w3. perform_all P pre (posted_status w) = Inr ((), w1) \<and> TcpClient_ts_status P cl w1 = Inr (v, w2) \<and>
      perform_all P post (answered_status (fresh w) v w2) = Inr ((), w3) \<and> TcpClient_status P exec cl w = Inr (v, w3)"
  proof (rule remote_status.linearizes [OF assms(1) rel ok a assms(5-8)])
    show "admissible P (Call cl Status) w1" if "perform_all P pre (posted_status w) = Inr ((), w1)" for w1
      using alive assms(9) that by simp
    show "admissible_all P post (answered_status (fresh w) v w2)"
      if "perform_all P pre (posted_status w) = Inr ((), w1)" "TcpClient_ts_status P cl w1 = Inr (v, w2)" for w1 v w2
      using assms(10) [OF that(1)] same [OF that(2)] by simp
  qed
  then obtain w1 v w2 w3 where w: "perform_all P pre (posted_status w) = Inr ((), w1)" "TcpClient_ts_status P cl w1 = Inr (v, w2)"
    "perform_all P post (answered_status (fresh w) v w2) = Inr ((), w3)" "TcpClient_status P exec cl w = Inr (v, w3)" by blast
  obtain S1 Q1 where "sys_rel S1 Q1 w1"
    using admissible_all_runs [OF assms(1) aside_keeps(1) [OF remote_status.waits rel] assms(8)] w(1) by auto
  from client_phase [OF this alive [OF w(1)]] obtain s where s: "client_at cl s w1" by blast
  have "\<not> failed s" using phase_tests(2) [OF s] assms(9) [OF w(1)] by (cases s) simp_all
  from client_queries_run(6) [OF s this, of P] w same [OF w(2)] s show ?thesis by auto
qed

theorem cross_core_status_linearizes_witness:
  "\<exists>w w1 w3 s. reachable other_core w \<and> perform_all other_core [New] (posted_status w) = Inr ((), w1) \<and> client_at 100 s w1 \<and>
    TcpClient_status other_core (among other_core [New] [New]) 100 w = Inr (shown_status other_core s w1, w3)"
proof -
  obtain w k where w: "reachable other_core w" "clients w = [100 \<mapsto> k]" "cl_sync_accessor k = Some 101" "cl_ctx k = None"
    "net w = net sample_start" "fresh w = 102" by (rule other_core_created) (blast intro: other_core_reachable)
  have adm: "admissible_all other_core [New] v" for v
    by (simp add: drop_val_def TcpClient_new_def new_defs prog_simps)
  have fine: "\<not> has_failed 100 w1" if "perform_all other_core [New] (posted_status w) = Inr ((), w1)" for w1
    using that w(2,4,6) by (auto simp: drop_val_def TcpClient_new_def new_defs prog_simps posted_status_def has_failed_def ctx_of_def)
  have "isCrossCore other_core (net w)" "exec_among other_core [New] [New] (among other_core [New] [New])"
    by (simp_all add: exec_among_def among_def) (simp add: other_core_def)
  from cross_core_status_linearizes [OF other_core_contracts w(1) _ _ this _ adm fine adm, of k] w(1-3) show ?thesis by auto
qed

end
