(* ===== verification/Concurrent_Calls.thy ===== *)
theory Concurrent_Calls
  imports Cross_Core
begin

text \<open>
  Any number of callers on other cores at the same time. A call through the accessor has three parts: the
  caller allocates its variables and hands the payload over, the networking core runs the handler at
  some later moment, and the caller reads the result when it resumes. Between the parts the networking
  core runs operations and events, and other callers do the same. The callers' parts and the networking
  core's steps are interleaved in any order; the theorem says that this is the same as performing each
  request at the moment it is handled.
\<close>

section \<open>The parts of a call\<close>

datatype request = Status_request | Connect_request ip_addr u16
datatype reply = Status_reply u8 | Connect_reply cint

text \<open>What the caller does before it waits: the address of the result, and the payload.\<close>

fun begin_call :: "'h platform \<Rightarrow> request \<Rightarrow> ('h, addr \<times> AccessorPayload) cprog" where
  "begin_call P Status_request =
     pbind (new_u8 0) (\<lambda>q.
     pseq (ext Bridge_execute (\<lambda>n. n)) (ret (q, AccessorPayload_new\<lparr>ap_op := STATUS, ap_result_ptr := Some q\<rparr>)))"
| "begin_call P (Connect_request ip port) =
     pbind (new_ip ip) (\<lambda>i.
     pbind (new_int (PICO_ERROR_GENERIC P)) (\<lambda>q.
     pseq (ext Bridge_execute (\<lambda>n. n)) (ret (q, AccessorPayload_new\<lparr>ap_op := CONNECT, ap_ip_ptr := Some i,
       ap_port := port, ap_connect_result := Some q\<rparr>))))"

text \<open>What it does with the code \<open>res\<close> that \<open>execute\<close> returns.\<close>

fun end_call :: "'h platform \<Rightarrow> request \<Rightarrow> addr \<Rightarrow> u32 \<Rightarrow> ('h, reply) cprog" where
  "end_call P Status_request q res = pbind (lookup_obj cells_u8 q) (\<lambda>v. ret (Status_reply v))"
| "end_call P (Connect_request ip port) q res =
     (if res \<noteq> PICO_OK P then ret (Connect_reply res)
      else pbind (lookup_obj cells_int q) (\<lambda>v. ret (Connect_reply v)))"

text \<open>These are the parts of the accessor's members, whatever \<open>execute\<close> does between them.\<close>

lemma call_parts:
  assumes "isCrossCore P (net w)" "\<And>h p. exec h p = pseq (ext Bridge_execute (\<lambda>n. n)) (handle h p)"
  shows "pbind (TcpClientSyncAccessor_status P exec a) (\<lambda>v. ret (Status_reply v)) w =
      pbind (begin_call P Status_request) (\<lambda>(q, p). pbind (handle (TcpClientSyncAccessor_onExecute P a) p)
        (end_call P Status_request q)) w"
    "pbind (TcpClientSyncAccessor_connect P exec a ip port) (\<lambda>v. ret (Connect_reply v)) w =
      pbind (begin_call P (Connect_request ip port)) (\<lambda>(q, p). pbind (handle (TcpClientSyncAccessor_onExecute P a) p)
        (end_call P (Connect_request ip port) q)) w"
  using assms
  by (auto simp: TcpClientSyncAccessor_status_def TcpClientSyncAccessor_connect_def new_u8_def new_ip_def new_int_def
      prog_simps pbind_apply split: sum.splits)

text \<open>What a request asks the networking core to do.\<close>

fun request_op :: "request \<Rightarrow> op" where
  "request_op Status_request = Status"
| "request_op (Connect_request ip port) = Connect ip port"

fun direct_call :: "'h platform \<Rightarrow> addr \<Rightarrow> request \<Rightarrow> ('h, reply) cprog" where
  "direct_call P cl Status_request = pbind (TcpClient_ts_status P cl) (\<lambda>v. ret (Status_reply v))"
| "direct_call P cl (Connect_request ip port) = pbind (TcpClient_ts_connect P cl ip port) (\<lambda>v. ret (Connect_reply v))"

lemma direct_call_performs:
  "direct_call P cl req w = Inr (v, w') \<Longrightarrow> perform P (Call cl (request_op req)) w = Inr ((), w')"
  "perform P (Call cl (request_op req)) w = Inr ((), w') \<Longrightarrow> \<exists>v. direct_call P cl req w = Inr (v, w')"
  by (cases req; auto simp: drop_val_def pbind_eq_Inr)+

section \<open>Calls in progress\<close>

record pending =
  pd_client :: addr
  pd_acc :: addr
  pd_request :: request
  pd_cell :: addr
  pd_payload :: AccessorPayload
  pd_done :: "(u32 \<times> reply) option"

text \<open>
  \<open>crun P w0 ls C w\<close>: from \<open>w0\<close> the networking core and the callers have reached \<open>w\<close> with the calls \<open>C\<close> in
  progress; \<open>ls\<close> are the steps of the specification in the order in which they took effect. A client is
  not destroyed while a caller waits for it. \<open>pd_done\<close> has the code of \<open>execute\<close> and, for the theorem, what the
  operation returned on the networking core.
\<close>

inductive crun :: "'h platform \<Rightarrow> 'h world \<Rightarrow> label list \<Rightarrow> (nat \<rightharpoonup> pending) \<Rightarrow> 'h world \<Rightarrow> bool" for P w0 where
  begins: "crun P w0 [] Map.empty w0"
| acts: "crun P w0 ls C w \<Longrightarrow> admissible P act w \<Longrightarrow> (\<And>i pd. C i = Some pd \<Longrightarrow> act \<noteq> Call (pd_client pd) Destroy) \<Longrightarrow>
    perform P act w = Inr ((), w') \<Longrightarrow> crun P w0 (ls @ [label_of act w]) C w'"
| posts: "crun P w0 ls C w \<Longrightarrow> C i = None \<Longrightarrow> clients w cl = Some k \<Longrightarrow> cl_sync_accessor k = Some a \<Longrightarrow>
    begin_call P req w = Inr ((q, p), w') \<Longrightarrow>
    crun P w0 ls (C(i \<mapsto> \<lparr>pd_client = cl, pd_acc = a, pd_request = req, pd_cell = q, pd_payload = p, pd_done = None\<rparr>)) w'"
| serves: "crun P w0 ls C w \<Longrightarrow> C i = Some pd \<Longrightarrow> pd_done pd = None \<Longrightarrow>
    admissible P (Call (pd_client pd) (request_op (pd_request pd))) w \<Longrightarrow>
    direct_call P (pd_client pd) (pd_request pd) w = Inr (v, w1) \<Longrightarrow>
    TcpClientSyncAccessor_onExecute P (pd_acc pd) (pd_payload pd) w = Inr (res, w') \<Longrightarrow>
    crun P w0 (ls @ [label_of (Call (pd_client pd) (request_op (pd_request pd))) w]) (C(i \<mapsto> pd\<lparr>pd_done := Some (res, v)\<rparr>)) w'"
| resumes: "crun P w0 ls C w \<Longrightarrow> C i = Some pd \<Longrightarrow> pd_done pd = Some (res, v) \<Longrightarrow>
    end_call P (pd_request pd) (pd_cell pd) res w = Inr (v', w') \<Longrightarrow> crun P w0 ls (C(i := None)) w'"

text \<open>The result is stored in the caller's variable.\<close>

fun put_reply :: "addr \<Rightarrow> reply \<Rightarrow> 'h world \<Rightarrow> 'h world" where
  "put_reply q (Status_reply v) w = w\<lparr>cells_u8 := (cells_u8 w)(q \<mapsto> v)\<rparr>"
| "put_reply q (Connect_reply v) w = w\<lparr>cells_int := (cells_int w)(q \<mapsto> v)\<rparr>"

lemma put_reply_aside: "aside w (put_reply q v w)"
  by (cases v) (simp_all add: aside_def)

fun payload_ok :: "request \<Rightarrow> addr \<Rightarrow> AccessorPayload \<Rightarrow> 'h world \<Rightarrow> bool" where
  "payload_ok Status_request q p w \<longleftrightarrow> p = AccessorPayload_new\<lparr>ap_op := STATUS, ap_result_ptr := Some q\<rparr> \<and> q < fresh w"
| "payload_ok (Connect_request ip port) q p w \<longleftrightarrow> q < fresh w \<and> (\<exists>i<fresh w. cells_ip w i = Some ip \<and>
     p = AccessorPayload_new\<lparr>ap_op := CONNECT, ap_ip_ptr := Some i, ap_port := port, ap_connect_result := Some q\<rparr>)"

text \<open>A call in progress finds its accessor, its arguments and, once it has been handled, its result.\<close>

definition call_ok :: "'h platform \<Rightarrow> pending \<Rightarrow> 'h world \<Rightarrow> bool" where
  "call_ok P pd w \<longleftrightarrow> accessor_of (pd_client pd) w = Some (pd_acc pd) \<and>
     payload_ok (pd_request pd) (pd_cell pd) (pd_payload pd) w \<and>
     (case pd_done pd of None \<Rightarrow> True | Some (res, v) \<Rightarrow> end_call P (pd_request pd) (pd_cell pd) res w = Inr (v, w))"

definition calls_ok :: "'h platform \<Rightarrow> (nat \<rightharpoonup> pending) \<Rightarrow> 'h world \<Rightarrow> bool" where
  "calls_ok P C w \<longleftrightarrow> accessors_ok w \<and> (\<forall>i pd. C i = Some pd \<longrightarrow> call_ok P pd w) \<and>
     (\<forall>i j pd pd'. C i = Some pd \<longrightarrow> C j = Some pd' \<longrightarrow> pd_cell pd = pd_cell pd' \<longrightarrow> i = j)"

lemma end_call_cong:
  assumes "end_call P req q res w = Inr (v, w)" "cells_u8 w' q = cells_u8 w q" "cells_int w' q = cells_int w q"
  shows "end_call P req q res w' = Inr (v, w')"
  using assms by (cases req) (auto simp: prog_simps split: option.splits if_splits)

lemma call_ok_kept:
  assumes "call_ok P pd w" "accessor_of (pd_client pd) w' = accessor_of (pd_client pd) w" "fresh w \<le> fresh w'"
    "\<And>a. a < fresh w \<Longrightarrow> cells_ip w' a = cells_ip w a" "cells_u8 w' (pd_cell pd) = cells_u8 w (pd_cell pd)"
    "cells_int w' (pd_cell pd) = cells_int w (pd_cell pd)"
  shows "call_ok P pd w'"
proof -
  have "payload_ok (pd_request pd) (pd_cell pd) (pd_payload pd) w'"
    using assms(1,3,4) unfolding call_ok_def
    by (cases "pd_request pd") (auto intro: order_less_le_trans)
  then show ?thesis
    using assms end_call_cong [OF _ assms(5,6)] by (auto simp: call_ok_def split: option.splits)
qed

lemma call_ok_cell: "call_ok P pd w \<Longrightarrow> pd_cell pd < fresh w"
  by (cases "pd_request pd") (auto simp: call_ok_def)

text \<open>The handler does the operation and stores its result.\<close>

lemma served:
  assumes "call_ok P pd w" "accessors_ok w" "direct_call P (pd_client pd) (pd_request pd) w = Inr (v, w1)"
  shows "TcpClientSyncAccessor_onExecute P (pd_acc pd) (pd_payload pd) w = Inr (PICO_OK P, put_reply (pd_cell pd) v w1)"
    "end_call P (pd_request pd) (pd_cell pd) (PICO_OK P) (put_reply (pd_cell pd) v w1) = Inr (v, put_reply (pd_cell pd) v w1)"
proof -
  have "accessors w (pd_acc pd) = Some \<lparr>acc_io = pd_client pd\<rparr>" using assms(1,2) by (simp add: call_ok_def accessors_ok_def)
  with assms(1,3)
  show "TcpClientSyncAccessor_onExecute P (pd_acc pd) (pd_payload pd) w = Inr (PICO_OK P, put_reply (pd_cell pd) v w1)"
    by (cases "pd_request pd")
      (auto simp: call_ok_def TcpClientSyncAccessor_onExecute_def AccessorPayload_new_def prog_simps split: sum.splits)
  show "end_call P (pd_request pd) (pd_cell pd) (PICO_OK P) (put_reply (pd_cell pd) v w1) = Inr (v, put_reply (pd_cell pd) v w1)"
    using assms(3) by (cases "pd_request pd") (auto simp: prog_simps split: sum.splits)
qed

lemma begun:
  assumes "begin_call P req w = Inr ((q, p), w')"
  shows "aside w w'" "payload_ok req q p w'" "fresh w \<le> q"
    "\<And>a. a < fresh w \<Longrightarrow> cells_ip w' a = cells_ip w a \<and> cells_u8 w' a = cells_u8 w a \<and> cells_int w' a = cells_int w a"
proof -
  have "aside w w' \<and> payload_ok req q p w' \<and> fresh w \<le> q \<and> (\<forall>a<fresh w. cells_ip w' a = cells_ip w a \<and>
      cells_u8 w' a = cells_u8 w a \<and> cells_int w' a = cells_int w a)"
    using assms by (cases req) (auto simp: new_u8_def new_ip_def new_int_def prog_simps aside_def AccessorPayload_new_def)
  then show "aside w w'" "payload_ok req q p w'" "fresh w \<le> q"
    "\<And>a. a < fresh w \<Longrightarrow> cells_ip w' a = cells_ip w a \<and> cells_u8 w' a = cells_u8 w a \<and> cells_int w' a = cells_int w a" by blast+
qed

lemma end_call_observes: "observes (end_call P req q res)"
  by (cases req) (auto intro!: observes_intros)

section \<open>Every step keeps the calls in progress intact\<close>

lemma calls_ok_acts:
  assumes ok: "calls_ok P C w" and run: "perform P act w = Inr ((), w')"
    and alive: "\<And>i pd. C i = Some pd \<Longrightarrow> act \<noteq> Call (pd_client pd) Destroy"
  shows "calls_ok P C w'"
proof -
  from ok perform_access [OF _ run] have a: "accessors_ok w'" "cells_kept w w'"
    and keep: "\<And>cl x. accessor_of cl w = Some x \<Longrightarrow> act \<noteq> Call cl Destroy \<Longrightarrow> accessor_of cl w' = Some x"
    unfolding calls_ok_def by blast+
  have "call_ok P pd w'" if "C i = Some pd" for i pd
  proof -
    from ok that have pd: "call_ok P pd w" unfolding calls_ok_def by blast
    then have "accessor_of (pd_client pd) w' = accessor_of (pd_client pd) w"
      using keep alive [OF that] by (simp add: call_ok_def)
    from call_ok_kept [OF pd this] a(2) show ?thesis by (simp add: cells_kept_def)
  qed
  with ok a(1) show ?thesis unfolding calls_ok_def by blast
qed

lemma calls_ok_posts:
  assumes ok: "calls_ok P C w" and i: "C i = None" and k: "clients w cl = Some k" "cl_sync_accessor k = Some a"
    and b: "begin_call P req w = Inr ((q, p), w')"
  shows "calls_ok P (C(i \<mapsto> \<lparr>pd_client = cl, pd_acc = a, pd_request = req, pd_cell = q, pd_payload = p, pd_done = None\<rparr>)) w'"
    (is "calls_ok P (C(i \<mapsto> ?pd)) w'")
proof -
  note w' = begun [OF b]
  have old: "call_ok P pd w'" "pd_cell pd \<noteq> q" if "C j = Some pd" for j pd
  proof -
    from ok that have pd: "call_ok P pd w" unfolding calls_ok_def by blast
    note c = call_ok_cell [OF pd]
    show "call_ok P pd w'"
      using w'(1,4) c by (intro call_ok_kept [OF pd aside_keeps(3) [OF w'(1)]]) (auto simp: aside_def)
    show "pd_cell pd \<noteq> q" using c w'(3) by simp
  qed
  have "accessor_of cl w' = Some a" using k by (simp add: aside_keeps(3) [OF w'(1)]) (simp add: accessor_of_def)
  then have "call_ok P ?pd w'" using w'(2) by (simp add: call_ok_def)
  moreover have "accessors_ok w'" using ok aside_keeps(2) [OF w'(1)] by (simp add: calls_ok_def)
  ultimately show ?thesis using ok old unfolding calls_ok_def by (auto split: if_splits)
qed

lemma calls_ok_serves:
  assumes ok: "calls_ok P C w" and i: "C i = Some pd" and d: "direct_call P (pd_client pd) (pd_request pd) w = Inr (v, w1)"
  shows "calls_ok P (C(i \<mapsto> pd\<lparr>pd_done := Some (PICO_OK P, v)\<rparr>)) (put_reply (pd_cell pd) v w1)" (is "calls_ok P _ ?w'")
proof -
  have run: "perform P (Call (pd_client pd) (request_op (pd_request pd))) w = Inr ((), w1)" using direct_call_performs(1) [OF d] .
  have "request_op (pd_request pd) \<noteq> Destroy" by (cases "pd_request pd") simp_all
  then have ok1: "calls_ok P C w1" by (intro calls_ok_acts [OF ok run]) simp
  note as = put_reply_aside [of w1 "pd_cell pd" v]
  have old: "call_ok P pd' ?w'" if "C j = Some pd'" "j \<noteq> i" for j pd'
  proof -
    from ok1 that i have pd': "call_ok P pd' w1" "pd_cell pd' \<noteq> pd_cell pd" unfolding calls_ok_def by blast+
    show ?thesis
      using as pd'(2) by (intro call_ok_kept [OF pd'(1) aside_keeps(3) [OF as]]) (cases v; auto simp: aside_def)+
  qed
  have pd1: "call_ok P pd w1" using ok1 i unfolding calls_ok_def by blast
  have pw: "call_ok P pd w" "accessors_ok w" using ok i unfolding calls_ok_def by blast+
  have "payload_ok (pd_request pd) (pd_cell pd) (pd_payload pd) ?w'"
    using pd1 by (cases "pd_request pd"; cases v) (auto simp: call_ok_def)
  then have "call_ok P (pd\<lparr>pd_done := Some (PICO_OK P, v)\<rparr>) ?w'"
    using pd1 served(2) [OF pw d] by (simp add: call_ok_def aside_keeps(3) [OF as])
  moreover have "accessors_ok ?w'" using ok1 aside_keeps(2) [OF as] by (simp add: calls_ok_def)
  ultimately show ?thesis using ok1 old i unfolding calls_ok_def by (auto split: if_splits)
qed

section \<open>Concurrent runs\<close>

lemma crun_refines:
  assumes C: "contracts P" and rel: "sys_rel S0 Q0 w0" and acc: "accessors_ok w0" and "crun P w0 ls C w"
  shows "calls_ok P C w \<and> (\<exists>S Q. spec_run ls (S0, Q0) (S, Q) \<and> sys_rel S Q w)"
  using assms(4)
proof (induction rule: crun.induct)
  case begins
  with rel acc show ?case by (auto simp: calls_ok_def intro: spec_run.stay)
next
  case (acts ls C w act w')
  then obtain S Q where S: "spec_run ls (S0, Q0) (S, Q)" "sys_rel S Q w" and ok: "calls_ok P C w" by blast
  from perform_refines [OF assms(1) S(2) acts.hyps(2)] acts.hyps(4) obtain S' Q' where
    "spec_step (label_of act w) (S, Q) (S', Q')" "sys_rel S' Q' w'" by (auto simp: refines_def)
  moreover have "calls_ok P C w'" by (rule calls_ok_acts [OF ok acts.hyps(4)]) (use acts.hyps(3) in blast)
  ultimately show ?case using S(1) by (blast intro: spec_run.snoc)
next
  case (posts ls C w i cl k a req q p w')
  then obtain S Q where S: "spec_run ls (S0, Q0) (S, Q)" "sys_rel S Q w" and ok: "calls_ok P C w" by blast
  from calls_ok_posts [OF ok posts.hyps(2-5)] aside_keeps(1) [OF begun(1) [OF posts.hyps(5)] S(2)] S(1) show ?case by blast
next
  case (serves ls C w i pd v w1 res w')
  then obtain S Q where S: "spec_run ls (S0, Q0) (S, Q)" "sys_rel S Q w" and ok: "calls_ok P C w" by blast
  then have pd: "call_ok P pd w" "accessors_ok w" using serves.hyps(2) unfolding calls_ok_def by blast+
  from served(1) [OF pd serves.hyps(5)] serves.hyps(6) have w': "res = PICO_OK P" "w' = put_reply (pd_cell pd) v w1" by simp_all
  from perform_refines [OF assms(1) S(2) serves.hyps(4)] direct_call_performs(1) [OF serves.hyps(5)] obtain S' Q' where
    "spec_step (label_of (Call (pd_client pd) (request_op (pd_request pd))) w) (S, Q) (S', Q')" "sys_rel S' Q' w1"
    by (auto simp: refines_def)
  with calls_ok_serves [OF ok serves.hyps(2,5)] S(1) aside_keeps(1) [OF put_reply_aside] w' show ?case
    by (blast intro: spec_run.snoc)
next
  case (resumes ls C w i pd res v v' w')
  moreover have "w' = w" using observesD [OF end_call_observes resumes.hyps(4)] .
  ultimately show ?case unfolding calls_ok_def by auto
qed

section \<open>Property\<close>

text \<open>
  C14. Calls from other cores linearize: however the parts of any number of \<open>connect\<close> and \<open>status\<close> calls are
  interleaved with each other and with what the networking core does, the objects are in a state of the
  automaton that is reached by taking each request as one step at the moment its handler runs. A request
  that waits can be handled without a fault, with the same effect and the same value as the member called
  directly; and a caller that resumes gets exactly the value its own request had, however many calls
  were in progress meanwhile.
\<close>

theorem concurrent_calls_linearize:
  assumes "contracts P" and "initial w0" and "crun P w0 ls C w"
  shows "(\<exists>S Q. spec_run ls (Map.empty, {}) (S, Q) \<and> sys_rel S Q w) \<and>
    (\<forall>i pd. C i = Some pd \<longrightarrow> pd_done pd = None \<longrightarrow> admissible P (Call (pd_client pd) (request_op (pd_request pd))) w \<longrightarrow>
      (\<exists>v w1. direct_call P (pd_client pd) (pd_request pd) w = Inr (v, w1) \<and>
        TcpClientSyncAccessor_onExecute P (pd_acc pd) (pd_payload pd) w = Inr (PICO_OK P, put_reply (pd_cell pd) v w1))) \<and>
    (\<forall>i pd res v. C i = Some pd \<longrightarrow> pd_done pd = Some (res, v) \<longrightarrow>
      end_call P (pd_request pd) (pd_cell pd) res w = Inr (v, w))"
proof (intro conjI allI impI)
  from crun_refines [OF assms(1) initial_rel [OF assms(2)] initial_access [OF assms(2)] assms(3)]
  obtain S Q where S: "spec_run ls (Map.empty, {}) (S, Q)" "sys_rel S Q w" and ok: "calls_ok P C w" by blast
  then show "\<exists>S Q. spec_run ls (Map.empty, {}) (S, Q) \<and> sys_rel S Q w" by blast
  fix i pd assume i: "C i = Some pd"
  then have pd: "call_ok P pd w" "accessors_ok w" using ok unfolding calls_ok_def by blast+
  show "end_call P (pd_request pd) (pd_cell pd) res w = Inr (v, w)" if "pd_done pd = Some (res, v)" for res v
    using pd(1) that by (simp add: call_ok_def)
  assume "admissible P (Call (pd_client pd) (request_op (pd_request pd))) w"
  from perform_refines [OF assms(1) S(2) this] direct_call_performs(2) obtain v w1 where
    "direct_call P (pd_client pd) (pd_request pd) w = Inr (v, w1)" unfolding refines_def by blast
  with served(1) [OF pd] show "\<exists>v w1. direct_call P (pd_client pd) (pd_request pd) w = Inr (v, w1) \<and>
      TcpClientSyncAccessor_onExecute P (pd_acc pd) (pd_payload pd) w = Inr (PICO_OK P, put_reply (pd_cell pd) v w1)" by blast
qed

lemma run_crun: "run P w0 ls w \<Longrightarrow> crun P w0 ls Map.empty w"
  by (induction rule: run.induct) (auto intro: crun.intros)

theorem concurrent_calls_linearize_witness:
  "\<exists>C w pd v w1. crun other_core sample_start [L_new 100, L_quiet] C w \<and> C 0 = Some pd \<and> C 1 \<noteq> None \<and>
    pd_request pd = Connect_request 1 80 \<and> direct_call other_core 100 (Connect_request 1 80) w = Inr (v, w1) \<and>
    TcpClientSyncAccessor_onExecute other_core 101 (pd_payload pd) w = Inr (PICO_OK other_core, put_reply (pd_cell pd) v w1)"
proof -
  obtain w k where w: "run other_core sample_start [L_new 100, L_quiet] w" "clients w = [100 \<mapsto> k]" "cl_sync_accessor k = Some 101"
    by (rule other_core_created)
  let ?P = other_core and ?r = "Connect_request 1 80"
  have "\<exists>q p w'. begin_call ?P r v = Inr ((q, p), w') \<and> clients w' = clients v" for r v
    by (cases r) (simp_all add: new_u8_def new_ip_def new_int_def prog_simps)
  then obtain q p w1 q' p' w2 where b: "begin_call ?P ?r w = Inr ((q, p), w1)" "clients w1 = clients w"
    "begin_call ?P Status_request w1 = Inr ((q', p'), w2)" "clients w2 = clients w1" by metis
  let ?pd = "\<lparr>pd_client = 100, pd_acc = 101, pd_request = ?r, pd_cell = q, pd_payload = p, pd_done = None\<rparr>"
  let ?pd' = "\<lparr>pd_client = 100, pd_acc = 101, pd_request = Status_request, pd_cell = q', pd_payload = p', pd_done = None\<rparr>"
  have "crun ?P sample_start [L_new 100, L_quiet] (Map.empty(0 \<mapsto> ?pd)) w1"
    using w(2,3) by (intro crun.posts [OF run_crun [OF w(1)] _ _ _ b(1)]) simp_all
  then have run: "crun ?P sample_start [L_new 100, L_quiet] (Map.empty(0 \<mapsto> ?pd, 1 \<mapsto> ?pd')) w2"
    using w(2,3) b(2) by (intro crun.posts [OF _ _ _ _ b(3)]) simp_all
  have at: "(Map.empty((0::nat) \<mapsto> ?pd, 1 \<mapsto> ?pd')) 0 = Some ?pd" by simp
  have "admissible ?P (Call 100 (request_op ?r)) w2" using w(2) b(2,4) by simp
  with concurrent_calls_linearize [OF other_core_contracts sample_initial run, THEN conjunct2, THEN conjunct1, rule_format, OF at]
  obtain v w3 where "direct_call ?P 100 ?r w2 = Inr (v, w3)"
    "TcpClientSyncAccessor_onExecute ?P 101 p w2 = Inr (PICO_OK ?P, put_reply q v w3)" by auto
  with run show ?thesis by (intro exI [of _ "Map.empty(0 \<mapsto> ?pd, 1 \<mapsto> ?pd')"] exI [of _ w2] exI [of _ ?pd]) simp
qed

end
