(* ===== verification/Orphans.thy ===== *)
theory Orphans
  imports Lifecycle
begin

text \<open>
  The PCBs that the library loses. An orphan is a PCB for which lwIP still has the library's callbacks,
  with a deleted context as their argument. This theory shows which actions make one, that it stays one
  for the rest of the program's life, and that every event lwIP reports for it is a use after free.
\<close>

section \<open>Events of an orphan\<close>

lemma orphan_event:
  assumes "orphan q w"
  shows "\<exists>a. \<forall>ev. report P q ev w = Inl (Dangling_object a)"
proof -
  from assms obtain a b where a: "contexts w a = None" "pcbs (net w) q = Some b" "pcb_regs b = ctx_regs a"
    by (auto simp: orphan_def regs_at_def)
  then have regs: "callback_arg b = Some a" "cb_recv b = Some Fn_lwip_receive_callback" "cb_sent b = Some Fn_lwip_sent_cb"
    "cb_err b = Some Fn_s_error" "cb_poll b = Some Fn_s_poll"
    by (simp_all add: pcb_regs_def ctx_regs_def)
  have "report P q ev w = Inl (Dangling_object a)" for ev
    by (cases ev) (simp_all add: a(1,2) regs prog_simps lwip_recv_event_def lwip_receive_callback_def TcpClientContext_getRxBuffer_def
        lwip_sent_event_def lwip_sent_cb_def TcpClientContext_getTxWriter_def lwip_poll_event_def TcpClientContext_s_poll_def
        TcpClientContext_poll_def lwip_connected_event_def TcpClientContext_s_connected_def TcpClientContext_connected_def
        lwip_error_event_def TcpClientContext_s_error_def TcpClientContext_error_def)
  then show ?thesis by blast
qed

section \<open>An orphan stays one\<close>

lemma spec_run_lost: "spec_run ls A A' \<Longrightarrow> snd A \<subseteq> snd A'"
proof (induction rule: spec_run.induct)
  case (snoc ls A A' l A'')
  then show ?case using spec_step_lost_mono [of l "fst A'" "snd A'" "fst A''" "snd A''"] by auto
qed simp

lemma orphan_stays:
  assumes C: "contracts P" and rel: "sys_rel S Q w" and "orphan q w" and "run P w ls w'"
  shows "orphan q w'"
proof -
  from run_refines [OF C rel assms(4)] obtain S' Q' where S': "spec_run ls (S, Q) (S', Q')" "sys_rel S' Q' w'" by blast
  have "q \<in> Q" using assms(3) sys_rel_orphan [OF rel] by simp
  with spec_run_lost [OF S'(1)] sys_rel_orphan [OF S'(2)] show ?thesis by auto
qed

section \<open>Properties\<close>

text \<open>
  C7. A PCB becomes an orphan in two ways only: the client that is connected on it is destroyed, or an
  idle client asks for a connection, which lwIP rejects, and is idle again. No other operation and no event
  loses a PCB.
\<close>

theorem orphan_origin:
  assumes "contracts P" and "reachable P w" and "admissible P act w" and "perform P act w = Inr ((), w')"
    and "orphan q w'" and "\<not> orphan q w"
  shows "(\<exists>cl dl n. act = Call cl Destroy \<and> client_at cl (Open q dl n) w) \<or>
    (\<exists>cl ip port. act = Call cl (Connect ip port) \<and> client_at cl Idle w \<and> client_at cl Idle w')"
proof -
  obtain S Q where rel: "sys_rel S Q w" using reachable_rel [OF assms(1,2)] .
  from perform_refines [OF assms(1) rel assms(3)] assms(4) obtain S' Q' where
    S': "sys_rel S' Q' w'" and step: "spec_step (label_of act w) (S, Q) (S', Q')" by (auto simp: refines_def)
  have "q \<in> Q'" "q \<notin> Q" using assms(5,6) sys_rel_orphan [OF S'] sys_rel_orphan [OF rel] by simp_all
  from spec_step_lost [OF step this] show ?thesis
  proof (elim disjE exE conjE)
    fix cl dl n assume l: "label_of act w = L_delete cl" and s: "S cl = Some (Open q dl n)"
    from l have "act = Call cl Destroy" by (cases "(act, w)" rule: label_of.cases) (auto elim: op_label.elims)
    with sys_relD(1) [OF rel s] show ?thesis by blast
  next
    fix cl assume l: "label_of act w = L_connect cl" and s: "S cl = Some Idle" "S' = S"
    from l obtain ip port where "act = Call cl (Connect ip port)"
      by (cases "(act, w)" rule: label_of.cases) (auto elim: op_label.elims)
    moreover have "client_at cl Idle w" using sys_relD(1) [OF rel s(1)] .
    moreover have "client_at cl Idle w'" using sys_relD(1) [OF S', of cl Idle] s by simp
    ultimately show ?thesis by blast
  qed
qed

text \<open>
  C36. Destroying a connected client frees its objects but neither closes nor aborts the PCB: the PCB is an
  orphan at once and in every later state, and whatever lwIP reports for it then, data, FIN, an
  acknowledgement, the poll timer, the completed handshake or an error, uses the deleted context.
\<close>

theorem destroyed_client_orphans_pcb:
  assumes "contracts P" and "reachable P w" and "client_at cl (Open p dl n) w"
  shows "\<exists>w'. TcpClient_delete P cl w = Inr ((), w') \<and> reachable P w' \<and>
    (\<forall>ls w''. run P w' ls w'' \<longrightarrow> orphan p w'' \<and> (\<exists>a. \<forall>ev. report P p ev w'' = Inl (Dangling_object a)))"
proof -
  obtain S0 Q where "sys_rel S0 Q w" using reachable_rel [OF assms(1,2)] .
  then have rel: "sys_rel (S0(cl \<mapsto> Open p dl n)) Q w" by (rule sys_rel_choose [OF _ assms(3)])
  have adm: "admissible P (Call cl Destroy) w" using client_at_exists [OF assms(3)] by auto
  from perform_refines [OF assms(1) rel adm] obtain w' S' Q' where w': "perform P (Call cl Destroy) w = Inr ((), w')"
    "sys_rel S' Q' w'" and step: "spec_step (L_delete cl) (S0(cl \<mapsto> Open p dl n), Q) (S', Q')" by (auto simp: refines_def)
  have "orphan p w'" using step sys_rel_orphan [OF w'(2), of p] by auto
  then have "orphan p w'' \<and> (\<exists>a. \<forall>ev. report P p ev w'' = Inl (Dangling_object a))" if "run P w' ls w''" for ls w''
    using orphan_stays [OF assms(1) w'(2) _ that] orphan_event by blast
  with reachable_step [OF assms(2) adm w'(1)] w'(1) show ?thesis by (intro exI [of _ w']) simp
qed

theorem destroyed_client_orphans_pcb_witness:
  "\<exists>w w' a. run sample sample_start [L_new 100, L_connect 100] w \<and> TcpClient_delete sample 100 w = Inr ((), w') \<and>
    orphan 7 w' \<and> report sample 7 Poll w' = Inl (Dangling_object a)"
proof -
  obtain w where w: "run sample sample_start [L_new 100, L_connect 100] w" "client_at 100 (Open 7 [] 0) w"
    by (rule sample_opened)
  from destroyed_client_orphans_pcb [OF sample_all_contracts sample_reachable [OF w(1)] w(2)] obtain w' where
    "TcpClient_delete sample 100 w = Inr ((), w')"
    "\<forall>ls w''. run sample w' ls w'' \<longrightarrow> orphan 7 w'' \<and> (\<exists>a. \<forall>ev. report sample 7 ev w'' = Inl (Dangling_object a))" by blast
  with w(1) run.stay [of sample w'] show ?thesis by metis
qed

theorem orphan_origin_witness:
  "\<exists>w w' dl n. run sample sample_start [L_new 100, L_connect 100] w \<and> perform sample (Call 100 Destroy) w = Inr ((), w') \<and>
    orphan 7 w' \<and> client_at 100 (Open 7 dl n) w"
proof -
  obtain w where w: "run sample sample_start [L_new 100, L_connect 100] w" "client_at 100 (Open 7 [] 0) w"
    by (rule sample_opened)
  note r = sample_reachable [OF w(1)]
  obtain S0 Q where "sys_rel S0 Q w" using reachable_rel [OF sample_all_contracts r] .
  then have rel: "sys_rel (S0(100 \<mapsto> Open 7 [] 0)) Q w" by (rule sys_rel_choose [OF _ w(2)])
  have adm: "admissible sample (Call 100 Destroy) w" using client_at_exists [OF w(2)] by auto
  from perform_refines [OF sample_all_contracts rel adm] obtain w' S' Q' where
    w': "perform sample (Call 100 Destroy) w = Inr ((), w')" "sys_rel S' Q' w'"
    and step: "spec_step (L_delete 100) (S0(100 \<mapsto> Open 7 [] 0), Q) (S', Q')" by (auto simp: refines_def)
  have o: "orphan 7 w'" using step sys_rel_orphan [OF w'(2), of 7] by auto
  from orphan_origin [OF sample_all_contracts r adm w'(1) o orphan_not_open [OF w(2)]]
  have "\<exists>dl n. client_at 100 (Open 7 dl n) w" by (simp del: client_at.simps)
  with w(1) w'(1) o show ?thesis by blast
qed

end
