(* ===== verification/No_Leaks.thy ===== *)
theory No_Leaks
  imports Accessors Lifecycle
begin

text \<open>
  What the library allocates it frees. Every context, receive buffer, writer and accessor that exists
  belongs to a client that exists, and a pbuf that lwIP has handed over stays with a receive buffer until
  it is freed. What the library does leak are PCBs, which is the subject of \<open>Orphans\<close>.
\<close>

section \<open>Strays over a run\<close>

text \<open>The pbufs that no receive buffer has: those lwIP has not delivered.\<close>

definition free_pbufs :: "'h world \<Rightarrow> addr set" where
  "free_pbufs w = {a. Pbuf a \<in> strays w}"

text \<open>No object of the library is without an owner.\<close>

definition all_owned :: "'h world \<Rightarrow> bool" where
  "all_owned w \<longleftrightarrow> strays w \<subseteq> range Pbuf"

lemma all_owned_network:
  assumes "sys_rel S Q w" "lwip_activity w N" "all_owned w"
  shows "all_owned (w\<lparr>net := N\<rparr>)"
  unfolding all_owned_def
proof
  fix x assume x: "x \<in> strays (w\<lparr>net := N\<rparr>)"
  show "x \<in> range Pbuf"
  proof (rule ccontr)
    assume n: "x \<notin> range Pbuf"
    then have "live x (w\<lparr>net := N\<rparr>) = live x w" by (cases x) auto
    moreover have "owned_by cl (w\<lparr>net := N\<rparr>) = owned_by cl w" for cl
      by (simp add: owned_by_def linked_activity_iff [OF assms(1,2)])
    ultimately have "x \<in> strays w" using x by (simp add: strays_def)
    with assms(3) n show False by (auto simp: all_owned_def)
  qed
qed

lemma perform_strays:
  assumes "contracts P" "reachable P w" "admissible P act w" "perform P act w = Inr ((), w')" "\<nexists>N. act = Network N"
  shows "strays w' = strays w - Pbuf ` delivered act"
proof -
  obtain S Q where "sys_rel S Q w" using reachable_rel [OF assms(1,2)] .
  from tidy_strays [OF perform_tidy [OF assms(1) this assms(3,5)] assms(4)] show ?thesis .
qed

lemma perform_all_owned:
  assumes "contracts P" "reachable P w" "admissible P act w" "perform P act w = Inr ((), w')" "all_owned w"
  shows "all_owned w'"
proof (cases "\<exists>N. act = Network N")
  case True
  then obtain N where N: "act = Network N" by blast
  obtain S Q where "sys_rel S Q w" using reachable_rel [OF assms(1,2)] .
  from all_owned_network [OF this _ assms(5)] N assms(3,4) show ?thesis by (auto simp: prog_simps)
next
  case False
  from perform_strays [OF assms(1-4) this] assms(5) show ?thesis by (auto simp: all_owned_def)
qed

lemma initial_all_owned: "initial w \<Longrightarrow> all_owned w"
  unfolding all_owned_def
proof
  fix x assume "initial w" "x \<in> strays w"
  then show "x \<in> range Pbuf" by (cases x) (simp_all add: initial_def strays_def)
qed

lemma reachable_all_owned:
  assumes "contracts P" "reachable P w"
  shows "all_owned w"
proof -
  from assms(2) obtain w0 ls where w0: "initial w0" "run P w0 ls w" by (auto simp: reachable_def)
  from w0(2) show ?thesis
  proof (induction rule: run.induct)
    case stay
    show ?case by (rule initial_all_owned [OF w0(1)])
  next
    case (step ls v act v')
    have "reachable P v" using w0(1) step.hyps(1) by (auto simp: reachable_def)
    from perform_all_owned [OF assms(1) this step.hyps(2,3) step.IH] show ?case .
  qed
qed

lemma all_ownedE:
  assumes "all_owned w" "live x w" "x \<notin> range Pbuf"
  obtains cl F bs where "linked cl F bs w" "x \<in> objs F"
  using assms unfolding all_owned_def strays_def owned_by_def by blast

lemma reachable_accessors: "reachable P w \<Longrightarrow> accessors_ok w"
  unfolding reachable_def using run_access initial_access by blast

text \<open>The parts of a client that has a context, and their PCB while lwIP has the context registered for it.\<close>

lemma ctx_linked:
  assumes "sys_rel S Q w" "clients w cl = Some k" "cl_ctx k = Some c"
  obtains F bs where "linked cl F bs w" "pk F = k" "pc F = c"
proof -
  from assms(2) client_phase [OF assms(1), of cl] obtain s where s: "client_at cl s w" by auto
  have "s \<noteq> Idle" using s assms(2,3) by auto
  from client_at_linked [OF s this] obtain F where L: "linked cl F (unread_of s) w" .
  with assms(2,3) linkedD(4,5) [OF L] show ?thesis by (intro that) auto
qed

lemma registered_attached:
  assumes "sys_rel S Q w" "linked cl F bs w" "ctx_pcb (px F) = Some p" "regs_at w p = Some (ctx_regs (pc F))"
  shows "pcb_attached F p w"
proof -
  from sys_rel_client [OF assms(1,2)] obtain s where s: "client_at cl s w" "s \<noteq> Idle" by blast
  then obtain G cs where "linked cl G cs w" and G: "(\<exists>q. pcb_attached G q w) \<or> ctx_pcb (px G) = None \<or>
      (\<exists>q. ctx_pcb (px G) = Some q \<and> regs_at w q \<noteq> Some (ctx_regs (pc G)))" by (cases s) auto
  then have "G = F" using linked_unique [OF assms(2)] by blast
  with G assms(3,4) show ?thesis by (auto simp: pcb_attached_def)
qed

text \<open>Data arrives in pbufs that have no owner yet.\<close>

lemma delivered_free:
  assumes "sys_rel S Q w" "may_report p (Data qs) w"
  shows "set qs \<subseteq> free_pbufs w"
proof
  fix a assume a: "a \<in> set qs"
  have arr: "rx_rep r ps bs w \<Longrightarrow> arrived (pbufs (net w)) ps (hd qs) qs" for r ps bs using assms(2) by auto
  from assms registeredE obtain cl F bs where "linked cl F bs w" by (metis may_report.simps(1))
  from arr [OF linkedD(3) [OF this]] a have "live (Pbuf a) w" by (auto simp: arrived_def split: option.splits)
  moreover have "a \<notin> set (pps F)" if "linked cl F bs w" for cl F bs
    using arr [OF linkedD(3) [OF that]] a by (auto simp: arrived_def)
  ultimately show "a \<in> free_pbufs w" by (auto simp: free_pbufs_def strays_def owned_by_def)
qed

section \<open>Properties\<close>

text \<open>
  C8. No object of the library is leaked: in every reachable state each context is that of a client, each
  receive buffer and each writer is that of a context, and each accessor is that of a client. In particular
  nothing is left once all clients have been destroyed, however their connections ended: by \<open>stop\<close>,
  \<open>shutdown\<close>, a fatal error or a rejected attempt to connect.
\<close>

theorem heap_objects_owned:
  assumes "contracts P" and "reachable P w"
  shows "(contexts w c \<noteq> None \<longrightarrow> (\<exists>cl k. clients w cl = Some k \<and> cl_ctx k = Some c)) \<and>
    (rx_bufs w r \<noteq> None \<longrightarrow> (\<exists>c x. contexts w c = Some x \<and> ctx_rx x = Some r)) \<and>
    (writers w t \<noteq> None \<longrightarrow> (\<exists>c x. contexts w c = Some x \<and> ctx_tx x = Some t)) \<and>
    (accessors w a \<noteq> None \<longrightarrow> (\<exists>cl k. clients w cl = Some k \<and> cl_sync_accessor k = Some a)) \<and>
    (clients w = Map.empty \<longrightarrow> contexts w = Map.empty \<and> rx_bufs w = Map.empty \<and> writers w = Map.empty \<and> accessors w = Map.empty)"
proof -
  note own = all_ownedE [OF reachable_all_owned [OF assms]]
  have c: "\<exists>cl k. clients w cl = Some k \<and> cl_ctx k = Some c" if "contexts w c \<noteq> None" for c
    by (rule own [of "Context c"]) (use that in \<open>auto dest: linkedD(4,5)\<close>)
  have r: "\<exists>c x. contexts w c = Some x \<and> ctx_rx x = Some r" if "rx_bufs w r \<noteq> None" for r
    by (rule own [of "Rx_buffer r"]) (use that in \<open>auto dest: linkedD(6,8)\<close>)
  have t: "\<exists>c x. contexts w c = Some x \<and> ctx_tx x = Some t" if "writers w t \<noteq> None" for t
    by (rule own [of "Writer t"]) (use that in \<open>auto dest: linkedD(6,9)\<close>)
  have a: "\<exists>cl k. clients w cl = Some k \<and> cl_sync_accessor k = Some a" if "accessors w a \<noteq> None" for a
  proof -
    from that obtain y where "accessors w a = Some y" by auto
    then have "accessor_of (acc_io y) w = Some a" using accessors_okD [OF reachable_accessors [OF assms(2)]] by simp
    then show ?thesis by (cases "clients w (acc_io y)") (auto simp: accessor_of_def)
  qed
  have none: "contexts w = Map.empty" "rx_bufs w = Map.empty" "writers w = Map.empty" "accessors w = Map.empty"
    if "clients w = Map.empty"
  proof -
    show e: "contexts w = Map.empty" using c that by fastforce
    show "rx_bufs w = Map.empty" "writers w = Map.empty" "accessors w = Map.empty" using r t a e that by fastforce+
  qed
  show ?thesis using c [of c] r [of r] t [of t] a [of a] none by blast
qed

theorem heap_objects_owned_witness:
  "\<exists>w c x. run sample sample_start [L_new 100, L_connect 100] w \<and> rx_bufs w 102 \<noteq> None \<and> contexts w c = Some x \<and> ctx_rx x = Some 102"
proof -
  obtain w where w: "run sample sample_start [L_new 100, L_connect 100] w" and rx: "rx_bufs w = [102 \<mapsto> fresh_rx 101]"
    by (rule sample_opened)
  then have "rx_bufs w 102 \<noteq> None" by simp
  with heap_objects_owned [OF sample_all_contracts sample_reachable [OF w], where r = 102] w show ?thesis by blast
qed

text \<open>
  C17. The objects of a connection fit together: in every reachable state the context that a client points to exists
  and all its callbacks lead to that client; its receive buffer and its writer exist, the buffer's callbacks lead back
  to the context and its chain consists of live pbufs; no other client has any of the three. While lwIP has the context
  registered for the context's PCB, the writer and the buffer, if it has received anything, use the same PCB. A client's
  accessor exists and leads back to the client. So no member of these objects that points to another is dangling, whatever
  has been connected, closed, destroyed or rejected before.
\<close>

theorem object_graph_consistent:
  assumes "contracts P" and "reachable P w" and "clients w cl = Some k"
  shows "(\<forall>c. cl_ctx k = Some c \<longrightarrow> (\<exists>x r y t z ps bs. conn cl k c x r y t w \<and> writers w t = Some z \<and> rx_rep r ps bs w \<and>
      (\<forall>p. ctx_pcb x = Some p \<longrightarrow> regs_at w p = Some (ctx_regs c) \<longrightarrow>
        tx_pcb z = Some p \<and> (rx_pcb y = Some p \<or> rx_pcb y = None \<and> ps = [])) \<and>
      (\<forall>cl' k' c' x'. clients w cl' = Some k' \<longrightarrow> cl_ctx k' = Some c' \<longrightarrow> contexts w c' = Some x' \<longrightarrow> cl' \<noteq> cl \<longrightarrow>
        c' \<noteq> c \<and> ctx_rx x' \<noteq> Some r \<and> ctx_tx x' \<noteq> Some t))) \<and>
    (\<forall>a. cl_sync_accessor k = Some a \<longrightarrow> accessors w a = Some \<lparr>acc_io = cl\<rparr>)"
proof (intro conjI allI impI)
  obtain S Q where S: "sys_rel S Q w" using reachable_rel [OF assms(1,2)] .
  show "accessors w a = Some \<lparr>acc_io = cl\<rparr>" if "cl_sync_accessor k = Some a" for a
    using accessors_okD [OF reachable_accessors [OF assms(2)], of cl a] assms(3) that by (simp add: accessor_of_def)
  fix c assume c: "cl_ctx k = Some c"
  obtain F bs where L: "linked cl F bs w" and F: "pk F = k" "pc F = c" by (rule ctx_linked [OF S assms(3) c])
  have "c' \<noteq> c \<and> ctx_rx x' \<noteq> Some (pr F) \<and> ctx_tx x' \<noteq> Some (pt F)"
    if k': "clients w cl' = Some k'" "cl_ctx k' = Some c'" and "contexts w c' = Some x'" "cl' \<noteq> cl" for cl' k' c' x'
  proof -
    obtain G cs where G: "linked cl' G cs w" "pc G = c'" by (rule ctx_linked [OF S k'])
    have "pt G \<noteq> pt F" using sys_relD(2) [OF S] G(1) L that(4) unfolding separated_def by blast
    with linked_distinct [OF G(1) L that(4)] linkedD(6,8,9) [OF G(1)] G(2) F(2) that(3) show ?thesis by auto
  qed
  moreover have "tx_pcb (pz F) = Some p \<and> (rx_pcb (py F) = Some p \<or> rx_pcb (py F) = None \<and> pps F = [])"
    if "ctx_pcb (px F) = Some p" "regs_at w p = Some (ctx_regs c)" for p
    using registered_attached [OF S L that(1)] that(2) F(2) by (simp add: pcb_attached_def)
  moreover have "conn cl k c (px F) (pr F) (py F) (pt F) w" using linkedD(1) [OF L] F by simp
  moreover note linkedD(2,3) [OF L]
  ultimately show "\<exists>x r y t z ps bs. conn cl k c x r y t w \<and> writers w t = Some z \<and> rx_rep r ps bs w \<and>
      (\<forall>p. ctx_pcb x = Some p \<longrightarrow> regs_at w p = Some (ctx_regs c) \<longrightarrow>
        tx_pcb z = Some p \<and> (rx_pcb y = Some p \<or> rx_pcb y = None \<and> ps = [])) \<and>
      (\<forall>cl' k' c' x'. clients w cl' = Some k' \<longrightarrow> cl_ctx k' = Some c' \<longrightarrow> contexts w c' = Some x' \<longrightarrow> cl' \<noteq> cl \<longrightarrow>
        c' \<noteq> c \<and> ctx_rx x' \<noteq> Some r \<and> ctx_tx x' \<noteq> Some t)" by blast
qed

theorem object_graph_consistent_witness:
  "\<exists>w k c x r y t. run sample sample_start [L_new 100, L_connect 100] w \<and> cl_ctx k = Some c \<and> conn 100 k c x r y t w \<and>
    ctx_pcb x = Some 7"
proof -
  obtain w where w: "run sample sample_start [L_new 100, L_connect 100] w" "client_at 100 (Open 7 [] 0) w"
    by (rule sample_opened)
  then obtain F where F: "linked 100 F [] w" "pcb_attached F 7 w" by auto
  from object_graph_consistent [OF sample_all_contracts sample_reachable [OF w(1)] linkedD(4) [OF F(1)]] linkedD(5) [OF F(1)]
  obtain x r y t where "conn 100 (pk F) (pc F) x r y t w" by blast
  moreover from this have "x = px F" using linkedD(6) [OF F(1)] by (simp add: conn_def)
  ultimately show ?thesis using w(1) linkedD(5) [OF F(1)] pcb_attachedD(1) [OF F(2)] by blast
qed

text \<open>
  C9. No pbuf is leaked and none is freed that the library does not own: an operation or event leaves the
  live pbufs that no receive buffer has as they are, except that delivered data finds its owner. So from its
  delivery on a pbuf stays in the chain of a receive buffer until it is freed, through any mixture of
  reading, closing, failing and destroying.
\<close>

theorem pbufs_accounted_for:
  assumes "contracts P" and "reachable P w" and "admissible P act w" and "perform P act w = Inr ((), w')"
    and "\<nexists>N. act = Network N"
  shows "free_pbufs w' = free_pbufs w - delivered act"
  using perform_strays [OF assms] by (auto simp: free_pbufs_def)

theorem pbufs_accounted_for_witness:
  "\<exists>w w'. run sample sample_start [L_new 100, L_connect 100] w \<and> perform sample (Event 7 (Data [1])) w = Inr ((), w') \<and>
    1 \<in> free_pbufs w \<and> free_pbufs w' = free_pbufs w - {1}"
proof -
  obtain w w' where w: "run sample sample_start [L_new 100, L_connect 100] w"
    and r: "run sample w [L_receive 7 [10, 20, 30]] w'" "admissible sample (Event 7 (Data [1])) w"
      "perform sample (Event 7 (Data [1])) w = Inr ((), w')" by (rule sample_received)
  note reach = sample_reachable [OF w]
  obtain S Q where "sys_rel S Q w" using reachable_rel [OF sample_all_contracts reach] .
  then have "1 \<in> free_pbufs w" using delivered_free [of S Q w 7 "[1]"] r(2) by simp
  moreover have "free_pbufs w' = free_pbufs w - delivered (Event 7 (Data [1]) :: size_t action)"
    by (rule pbufs_accounted_for [OF sample_all_contracts reach r(2,3)]) simp
  ultimately show ?thesis using w r(3) by auto
qed

end
