(* ===== verification/Spec2Isabelle.thy ===== *)
theory Spec2Isabelle
  imports Flow_Control Termination Local_Ports Concurrent_Calls Orphans No_Leaks
begin

text \<open>
  A verification development for async-tcp, an asynchronous TCP client for the RP2040 on top of
  lwIP's raw API (\<open>src/include\<close>, \<open>src/src\<close>).

  \<^bold>\<open>The program.\<close> A \<open>TcpClient\<close> owns a \<open>TcpClientContext\<close> while it is connected. The context owns the
  receive buffer \<open>IoRxBuffer\<close> and the \<open>TcpWriter\<close>, holds lwIP's protocol control block (PCB) and is
  the argument lwIP passes to the callbacks the context registers. lwIP's events enter through the C
  functions \<open>lwip_receive_callback\<close> and \<open>lwip_sent_cb\<close> and the static members \<open>_s_error\<close>, \<open>_s_poll\<close>
  and \<open>_s_connected\<close>, go through \<open>std::function\<close>s from the buffer to the context and from the context
  to the client, and end at bridges that the application has installed. Received data stays in lwIP's
  pbufs; the buffer is a cursor into a chain of them. \<open>connect\<close> and \<open>status\<close> may be called from either
  core and go through a \<open>TcpClientSyncAccessor\<close>.

  \<^bold>\<open>How it is modelled.\<close> Programs pass the state explicitly and return a value or a fault
  (\<open>Tcp_Prelude\<close>): a null or dangling pointer, an access out of bounds, a failed \<open>assert\<close> (the model is
  the build with assertions), a call of an empty \<open>std::function\<close>, a shift out of range, or a loop that
  does not return. Loops are the option-valued fixpoint \<open>ploop\<close>; the rule \<open>run_loop_total\<close> proves that
  they return, so no bound or fuel is chosen anywhere. Objects live in one store per class, indexed by
  address (\<open>World\<close>), so that the sharing of a PCB by three objects and the end of an object's life are
  visible. Machine integers are words of the source's width: \<open>size_t\<close> and \<open>int\<close> have 32 bits.

  What is not part of the repository is a parameter: the record \<open>platform\<close> (\<open>Platform\<close>) has lwIP's
  functions and constants, the clock, DNS, the bridges' \<open>workload\<close> and \<open>run\<close>, the core test and the
  lock; \<open>SyncBridge::execute\<close> and the application's write callback are arguments of the definitions
  that call them. The documented behaviour the proofs use is stated as predicates that the theorems
  name as hypotheses: \<open>pbuf_contract\<close> (reference counts and concatenation of pbufs),
  \<open>recved_contract\<close>, \<open>send_contract\<close>, \<open>bridge_contract\<close>, \<open>open_contract\<close> and \<open>reg_contract\<close> (what
  the TCP functions leave alone, and what the registration functions register), \<open>close_contract\<close>
  (when a PCB is freed), \<open>connect_answers\<close>, \<open>lock_contract\<close>, \<open>port_contract\<close> (a port that has been set stays), \<open>exec_runs\<close>,
  \<open>exec_fails\<close> and \<open>exec_among\<close>. \<open>accepts_what_fits\<close> is no contract but a scenario, in which the send
  buffer is the only reason for \<open>tcp_write\<close> to refuse; it is used for the defect that shows there and for messages that
  fit. \<open>Sample_Platform\<close> is a concrete platform that satisfies all of them together; the witnesses use it. Every call that leaves the library is logged, so theorems can speak about the calls made and
  their order.

  \<^bold>\<open>The theories and the source.\<close>
  \<^item> \<open>Io_Rx_Buffer\<close>: \<open>src/IoRxBuffer.cpp\<close>, \<open>include/IoRxBuffer.hpp\<close>. One definition per member,
    \<open>IoRxBuffer_<member>\<close>; the loops of \<open>_slowPath\<close> and \<open>_toAck\<close> have their bodies as definitions of
    their own. \<open>rx_rep r ps bs w\<close> says that the buffer \<open>r\<close> owns the pbufs \<open>ps\<close> and its unread bytes
    are \<open>bs\<close>. The operations are shown to implement the byte queue of \<open>Byte_Queue\<close> (a locale,
    interpreted as \<open>rxq\<close>): consuming drops a prefix, frees exactly the exhausted pbufs and acknowledges
    exactly what was consumed; the fast path equals the slow path; a reading loop gets every byte. Pbufs may
    be empty, as lwIP leaves them when it trims a segment: consuming passes over them, but one at the front
    (\<open>rx_stalled\<close>) hides what follows from \<open>peekAvailable\<close> and makes \<open>peek\<close> read out of bounds, so the
    statements about readers ask for pbufs with content (\<open>filled\<close>).
  \<^item> \<open>Tcp_Writer\<close>: \<open>src/TcpWriter.cpp\<close>, \<open>include/TcpWriter.hpp\<close>. \<open>writeData\<close> does what
    the list function \<open>send_message\<close> says, which determines its chunks, flags, flush and result and the reason of
    every failure; a message that exceeds the send buffer is reported as not queued although a part was.
  \<^item> \<open>Tcp_Client_Context\<close>: \<open>include/TcpClientContext.hpp\<close> without the members that run callbacks.
    Registration in the constructor, the contract \<open>connection_end\<close> that \<open>close\<close> and \<open>abort\<close> share (a
    locale, interpreted for both), the destructor, the keep-alive round trip, the timeout across clock
    wrap-around, the bounds of chunk sizes.
  \<^item> \<open>Callbacks\<close>: the C callbacks, the static members, the function objects and the \<open>_on...Callback\<close>
    members of \<open>TcpClient\<close>, and \<open>TcpClientContext::writeChunk\<close>, which reports errors through them.
    Delivery of data refines appending; the error and FIN paths.
  \<^item> \<open>Tcp_Client\<close>: \<open>src/TcpClient.cpp\<close>, \<open>include/TcpClient.hpp\<close>. All branches of \<open>_ts_connect\<close>, \<open>stop\<close>,
    \<open>shutdown\<close>, the destructor, writing through the application's callback.
  \<^item> \<open>Tcp_Sync_Accessor\<close>: \<open>src/TcpClientSyncAccessor.cpp\<close>, its header and \<open>include/iprs_util.hpp\<close>, and
    the members of the client that use it. The contract \<open>sync_operation\<close> of an accessor operation (a
    locale, interpreted for \<open>status\<close> and \<open>connect\<close>): the same result on both cores, the lock held around
    the operation on the networking core (\<open>entered\<close>, \<open>exited\<close>).
  \<^item> \<open>Connection_Spec\<close>: what the library promises, as an automaton without objects or pointers: every
    client is idle, open (a PCB, the bytes delivered, the reader's position), closed or failed; and the PCBs
    that have lost their client are kept in a set of their own.
  \<^item> \<open>Separation\<close>: which objects belong to a client, which phase they stand for (\<open>client_at\<close>), and the
    relation \<open>sys_rel\<close> between a state and the automaton; a change confined to one client's objects
    leaves the others' alone.
  \<^item> \<open>Queries\<close>: the members that only look, with what they answer in each phase; they change nothing.
  \<^item> \<open>Ownership\<close>: which client owns an object or a pbuf, and that a change confined to one client's objects
    leaves none without an owner.
  \<^item> \<open>Actions\<close>: any number of clients as a state machine. An \<open>action\<close> creates a client, changes a shared
    setting, calls an operation, is an event of lwIP, the fatal error included, or is what lwIP does on its
    own; \<open>admissible\<close> says when the application
    and lwIP may do it (no \<open>peek\<close> at an empty first pbuf, for one), and \<open>run\<close> and \<open>reachable\<close> are sequences of such actions.
  \<^item> \<open>Simulation\<close>: every action refines a step of the automaton (\<open>perform_refines\<close>), one lemma for each
    operation and event, and none but lwIP's own activity loses track of an object (\<open>perform_tidy\<close>).
  \<^item> \<open>Lifecycle\<close>: what follows from it. No operation or event faults in a reachable state, a
    callback argument is a live context unless its PCB is lost, connections deliver their bytes in order,
    clients do not disturb each other, one that has not failed can be shut down and connected again; and
    after a fatal error only destroying the client is safe.
  \<^item> \<open>Orphans\<close>: the lost PCBs. Destroying a connected client and a rejected \<open>tcp_connect\<close> make them, nothing
    else does; nothing repairs them, and every event lwIP reports for one uses a deleted context.
  \<^item> \<open>Step_Frames\<close>: the contracts \<open>step_frame\<close> and \<open>open_frame\<close> (locales) of a relation between states that
    every change the code makes respects, and that therefore all operations and events respect. They are
    interpreted for the accounting of acknowledgements, for calls in progress and for the counter of local ports.
  \<^item> \<open>Accessors\<close>: a client's accessor and its pointer back to the client agree, whatever the actions.
  \<^item> \<open>No_Leaks\<close>: every object on the heap belongs to a client, nothing is left after the last one is
    destroyed, the objects of a client exist and lead back to it, and a delivered pbuf stays with a receive buffer
    until it is freed.
  \<^item> \<open>Local_Ports\<close>: the shared counter of local ports over any list of actions, and the port that an attempt to
    connect gets from it.
  \<^item> \<open>Flow_Control\<close>: \<open>tcp_recved\<close> is called for exactly the bytes that were consumed, over any run.
  \<^item> \<open>Termination\<close>: no action runs forever, in any state on any platform (\<open>peekConsume\<close> needs a chain of
    pbufs that ends and reference counts as documented).
  \<^item> \<open>Cross_Core\<close>: a call from the other core takes effect at one
    moment between whatever the networking core handles while the caller waits (the locale
    \<open>remote_call\<close>, interpreted for \<open>connect\<close> and \<open>status\<close>).
  \<^item> \<open>Concurrent_Calls\<close>: any number of such calls at a time, their parts interleaved with each other and
    with the networking core's steps (\<open>crun\<close>): the execution is one of the automaton in which each request
    is a single step, and every caller gets its own result.

  \<^bold>\<open>What the theorems do not cover.\<close> Logging macros are left out; they only print. The two example
  programs use another library. On the target \<open>read_ipsr\<close> is an assembly instruction and a parameter.
  Bridges run later, outside the callback, so what an application's handler does is a step of its own.
  Operations and events are atomic steps on the networking core: the lock brackets them there, and a
  member that is neither \<open>connect\<close> nor \<open>status\<close> has no protection against a call from the other core in
  the source, so no such call is modelled. Events for a lost PCB are not admissible
  actions, since they all fault; that they do is a theorem. The \<open>maxWaitMs\<close>
  parameters are not used by the code. The values that \<open>_onErrorCallback\<close> and \<open>_onAckCallback\<close> allocate for a
  bridge are plain values here; their deletion is the bridge's and not part of the accounting of objects. lwIP may
  abort a connection of lower priority to make room in \<open>tcp_new\<close>; \<open>open_contract\<close> assumes that it does not: an
  abort by lwIP is an error event between operations. Constants of \<open>TcpWriter\<close> that no code uses have no counterpart.
\<close>

end
